(* ===== verification/Prelude.thy ===== *)
theory Prelude
  imports Main "HOL-Library.Word" "HOL-Library.Monad_Syntax"
begin

unbundle bit_operations_syntax

text \<open>
  Shared vocabulary of the development: machine words, byte strings, bounds-checked access to
  an object of memory, little-endian encoding, and the recorded calls of \<open>printf\<close>.

  An object of C memory (a packet buffer, a page, a struct) is a byte list; a pointer into it
  is an offset. Every access is checked: a read or a write outside the object is the value
  \<open>None\<close>, and so is a loop that never ends (\<open>for (;;);\<close>). A theorem that a function
  returns \<open>Some\<close> is therefore a theorem that it neither leaves its objects nor hangs. The
  error codes that the C functions return (\<open>-1\<close> and so on) are ordinary values.

  The target is x86-64: little endian, 32-bit \<open>int\<close> and \<open>unsigned\<close>, 64-bit
  \<open>size_t\<close>, \<open>UINTN\<close> and pointers, \<open>char\<close> signed.
\<close>

named_theorems mem_simps \<open>reads and writes of objects of memory\<close>
named_theorems frame_simps \<open>what an operation leaves unchanged\<close>

type_synonym u8 = "8 word"
type_synonym u16 = "16 word"
type_synonym u32 = "32 word"
type_synonym u64 = "64 word"
type_synonym bytes = "u8 list"

section \<open>Arguments of printf\<close>

text \<open>
  The variable arguments of a \<open>printf\<close> call. An integer of any width occupies one 64-bit
  slot; a string is the object that the pointer points to (\<open>None\<close> is the null pointer); a
  double is its bit pattern; a pointer that \<open>%n\<close> stores through is its address.
\<close>

datatype parg = PInt u64 | PStr "bytes option" | PDouble u64

type_synonym pcall = "string \<times> parg list"

abbreviation (input) NULL :: u64 where "NULL \<equiv> 0"

section \<open>Words as numbers\<close>

lemma unat_bound: "unat (w :: 'a::len word) < 2 ^ LENGTH('a)"
  by (rule unsigned_less)

lemma unat_u8_le: "unat (b :: u8) \<le> 255"
  using unat_bound [of b] by simp

lemma unat_ucast_up:
  "LENGTH('a) \<le> LENGTH('b) \<Longrightarrow> unat (ucast (w :: 'a::len word) :: 'b::len word) = unat w"
  by (simp add: unsigned_ucast_eq take_bit_nat_eq_self
        order.strict_trans2 [OF unat_bound power_increasing])

lemma unat_and_ffff: "unat (w AND 0xFFFF :: u32) = unat w mod 65536"
proof -
  have "w AND 0xFFFF = take_bit 16 w" by (simp add: take_bit_eq_mask mask_eq_exp_minus_1)
  then show ?thesis by (simp add: take_bit_eq_mod unat_mod)
qed

lemma unat_and_ff: "unat (w AND 0xFF :: u32) = unat w mod 256"
proof -
  have "w AND 0xFF = take_bit 8 w" by (simp add: take_bit_eq_mask mask_eq_exp_minus_1)
  then show ?thesis by (simp add: take_bit_eq_mod unat_mod)
qed

section \<open>Checked access to an object\<close>

definition rdn :: "nat \<Rightarrow> nat \<Rightarrow> bytes \<Rightarrow> bytes option" where
  "rdn off n d = (if off + n \<le> length d then Some (take n (drop off d)) else None)"

definition wrn :: "nat \<Rightarrow> bytes \<Rightarrow> bytes \<Rightarrow> bytes option" where
  "wrn off bs d = (if off + length bs \<le> length d
     then Some (take off d @ bs @ drop (off + length bs) d) else None)"

definition rd8 :: "nat \<Rightarrow> bytes \<Rightarrow> u8 option" where
  "rd8 off d = (if off < length d then Some (d ! off) else None)"

definition wr8 :: "nat \<Rightarrow> u8 \<Rightarrow> bytes \<Rightarrow> bytes option" where
  "wr8 off b d = (if off < length d then Some (d[off := b]) else None)"

lemma rdn_eq_Some [mem_simps]:
  "rdn off n d = Some bs \<longleftrightarrow> off + n \<le> length d \<and> bs = take n (drop off d)"
  by (auto simp: rdn_def)

lemma wrn_eq_Some [mem_simps]:
  "wrn off bs d = Some d' \<longleftrightarrow>
     off + length bs \<le> length d \<and> d' = take off d @ bs @ drop (off + length bs) d"
  by (auto simp: wrn_def)

lemma rd8_eq_Some [mem_simps]: "rd8 off d = Some b \<longleftrightarrow> off < length d \<and> b = d ! off"
  by (auto simp: rd8_def)

lemma wr8_eq_Some [mem_simps]: "wr8 off b d = Some d' \<longleftrightarrow> off < length d \<and> d' = d[off := b]"
  by (auto simp: wr8_def)

lemma rdn_length: "rdn off n d = Some bs \<Longrightarrow> length bs = n"
  by (auto simp: rdn_def split: if_splits)

lemma wrn_length: "wrn off bs d = Some d' \<Longrightarrow> length d' = length d"
  by (auto simp: wrn_def split: if_splits)

lemma wr8_length: "wr8 off b d = Some d' \<Longrightarrow> length d' = length d"
  by (auto simp: wr8_def split: if_splits)

lemma rdn_ok: "off + n \<le> length d \<Longrightarrow> rdn off n d = Some (take n (drop off d))"
  by (simp add: rdn_def)

lemma wrn_ok:
  "off + length bs \<le> length d \<Longrightarrow>
     wrn off bs d = Some (take off d @ bs @ drop (off + length bs) d)"
  by (simp add: wrn_def)

lemma rdn_wrn_same: "wrn off bs d = Some d' \<Longrightarrow> rdn off (length bs) d' = Some bs"
  by (auto simp: wrn_def rdn_def min_def split: if_splits)

lemma nth_wrn:
  assumes "wrn off bs d = Some d'" and "i < length d"
  shows "d' ! i = (if off \<le> i \<and> i < off + length bs then bs ! (i - off) else d ! i)"
  using assms by (auto simp: wrn_def nth_append split: if_splits)

lemma rdn_wrn_disjoint:
  assumes w: "wrn off bs d = Some d'" and dis: "o' + n \<le> off \<or> off + length bs \<le> o'"
  shows "rdn o' n d' = rdn o' n d"
proof -
  have len: "length d' = length d" using w by (rule wrn_length)
  have "take n (drop o' d') = take n (drop o' d)" if le: "o' + n \<le> length d"
  proof (rule nth_equalityI)
    fix i assume "i < length (take n (drop o' d'))"
    then have i: "o' + i < length d" "i < n" using len by auto
    then show "take n (drop o' d') ! i = take n (drop o' d) ! i"
      using nth_wrn [OF w i(1)] dis len by auto
  qed (simp add: len)
  then show ?thesis by (simp add: rdn_def len)
qed

lemma slice_append: "length a = off \<Longrightarrow> length b = n \<Longrightarrow> take n (drop off (a @ b @ c)) = b"
  by simp

lemma wrn_append:
  "length a = off \<Longrightarrow> length b = length bs \<Longrightarrow> wrn off bs (a @ b @ c) = Some (a @ bs @ c)"
  by (simp add: wrn_def)

section \<open>Little-endian encoding\<close>

primrec to_le :: "nat \<Rightarrow> 'a::len word \<Rightarrow> bytes" where
  "to_le 0 w = []"
| "to_le (Suc n) w = ucast w # to_le n (drop_bit 8 w)"

primrec of_le :: "bytes \<Rightarrow> 'a::len word" where
  "of_le [] = 0"
| "of_le (b # bs) = ucast b OR push_bit 8 (of_le bs)"

lemma length_to_le [simp]: "length (to_le n w) = n"
  by (induction n arbitrary: w) auto

lemma to_le_2: "to_le 2 w = [ucast w, ucast (drop_bit 8 w)]"
proof -
  have "to_le (Suc (Suc 0)) w = [ucast w, ucast (drop_bit 8 w)]" by simp
  then show ?thesis by (simp only: numeral_2_eq_2)
qed

lemma to_le_4:
  "to_le 4 w = [ucast w, ucast (drop_bit 8 w), ucast (drop_bit 16 w), ucast (drop_bit 24 w)]"
proof -
  have "to_le (Suc (Suc (Suc (Suc 0)))) w =
      [ucast w, ucast (drop_bit 8 w), ucast (drop_bit 16 w), ucast (drop_bit 24 w)]"
    by (simp add: drop_bit_drop_bit)
  moreover have "Suc (Suc (Suc (Suc 0))) = 4" by simp
  ultimately show ?thesis by (simp only:)
qed

lemma bit_of_le:
  "bit (of_le bs :: 'a::len word) i \<longleftrightarrow>
     i < LENGTH('a) \<and> i < 8 * length bs \<and> bit (bs ! (i div 8)) (i mod 8)"
proof (induction bs arbitrary: i)
  case Nil
  then show ?case by simp
next
  case (Cons b bs)
  show ?case
  proof (cases "i < 8")
    case True
    then show ?thesis
      by (auto simp: bit_or_iff bit_push_bit_iff bit_ucast_iff dest: bit_imp_le_length)
  next
    case False
    then obtain j where j: "i = j + 8" by (metis add.commute le_Suc_ex not_less)
    have "\<not> bit b i" using False by (auto dest: bit_imp_le_length)
    moreover have "(j + 8) div 8 = Suc (j div 8)" by simp
    ultimately show ?thesis using j Cons.IH [of j]
      by (auto simp: bit_or_iff bit_push_bit_iff bit_ucast_iff)
  qed
qed

lemma nth_to_le: "i < n \<Longrightarrow> to_le n w ! i = ucast (drop_bit (8 * i) w)"
proof (induction n arbitrary: w i)
  case 0
  then show ?case by simp
next
  case (Suc n)
  then show ?case by (cases i) (simp_all add: drop_bit_drop_bit algebra_simps)
qed

lemma of_le_to_le:
  fixes w :: "'a::len word"
  assumes "LENGTH('a) \<le> 8 * n"
  shows "of_le (to_le n w) = w"
proof (rule bit_word_eqI)
  fix i assume i: "i < LENGTH('a)"
  then have "i div 8 < n" using assms by auto
  moreover have "8 * (i div 8) + i mod 8 = i" by simp
  ultimately show "bit (of_le (to_le n w) :: 'a word) i = bit w i"
    using i assms by (auto simp: bit_of_le nth_to_le bit_ucast_iff bit_drop_bit_eq add.commute)
qed

lemma to_le_of_le:
  assumes "length bs = n" and "8 * n \<le> LENGTH('a::len)"
  shows "to_le n (of_le bs :: 'a word) = bs"
proof (rule nth_equalityI)
  fix i assume "i < length (to_le n (of_le bs :: 'a word))"
  then have i: "i < n" by simp
  show "to_le n (of_le bs :: 'a word) ! i = bs ! i"
  proof (rule bit_word_eqI)
    fix k assume k: "k < LENGTH(8)"
    then have "(8 * i + k) div 8 = i" "(8 * i + k) mod 8 = k" "8 * i + k < 8 * n"
      using i by auto
    then show "bit (to_le n (of_le bs :: 'a word) ! i) k = bit (bs ! i) k"
      using i k assms by (simp add: nth_to_le bit_ucast_iff bit_drop_bit_eq bit_of_le)
  qed
qed (simp add: assms)


text \<open>The number a little-endian byte string stands for.\<close>

fun le_nat :: "bytes \<Rightarrow> nat" where
  "le_nat [] = 0"
| "le_nat (b # bs) = unat b + 256 * le_nat bs"

lemma le_nat_bound: "le_nat bs < 256 ^ length bs"
proof (induction bs)
  case (Cons b bs)
  have "unat b < 256" using unat_bound [of b] by simp
  moreover have "le_nat bs + 1 \<le> 256 ^ length bs" using Cons by simp
  then have "256 * (le_nat bs + 1) \<le> 256 * 256 ^ length bs" by (rule mult_le_mono2)
  ultimately show ?case by simp
qed simp

lemma unat_of_le: "8 * length bs \<le> LENGTH('a) \<Longrightarrow> unat (of_le bs :: 'a::len word) = le_nat bs"
proof (induction bs)
  case (Cons b bs)
  let ?x = "of_le bs :: 'a word" and ?b = "ucast b :: 'a word"
  have IH: "unat ?x = le_nat bs" using Cons by simp
  have "unat b < 2 ^ 8" using unat_bound [of b] by simp
  also have "(2 :: nat) ^ 8 \<le> 2 ^ LENGTH('a)" using Cons.prems by (intro power_increasing) auto
  finally have ub: "unat ?b = unat b" by (simp add: unsigned_ucast_eq take_bit_nat_eq_self)
  have small: "unat b + 256 * le_nat bs < 2 ^ LENGTH('a)"
  proof -
    have "(256 :: nat) ^ length (b # bs) = 2 ^ (8 * length (b # bs))" by (simp add: power_mult power_add)
    also have "\<dots> \<le> 2 ^ LENGTH('a)" using Cons.prems by (intro power_increasing) auto
    finally show ?thesis using le_nat_bound [of "b # bs"] by simp
  qed
  have "?b AND push_bit 8 ?x = 0"
    by (rule bit_word_eqI) (auto simp: bit_simps dest: bit_imp_le_length)
  then have "of_le (b # bs) = ?b + push_bit 8 ?x" by (simp add: disjunctive_add_eq_or)
  also have "push_bit 8 ?x = ?x * 256" by (simp add: push_bit_eq_mult)
  also have "unat (?b + ?x * 256) = unat b + 256 * le_nat bs"
    using small by (simp add: unat_word_ariths ub IH mult.commute take_bit_eq_mod mod_simps)
  finally show ?case by simp
qed simp

text \<open>
  The interface of a scalar field of an object: a reader and a writer of one width. What a
  reader sees after a write (to the same field, or to a disjoint one), and that a write never
  changes the size of the object, is proved here once for the three widths.
\<close>

locale le_access =
  fixes rd :: "nat \<Rightarrow> bytes \<Rightarrow> 'a::len word option"
    and wr :: "nat \<Rightarrow> 'a word \<Rightarrow> bytes \<Rightarrow> bytes option"
    and width :: nat
  assumes rd_bytes: "rd off d = map_option of_le (rdn off width d)"
    and wr_bytes: "wr off w d = wrn off (to_le width w) d"
    and width: "LENGTH('a) = 8 * width"
begin

lemma rd_wr_same: "wr off w d = Some d' \<Longrightarrow> rd off d' = Some w"
  using rdn_wrn_same [of off "to_le width w" d d'] width
  by (simp add: rd_bytes wr_bytes of_le_to_le)

lemma rd_wr_disjoint:
  "wr off w d = Some d' \<Longrightarrow> o' + width \<le> off \<or> off + width \<le> o' \<Longrightarrow> rd o' d' = rd o' d"
  using rdn_wrn_disjoint [of off "to_le width w" d d' o' width]
  by (simp add: rd_bytes wr_bytes)

lemma wr_length: "wr off w d = Some d' \<Longrightarrow> length d' = length d"
  unfolding wr_bytes by (rule wrn_length)

lemma wr_defined: "wr off w d \<noteq> None \<longleftrightarrow> off + width \<le> length d"
  by (simp add: wr_bytes wrn_def)

lemma rd_defined: "rd off d \<noteq> None \<longleftrightarrow> off + width \<le> length d"
  by (simp add: rd_bytes rdn_def)

lemma wr_rd: "rd off d = Some w \<Longrightarrow> wr off w d = Some d"
proof -
  assume "rd off d = Some w"
  then have le: "off + width \<le> length d" and w: "w = of_le (take width (drop off d))"
    by (auto simp: rd_bytes rdn_def split: if_splits)
  have "to_le width w = take width (drop off d)"
    unfolding w using le width by (intro to_le_of_le) auto
  then show "wr off w d = Some d"
    using le by (simp add: wr_bytes wrn_def) (metis append_take_drop_id drop_drop add.commute)
qed

end

definition rd16 :: "nat \<Rightarrow> bytes \<Rightarrow> u16 option" where
  "rd16 off d = map_option of_le (rdn off 2 d)"

definition wr16 :: "nat \<Rightarrow> u16 \<Rightarrow> bytes \<Rightarrow> bytes option" where
  "wr16 off w d = wrn off (to_le 2 w) d"

definition rd32 :: "nat \<Rightarrow> bytes \<Rightarrow> u32 option" where
  "rd32 off d = map_option of_le (rdn off 4 d)"

definition wr32 :: "nat \<Rightarrow> u32 \<Rightarrow> bytes \<Rightarrow> bytes option" where
  "wr32 off w d = wrn off (to_le 4 w) d"

definition rd64 :: "nat \<Rightarrow> bytes \<Rightarrow> u64 option" where
  "rd64 off d = map_option of_le (rdn off 8 d)"

definition wr64 :: "nat \<Rightarrow> u64 \<Rightarrow> bytes \<Rightarrow> bytes option" where
  "wr64 off w d = wrn off (to_le 8 w) d"

interpretation acc16: le_access rd16 wr16 2
  by unfold_locales (simp_all add: rd16_def wr16_def)

interpretation acc32: le_access rd32 wr32 4
  by unfold_locales (simp_all add: rd32_def wr32_def)

interpretation acc64: le_access rd64 wr64 8
  by unfold_locales (simp_all add: rd64_def wr64_def)

end
