(* ===== verification/Efi.thy ===== *)
theory Efi
  imports Prelude
begin

text \<open>
  The boundary to the UEFI firmware. The firmware is not part of this repository: its
  services are the fields of a record of functions over a firmware state of any type, passed
  to every function that calls them, and what the program relies on is stated as predicates
  over that record where a theorem needs it.

  The state of the program starts with the record \<open>machine\<close>: the firmware's state and the
  calls of \<open>printf\<close> made so far. The components extend it with their global variables.
\<close>

type_synonym efi_status = u64

abbreviation (input) EFI_SUCCESS :: efi_status where "EFI_SUCCESS \<equiv> 0"

abbreviation (input) EFI_INVALID_PARAMETER :: efi_status where
  "EFI_INVALID_PARAMETER \<equiv> 0x8000000000000002"

text \<open>\<open>gSys\<close> and \<open>gImg\<close> are the globals of \<^verbatim>\<open>lib/goodies.c\<close> that are not fields of the
  system table.\<close>

record 'f machine =
  fw :: 'f
  console :: "pcall list"
  gSys :: u64
  gImg :: u64

definition printf :: "string \<Rightarrow> parg list \<Rightarrow> ('f, 'a) machine_scheme \<Rightarrow> ('f, 'a) machine_scheme" where
  "printf fmt args s = s\<lparr>console := console s @ [(fmt, args)]\<rparr>"

lemma printf_frame [frame_simps]:
  "fw (printf fmt args s) = fw s"
  "machine.more (printf fmt args s) = machine.more s"
  by (simp_all add: printf_def)

section \<open>Simple network protocol and timer services\<close>

text \<open>\<open>EFI_SIMPLE_NETWORK_MODE\<close>: the fields this program reads. Addresses are arrays of
  32-byte \<open>EFI_MAC_ADDRESS\<close> structures.\<close>

record snp_mode =
  State :: u32
  HwAddressSize :: u32
  MediaHeaderSize :: u32
  MaxPacketSize :: u32
  ReceiveFilterMask :: u32
  ReceiveFilterSetting :: u32
  MaxMCastFilterCount :: u32
  MCastFilterCount :: u32
  MCastFilter :: bytes
  CurrentAddress :: bytes
  MacAddressChangeable :: u8
  MultipleTxSupported :: u8
  MediaPresentSupported :: u8
  MediaPresent :: u8

abbreviation (input) EfiSimpleNetworkStarted :: u32 where "EfiSimpleNetworkStarted \<equiv> 1"

abbreviation (input) EFI_SIMPLE_NETWORK_RECEIVE_UNICAST :: u32 where
  "EFI_SIMPLE_NETWORK_RECEIVE_UNICAST \<equiv> 0x01"
abbreviation (input) EFI_SIMPLE_NETWORK_RECEIVE_MULTICAST :: u32 where
  "EFI_SIMPLE_NETWORK_RECEIVE_MULTICAST \<equiv> 0x02"
abbreviation (input) EFI_SIMPLE_NETWORK_RECEIVE_PROMISCUOUS :: u32 where
  "EFI_SIMPLE_NETWORK_RECEIVE_PROMISCUOUS \<equiv> 0x08"
abbreviation (input) EFI_SIMPLE_NETWORK_RECEIVE_PROMISCUOUS_MULTICAST :: u32 where
  "EFI_SIMPLE_NETWORK_RECEIVE_PROMISCUOUS_MULTICAST \<equiv> 0x10"
abbreviation (input) EFI_SIMPLE_NETWORK_RECEIVE_INTERRUPT :: u32 where
  "EFI_SIMPLE_NETWORK_RECEIVE_INTERRUPT \<equiv> 0x01"

datatype timer_delay = TimerCancel | TimerPeriodic | TimerRelative

datatype alloc_type = AllocateAnyPages | AllocateMaxAddress | AllocateAddress

abbreviation (input) EfiLoaderData :: u32 where "EfiLoaderData \<equiv> 2"

text \<open>
  The services the network code calls. \<open>Transmit\<close> gets the address of the frame and the
  bytes it reads there; \<open>GetStatus\<close> returns its status, the interrupt bits and the address of
  a transmitted buffer; \<open>Receive\<close> gets the size of the caller's buffer and returns its status,
  the contents of that buffer after the call (byte \<open>i\<close> is \<open>c i\<close>) and the length of the
  frame. \<open>phys_byte\<close> is what a byte of freshly allocated memory holds.
\<close>

record 'f net_fw =
  Transmit :: "u64 \<Rightarrow> bytes \<Rightarrow> 'f \<Rightarrow> efi_status \<times> 'f"
  GetStatus :: "'f \<Rightarrow> efi_status \<times> u32 \<times> u64 \<times> 'f"
  Receive :: "nat \<Rightarrow> 'f \<Rightarrow> efi_status \<times> (nat \<Rightarrow> u8) \<times> nat \<times> 'f"
  Mode :: "'f \<Rightarrow> snp_mode"
  Start :: "'f \<Rightarrow> efi_status \<times> 'f"
  Initialize :: "u64 \<Rightarrow> u64 \<Rightarrow> 'f \<Rightarrow> efi_status \<times> 'f"
  ReceiveFilters :: "u32 \<Rightarrow> u32 \<Rightarrow> u8 \<Rightarrow> u64 \<Rightarrow> bytes option \<Rightarrow> 'f \<Rightarrow> efi_status \<times> 'f"
  Shutdown :: "'f \<Rightarrow> efi_status \<times> 'f"
  Stop :: "'f \<Rightarrow> efi_status \<times> 'f"
  CreateEvent :: "'f \<Rightarrow> efi_status \<times> u64 \<times> 'f"
  SetTimer :: "u64 \<Rightarrow> timer_delay \<Rightarrow> u64 \<Rightarrow> 'f \<Rightarrow> efi_status \<times> 'f"
  CheckEvent :: "u64 \<Rightarrow> 'f \<Rightarrow> efi_status \<times> 'f"
  CloseEvent :: "u64 \<Rightarrow> 'f \<Rightarrow> efi_status \<times> 'f"
  LocateHandle :: "nat \<Rightarrow> 'f \<Rightarrow> efi_status \<times> (nat \<Rightarrow> u64) \<times> 'f"
  OpenSNP :: "u64 \<Rightarrow> 'f \<Rightarrow> efi_status \<times> u64 \<times> 'f"
  AllocatePages :: "alloc_type \<Rightarrow> u32 \<Rightarrow> u64 \<Rightarrow> u64 \<Rightarrow> 'f \<Rightarrow> efi_status \<times> u64 \<times> 'f"
  phys_byte :: "'f \<Rightarrow> u64 \<Rightarrow> u8"

text \<open>The contents of \<open>n\<close> bytes of memory at an address, before the program writes there.\<close>

definition phys_bytes :: "('f, 'x) net_fw_scheme \<Rightarrow> 'f \<Rightarrow> u64 \<Rightarrow> nat \<Rightarrow> bytes" where
  "phys_bytes efi f a n = map (\<lambda>i. phys_byte efi f (a + of_nat i)) [0..<n]"

section \<open>Boot services\<close>

text \<open>\<open>EFI_GUID\<close> as it lies in memory.\<close>

definition guid :: "u32 \<Rightarrow> u16 \<Rightarrow> u16 \<Rightarrow> bytes \<Rightarrow> bytes" where
  "guid a b c d = to_le 4 a @ to_le 2 b @ to_le 2 c @ d"

text \<open>The fields of \<open>EFI_GRAPHICS_OUTPUT_MODE_INFORMATION\<close> and of the protocol's mode.\<close>

record gop_info =
  HorizontalResolution :: u32
  VerticalResolution :: u32
  PixelFormat :: u32
  RedMask :: u32
  GreenMask :: u32
  BlueMask :: u32
  ReservedMask :: u32
  PixelsPerScanLine :: u32

record gop_mode =
  MaxMode :: u32
  FrameBufferBase :: u64
  Info :: gop_info

abbreviation (input) PixelBitMask :: u32 where "PixelBitMask \<equiv> 2"

text \<open>
  The services the boot loader calls beside those of the network. \<open>GetMemoryMap\<close> gets the size of
  the caller's buffer and returns its status, the size of the map, the contents of the buffer
  after the call, the key, the size of a descriptor and their version. \<open>GetInfo\<close> and \<open>Read\<close>
  return the contents of the caller's buffer after the call as well. \<open>Exit\<close> says whether the
  call ended the program.
\<close>

record 'f boot_fw = "'f net_fw" +
  FreePages :: "u64 \<Rightarrow> u64 \<Rightarrow> 'f \<Rightarrow> efi_status \<times> 'f"
  GetMemoryMap :: "nat \<Rightarrow> 'f \<Rightarrow> efi_status \<times> u64 \<times> (nat \<Rightarrow> u8) \<times> u64 \<times> u64 \<times> u32 \<times> 'f"
  ExitBootServices :: "u64 \<Rightarrow> u64 \<Rightarrow> 'f \<Rightarrow> efi_status \<times> 'f"
  AllocatePool :: "u32 \<Rightarrow> u64 \<Rightarrow> 'f \<Rightarrow> efi_status \<times> u64 \<times> 'f"
  FreePool :: "u64 \<Rightarrow> 'f \<Rightarrow> efi_status \<times> 'f"
  BS_OpenProtocol :: "u64 \<Rightarrow> bytes \<Rightarrow> u64 \<Rightarrow> u64 \<Rightarrow> u32 \<Rightarrow> 'f \<Rightarrow> efi_status \<times> u64 \<times> 'f"
  BS_CloseProtocol :: "u64 \<Rightarrow> bytes \<Rightarrow> u64 \<Rightarrow> u64 \<Rightarrow> 'f \<Rightarrow> efi_status \<times> 'f"
  LocateProtocol :: "bytes \<Rightarrow> 'f \<Rightarrow> efi_status \<times> u64 \<times> 'f"
  LoadImage :: "u64 \<Rightarrow> bytes \<Rightarrow> 'f \<Rightarrow> efi_status \<times> u64 \<times> 'f"
  StartImage :: "u64 \<Rightarrow> 'f \<Rightarrow> efi_status \<times> 'f"
  Exit :: "u64 \<Rightarrow> u64 \<Rightarrow> 'f \<Rightarrow> bool \<times> 'f"
  ReadKeyStroke :: "'f \<Rightarrow> efi_status \<times> 'f"
  ConfigurationTable :: "'f \<Rightarrow> (bytes \<times> u64) list"
  DeviceHandle :: "u64 \<Rightarrow> 'f \<Rightarrow> u64"
  OpenVolume :: "u64 \<Rightarrow> 'f \<Rightarrow> efi_status \<times> u64 \<times> 'f"
  FOpen :: "u64 \<Rightarrow> string \<Rightarrow> u64 \<Rightarrow> u64 \<Rightarrow> 'f \<Rightarrow> efi_status \<times> u64 \<times> 'f"
  GetInfo :: "u64 \<Rightarrow> bytes \<Rightarrow> nat \<Rightarrow> 'f \<Rightarrow> efi_status \<times> (nat \<Rightarrow> u8) \<times> 'f"
  Read :: "u64 \<Rightarrow> u64 \<Rightarrow> 'f \<Rightarrow> efi_status \<times> u64 \<times> (nat \<Rightarrow> u8) \<times> 'f"
  Close :: "u64 \<Rightarrow> 'f \<Rightarrow> efi_status \<times> 'f"
  GopMode :: "'f \<Rightarrow> gop_mode"
  QueryMode :: "u32 \<Rightarrow> 'f \<Rightarrow> efi_status \<times> gop_info \<times> 'f"

lemma length_phys_bytes [simp]: "length (phys_bytes efi f a n) = n"
  by (simp add: phys_bytes_def)

end
