(* ===== verification/Cstring.thy ===== *)
theory Cstring
  imports Prelude
begin

unbundle bit_operations_syntax

text \<open>
  The byte routines of \<^verbatim>\<open>lib/string.c\<close> and of gnu-efi's
  \<^verbatim>\<open>lib/runtime/efirtlib.c\<close>, as the loops they are, over bounds-checked objects, with
  the lemmas that reduce them to reads and writes of whole slices. The routines work on
  distinct objects; no caller passes overlapping ones.
\<close>

section \<open>lib/string.c\<close>

fun memset :: "bytes \<Rightarrow> nat \<Rightarrow> int \<Rightarrow> nat \<Rightarrow> bytes option" where
  "memset dst off c 0 = Some dst"
| "memset dst off c (Suc n) =
     do { dst' \<leftarrow> wr8 off (word_of_int c) dst; memset dst' (Suc off) c n }"

fun memcpy :: "bytes \<Rightarrow> nat \<Rightarrow> bytes \<Rightarrow> nat \<Rightarrow> nat \<Rightarrow> bytes option" where
  "memcpy dst doff src soff 0 = Some dst"
| "memcpy dst doff src soff (Suc n) =
     do { b \<leftarrow> rd8 soff src; dst' \<leftarrow> wr8 doff b dst; memcpy dst' (Suc doff) src (Suc soff) n }"

fun memcmp :: "bytes \<Rightarrow> nat \<Rightarrow> bytes \<Rightarrow> nat \<Rightarrow> nat \<Rightarrow> int option" where
  "memcmp a aoff b boff 0 = Some 0"
| "memcmp a aoff b boff (Suc n) =
     do { x \<leftarrow> rd8 aoff a; y \<leftarrow> rd8 boff b;
          let d = uint x - uint y;
          if d \<noteq> 0 then Some d else memcmp a (Suc aoff) b (Suc boff) n }"

function strlen_from :: "bytes \<Rightarrow> nat \<Rightarrow> nat \<Rightarrow> nat option" where
  "strlen_from s off len =
     (if off < length s
      then if s ! off \<noteq> 0 then strlen_from s (Suc off) (Suc len) else Some len
      else None)"
  by pat_completeness auto
termination
  by (relation "measure (\<lambda>(s, off, len). length s - off)") auto

declare strlen_from.simps [simp del]

definition strlen :: "bytes \<Rightarrow> nat \<Rightarrow> nat option" where
  "strlen s off = strlen_from s off 0"

section \<open>gnu-efi lib/runtime/efirtlib.c\<close>

text \<open>\<open>ZeroMem\<close>, \<open>CopyMem\<close> and \<open>CompareMem\<close> of \<^verbatim>\<open>lib/misc.c\<close> only forward to these.\<close>

fun RtZeroMem :: "bytes \<Rightarrow> nat \<Rightarrow> nat \<Rightarrow> bytes option" where
  "RtZeroMem b off 0 = Some b"
| "RtZeroMem b off (Suc n) = do { b' \<leftarrow> wr8 off 0 b; RtZeroMem b' (Suc off) n }"

fun RtSetMem :: "bytes \<Rightarrow> nat \<Rightarrow> nat \<Rightarrow> u8 \<Rightarrow> bytes option" where
  "RtSetMem b off 0 v = Some b"
| "RtSetMem b off (Suc n) v = do { b' \<leftarrow> wr8 off v b; RtSetMem b' (Suc off) n v }"

fun RtCopyMem :: "bytes \<Rightarrow> nat \<Rightarrow> bytes \<Rightarrow> nat \<Rightarrow> nat \<Rightarrow> bytes option" where
  "RtCopyMem d doff s soff 0 = Some d"
| "RtCopyMem d doff s soff (Suc n) =
     do { b \<leftarrow> rd8 soff s; d' \<leftarrow> wr8 doff b d; RtCopyMem d' (Suc doff) s (Suc soff) n }"

fun RtCompareMem :: "bytes \<Rightarrow> nat \<Rightarrow> bytes \<Rightarrow> nat \<Rightarrow> nat \<Rightarrow> int option" where
  "RtCompareMem d doff s soff 0 = Some 0"
| "RtCompareMem d doff s soff (Suc n) =
     do { x \<leftarrow> rd8 doff d; y \<leftarrow> rd8 soff s;
          if x \<noteq> y then Some (uint x - uint y)
          else RtCompareMem d (Suc doff) s (Suc soff) n }"

text \<open>A GUID compares as four 32-bit words whose differences are or-ed together.\<close>

definition RtCompareGuid :: "bytes \<Rightarrow> bytes \<Rightarrow> u32 option" where
  "RtCompareGuid g1 g2 =
     do { a0 \<leftarrow> rd32 0 g1; b0 \<leftarrow> rd32 0 g2;
          a1 \<leftarrow> rd32 4 g1; b1 \<leftarrow> rd32 4 g2;
          a2 \<leftarrow> rd32 8 g1; b2 \<leftarrow> rd32 8 g2;
          a3 \<leftarrow> rd32 12 g1; b3 \<leftarrow> rd32 12 g2;
          Some ((((a0 - b0) OR (a1 - b1)) OR (a2 - b2)) OR (a3 - b3)) }"

section \<open>What the loops compute\<close>

lemma wr8_wrn: "wr8 off b d = wrn off [b] d"
  by (auto simp: wr8_def wrn_def upd_conv_take_nth_drop)

lemma wrn_Cons: "(wrn off [b] d \<bind> (\<lambda>d'. wrn (Suc off) bs d')) = wrn off (b # bs) d"
proof (cases "off < length d")
  case True
  then have "take (Suc off) (take off d @ b # drop (Suc off) d) = take off d @ [b]"
    by (simp add: take_Suc_conv_app_nth min_def)
  with True show ?thesis by (auto simp: wrn_def ac_simps)
qed (auto simp: wrn_def)

lemma wrn_Nil [simp]: "off \<le> length d \<Longrightarrow> wrn off [] d = Some d"
  by (simp add: wrn_def)

lemma rdn_Suc:
  "rdn off (Suc n) d = (case rd8 off d of None \<Rightarrow> None
     | Some b \<Rightarrow> map_option (Cons b) (rdn (Suc off) n d))"
  by (auto simp: rdn_def rd8_def Cons_nth_drop_Suc [symmetric] split: option.splits)

lemma memset_eq:
  "off \<le> length d \<Longrightarrow> memset d off c n = wrn off (replicate n (word_of_int c)) d"
proof (induction n arbitrary: d off)
  case 0
  then show ?case by simp
next
  case (Suc n)
  show ?case
  proof (cases "off < length d")
    case True
    with Suc.IH [of "Suc off" "d[off := word_of_int c]"] wrn_Cons [of off "word_of_int c" d]
    show ?thesis by (simp add: wr8_def flip: wr8_wrn)
  next
    case False
    then show ?thesis by (simp add: wr8_def wrn_def)
  qed
qed

text \<open>\<open>memcpy\<close> reads a slice of the source and writes it as a slice of the destination.\<close>

lemma memcpy_eq:
  "doff \<le> length d \<Longrightarrow> soff \<le> length s \<Longrightarrow>
     memcpy d doff s soff n = (rdn soff n s \<bind> (\<lambda>bs. wrn doff bs d))"
proof (induction n arbitrary: d doff soff)
  case 0
  then show ?case by (simp add: rdn_def)
next
  case (Suc n)
  show ?case
  proof (cases "soff < length s \<and> doff < length d")
    case True
    have "memcpy d doff s soff (Suc n) =
        (rdn (Suc soff) n s \<bind> (\<lambda>bs. wrn (Suc doff) bs (d[doff := s ! soff])))"
      using True Suc.IH [of "Suc doff" "d[doff := s ! soff]" "Suc soff"]
      by (simp add: rd8_def wr8_def)
    moreover have "wrn (Suc doff) bs (d[doff := s ! soff]) = wrn doff (s ! soff # bs) d" for bs
      using True wrn_Cons [of doff "s ! soff" d bs] by (simp add: wr8_def flip: wr8_wrn)
    ultimately show ?thesis
      using True by (cases "rdn (Suc soff) n s") (simp_all add: rdn_Suc rd8_def)
  next
    case False
    then show ?thesis by (auto simp: rd8_def wr8_def rdn_def wrn_def Option.bind_eq_Some_conv)
  qed
qed

lemma RtCopyMem_memcpy: "RtCopyMem d doff s soff n = memcpy d doff s soff n"
  by (induction d doff s soff n rule: RtCopyMem.induct) (auto simp: rd8_def wr8_def)

lemma RtZeroMem_memset: "RtZeroMem d off n = memset d off 0 n"
  by (induction d off n rule: RtZeroMem.induct) (auto simp: wr8_def)

lemma RtCompareMem_memcmp: "RtCompareMem a aoff b boff n = memcmp a aoff b boff n"
  by (induction a aoff b boff n rule: RtCompareMem.induct)
     (auto simp: rd8_def Let_def simp flip: word_uint_eq_iff)

lemma memcpy_None: "memcpy d doff s soff n = None \<longleftrightarrow> n \<noteq> 0 \<and> (length d < doff + n \<or> length s < soff + n)"
  by (induction d doff s soff n rule: memcpy.induct) (auto simp: rd8_def wr8_def)

lemma memcpy_length: "memcpy d doff s soff n = Some d' \<Longrightarrow> length d' = length d"
  by (induction d doff s soff n rule: memcpy.induct)
     (auto simp: Option.bind_eq_Some_conv dest: wr8_length)

lemma memcmp_defined:
  "aoff + n \<le> length a \<Longrightarrow> boff + n \<le> length b \<Longrightarrow> \<exists>r. memcmp a aoff b boff n = Some r"
  by (induction a aoff b boff n rule: memcmp.induct) (auto simp: rd8_def Let_def)

text \<open>\<open>memcmp\<close> is 0 exactly on equal slices.\<close>

lemma memcmp_zero_iff:
  "aoff + n \<le> length a \<Longrightarrow> boff + n \<le> length b \<Longrightarrow>
     memcmp a aoff b boff n = Some 0 \<longleftrightarrow> take n (drop aoff a) = take n (drop boff b)"
proof (induction a aoff b boff n rule: memcmp.induct)
  case (1 a aoff b boff)
  then show ?case by simp
next
  case (2 a aoff b boff n)
  have a: "drop aoff a = a ! aoff # drop (Suc aoff) a"
    using "2.prems" by (simp add: Cons_nth_drop_Suc)
  have b: "drop boff b = b ! boff # drop (Suc boff) b"
    using "2.prems" by (simp add: Cons_nth_drop_Suc)
  show ?case
  proof (cases "a ! aoff = b ! boff")
    case True
    with "2.prems" have "memcmp a (Suc aoff) b (Suc boff) n = Some 0 \<longleftrightarrow>
        take n (drop (Suc aoff) a) = take n (drop (Suc boff) b)"
      by (intro "2.IH") (auto simp: rd8_def)
    with True "2.prems" show ?thesis unfolding a b by (simp add: rd8_def)
  next
    case False
    with "2.prems" show ?thesis unfolding a b by (simp add: rd8_def flip: word_uint_eq_iff)
  qed
qed

text \<open>On whole objects: the form in which the network code uses it.\<close>

lemma memcmp_whole:
  assumes "length a = n" and "boff + n \<le> length b"
  shows "memcmp a 0 b boff n = Some 0 \<longleftrightarrow> a = take n (drop boff b)"
  using memcmp_zero_iff [of 0 n a boff b] assms by simp

lemma strlen_from_eq:
  assumes "\<forall>i<k. s ! (off + i) \<noteq> 0" and "off + k < length s" and "s ! (off + k) = 0"
  shows "strlen_from s off len = Some (len + k)"
  using assms
proof (induction k arbitrary: off len)
  case 0
  then show ?case by (simp add: strlen_from.simps)
next
  case (Suc k)
  have "s ! off \<noteq> 0" using Suc.prems(1) by force
  moreover have "strlen_from s (Suc off) (Suc len) = Some (Suc len + k)"
  proof (rule Suc.IH)
    show "\<forall>i<k. s ! (Suc off + i) \<noteq> 0" using Suc.prems(1) by force
  qed (use Suc.prems in auto)
  ultimately show ?case using Suc.prems(2) by (simp add: strlen_from.simps [of s off len])
qed

text \<open>\<open>strlen\<close> of a terminated string is its length.\<close>

lemma strlen_cstring: "0 \<notin> set cs \<Longrightarrow> strlen (cs @ 0 # rest) 0 = Some (length cs)"
  using strlen_from_eq [of "length cs" "cs @ 0 # rest" 0 0]
  by (force simp: strlen_def nth_append in_set_conv_nth)

end
