(* ===== verification/Netifc.thy ===== *)
theory Netifc
  imports Efi Cstring
begin

unbundle bit_operations_syntax

text \<open>
  \<^verbatim>\<open>src/netifc.c\<close>: the ethernet driver on top of the firmware's simple network protocol.
  It owns sixteen transmit buffers of 2048 bytes, kept on a linked list in memory while they
  are free and owned by the firmware between \<open>Transmit\<close> and the \<open>GetStatus\<close> that returns
  them.
\<close>

section \<open>State\<close>

text \<open>\<open>eth_buffer\<close>: a header of two words and the rest of the 2048-byte slot.\<close>

record eth_buffer =
  buf_magic :: u64
  buf_next :: u64
  buf_data :: bytes

type_synonym eth_heap = "u64 \<Rightarrow> eth_buffer option"

abbreviation (input) MAX_FILTER :: nat where "MAX_FILTER \<equiv> 8"
abbreviation (input) NUM_BUFFER_PAGES :: nat where "NUM_BUFFER_PAGES \<equiv> 8"
abbreviation (input) ETH_BUFFER_SIZE :: nat where "ETH_BUFFER_SIZE \<equiv> 1516"
abbreviation (input) ETH_BUFFER_MAGIC :: u64 where "ETH_BUFFER_MAGIC \<equiv> 0x424201020304A7A7"
abbreviation (input) ETH_ADDR_LEN :: nat where "ETH_ADDR_LEN \<equiv> 6"
abbreviation (input) MAC_STRIDE :: nat where "MAC_STRIDE \<equiv> 32"

record 'f netifc = "'f machine" +
  snp :: u64
  mcast_filters :: bytes
  mcast_filter_count :: u32
  eth_buffers_base :: u64
  eth_buffers :: u64
  buffer_heap :: eth_heap
  net_timer :: u64

section \<open>Transmit buffers\<close>

text \<open>The slot an address lies in: the mask \<open>~2047\<close> is sign-extended to 64 bits.\<close>

definition buf_base :: "u64 \<Rightarrow> u64" where
  "buf_base data = data AND NOT 2047"

definition eth_get_buffer :: "nat \<Rightarrow> ('f, 'a) netifc_scheme \<Rightarrow> (u64 \<times> ('f, 'a) netifc_scheme) option" where
  "eth_get_buffer sz s =
     (if sz > ETH_BUFFER_SIZE then Some (NULL, s)
      else if eth_buffers s = NULL then Some (NULL, s)
      else do {
        let a = eth_buffers s;
        buf \<leftarrow> buffer_heap s a;
        Some (a + 16, s\<lparr>eth_buffers := buf_next buf,
                        buffer_heap := (buffer_heap s)(a \<mapsto> buf\<lparr>buf_next := NULL\<rparr>)\<rparr>) })"

text \<open>A buffer whose magic is wrong stops the program in \<open>for (;;);\<close>.\<close>

definition eth_put_buffer :: "u64 \<Rightarrow> ('f, 'a) netifc_scheme \<Rightarrow> ('f, 'a) netifc_scheme option" where
  "eth_put_buffer data s =
     do { let a = buf_base data;
          buf \<leftarrow> buffer_heap s a;
          if buf_magic buf \<noteq> ETH_BUFFER_MAGIC then None
          else Some (s\<lparr>buffer_heap := (buffer_heap s)(a \<mapsto> buf\<lparr>buf_next := eth_buffers s\<rparr>),
                       eth_buffers := a\<rparr>) }"

text \<open>Access to the bytes of a buffer through an address inside its data part.\<close>

definition buf_load :: "u64 \<Rightarrow> nat \<Rightarrow> ('f, 'a) netifc_scheme \<Rightarrow> bytes option" where
  "buf_load p n s =
     do { buf \<leftarrow> buffer_heap s (buf_base p);
          let o' = unat (p - buf_base p);
          if o' < 16 then None else rdn (o' - 16) n (buf_data buf) }"

definition buf_store :: "u64 \<Rightarrow> bytes \<Rightarrow> ('f, 'a) netifc_scheme \<Rightarrow> ('f, 'a) netifc_scheme option" where
  "buf_store p bs s =
     do { buf \<leftarrow> buffer_heap s (buf_base p);
          let o' = unat (p - buf_base p);
          if o' < 16 then None else do {
            d \<leftarrow> wrn (o' - 16) bs (buf_data buf);
            Some (s\<lparr>buffer_heap := (buffer_heap s)(buf_base p \<mapsto> buf\<lparr>buf_data := d\<rparr>)\<rparr>) } }"

definition eth_send :: "('f, 'x) net_fw_scheme \<Rightarrow> u64 \<Rightarrow> nat \<Rightarrow> ('f, 'a) netifc_scheme \<Rightarrow>
    (int \<times> ('f, 'a) netifc_scheme) option" where
  "eth_send efi data len s =
     (if snp s = NULL then None else do {
        frame \<leftarrow> buf_load data len s;
        let (r, f) = Transmit efi data frame (fw s);
        let s = s\<lparr>fw := f\<rparr>;
        if r \<noteq> 0 then do { s \<leftarrow> eth_put_buffer data s; Some (-1, s) }
        else Some (0, s) })"

definition eth_dump_status :: "('f, 'x) net_fw_scheme \<Rightarrow> ('f, 'a) netifc_scheme \<Rightarrow>
    ('f, 'a) netifc_scheme option" where
  "eth_dump_status efi s =
     (if snp s = NULL then None else do {
        let m = Mode efi (fw s);
        let s = printf ''State/HwAdSz/HdrSz/MaxSz %d %d %d %d\<newline>''
          [PInt (ucast (State m)), PInt (ucast (HwAddressSize m)),
           PInt (ucast (MediaHeaderSize m)), PInt (ucast (MaxPacketSize m))] s;
        let s = printf ''RcvMask/RcvCfg/MaxMcast/NumMcast %d %d %d %d\<newline>''
          [PInt (ucast (ReceiveFilterMask m)), PInt (ucast (ReceiveFilterSetting m)),
           PInt (ucast (MaxMCastFilterCount m)), PInt (ucast (MCastFilterCount m))] s;
        x \<leftarrow> rdn 0 6 (CurrentAddress m);
        let s = printf ''MacAddr %02x:%02x:%02x:%02x:%02x:%02x\<newline>''
          (map (\<lambda>b. PInt (ucast b)) x) s;
        let s = printf ''SetMac/MultiTx/LinkDetect/Link %d %d %d %d\<newline>''
          [PInt (ucast (MacAddressChangeable m)), PInt (ucast (MultipleTxSupported m)),
           PInt (ucast (MediaPresentSupported m)), PInt (ucast (MediaPresent m))] s;
        Some s })"

section \<open>Multicast filters and timer\<close>

definition eth_add_mcast_filter :: "('f, 'x) net_fw_scheme \<Rightarrow> bytes \<Rightarrow> ('f, 'a) netifc_scheme \<Rightarrow>
    (int \<times> ('f, 'a) netifc_scheme) option" where
  "eth_add_mcast_filter efi addr s =
     (if mcast_filter_count s \<ge> of_nat MAX_FILTER then Some (-1, s)
      else if snp s = NULL then None
      else if mcast_filter_count s \<ge> MaxMCastFilterCount (Mode efi (fw s)) then Some (-1, s)
      else do {
        fs \<leftarrow> memcpy (mcast_filters s) (MAC_STRIDE * unat (mcast_filter_count s)) addr 0 ETH_ADDR_LEN;
        Some (0, s\<lparr>mcast_filters := fs, mcast_filter_count := mcast_filter_count s + 1\<rparr>) })"

definition TIMER_MS :: "u32 \<Rightarrow> u64" where
  "TIMER_MS n = ucast n * 10000"

definition netifc_set_timer :: "('f, 'x) net_fw_scheme \<Rightarrow> u32 \<Rightarrow> ('f, 'a) netifc_scheme \<Rightarrow>
    ('f, 'a) netifc_scheme" where
  "netifc_set_timer efi ms s =
     (if net_timer s = NULL then s
      else let (r, f) = SetTimer efi (net_timer s) TimerRelative (TIMER_MS ms) (fw s)
           in s\<lparr>fw := f\<rparr>)"

definition netifc_timer_expired :: "('f, 'x) net_fw_scheme \<Rightarrow> ('f, 'a) netifc_scheme \<Rightarrow>
    bool \<times> ('f, 'a) netifc_scheme" where
  "netifc_timer_expired efi s =
     (if net_timer s = NULL then (False, s)
      else let (r, f) = CheckEvent efi (net_timer s) (fw s)
           in (r = EFI_SUCCESS, s\<lparr>fw := f\<rparr>))"

definition netifc_active :: "('f, 'a) netifc_scheme \<Rightarrow> bool" where
  "netifc_active s = (snp s \<noteq> 0)"

definition netifc_close :: "('f, 'x) net_fw_scheme \<Rightarrow> ('f, 'a) netifc_scheme \<Rightarrow>
    ('f, 'a) netifc_scheme option" where
  "netifc_close efi s =
     (let (_, f) = SetTimer efi (net_timer s) TimerCancel 0 (fw s);
          (_, f) = CloseEvent efi (net_timer s) f
      in if snp s = NULL then None
         else let (_, f) = Shutdown efi f; (_, f) = Stop efi f in Some (s\<lparr>fw := f\<rparr>))"

section \<open>The free list and who owns a buffer\<close>

text \<open>
  \<open>chain h p as\<close>: following \<open>next\<close> from \<open>p\<close> visits the slots \<open>as\<close> and ends at the null
  pointer. \<open>slots_ok\<close> is the well-formedness of the slots themselves: aligned, tagged, full
  size.
\<close>

primrec chain :: "eth_heap \<Rightarrow> u64 \<Rightarrow> u64 list \<Rightarrow> bool" where
  "chain h p [] = (p = NULL)"
| "chain h p (a # as) = (p = a \<and> a \<noteq> NULL \<and> (\<exists>b. h a = Some b \<and> chain h (buf_next b) as))"

definition slots_ok :: "eth_heap \<Rightarrow> bool" where
  "slots_ok h = (\<forall>a b. h a = Some b \<longrightarrow>
     a \<noteq> NULL \<and> a AND 2047 = 0 \<and> buf_magic b = ETH_BUFFER_MAGIC \<and> length (buf_data b) = 2032)"

definition pool :: "('f, 'a) netifc_scheme \<Rightarrow> u64 set \<Rightarrow> u64 list \<Rightarrow> bool" where
  "pool s A as = (slots_ok (buffer_heap s) \<and> dom (buffer_heap s) = A \<and>
     chain (buffer_heap s) (eth_buffers s) as \<and> distinct as)"

lemma chain_in_dom: "chain h p as \<Longrightarrow> set as \<subseteq> dom h"
  by (induction as arbitrary: p) auto

lemma chain_update:
  "a \<notin> set as \<Longrightarrow> chain (h(a \<mapsto> b)) p as = chain h p as"
  by (induction as arbitrary: p) auto

lemma mask_2047: "(2047 :: u64) = mask 11"
  by (simp add: mask_eq_exp_minus_1)

lemma slot_bits:
  fixes a o' :: u64
  assumes "a AND 2047 = 0" and "o' < 2048"
  shows "bit a i \<Longrightarrow> 11 \<le> i" and "bit o' i \<Longrightarrow> i < 11"
proof -
  have "unat o' < 2 ^ 11" using assms(2) by (simp add: word_less_nat_alt)
  then have t: "take_bit 11 o' = o'"
    by (simp add: word_unat_eq_iff unsigned_take_bit_eq take_bit_nat_eq_self)
  show "bit o' i \<Longrightarrow> i < 11" by (subst (asm) t [symmetric]) (simp add: bit_take_bit_iff)
  have "take_bit 11 a = 0" using assms(1) by (simp add: take_bit_eq_mask mask_2047)
  then have "\<not> bit (take_bit 11 a) i" by simp
  then show "bit a i \<Longrightarrow> 11 \<le> i" by (auto simp: bit_take_bit_iff)
qed

lemma buf_base_slot:
  assumes "a AND 2047 = 0" and "o' < 2048"
  shows "buf_base (a + o') = a"
proof -
  note bits = slot_bits [OF assms]
  have "a AND o' = 0" by (rule bit_word_eqI) (use bits in \<open>fastforce simp: bit_and_iff\<close>)
  then have "a + o' = a OR o'" by (rule disjunctive_add_eq_or)
  then show ?thesis unfolding buf_base_def mask_2047
    by (auto intro!: bit_word_eqI simp: bit_simps dest: bits(2)) (use bits(1) in fastforce)
qed

text \<open>
  The contract between the driver's buffer pool and its clients, over the set \<open>A\<close> of all
  slots and the list of free ones: a request takes the first free slot and yields the address
  of its data, an empty pool answers with the null pointer, and any address inside a slot that
  is not free returns that slot to the head of the list.
\<close>

datatype pool_op = Get nat | Put nat u64

fun pool_run :: "(nat \<Rightarrow> 's \<Rightarrow> (u64 \<times> 's) option) \<Rightarrow> (u64 \<Rightarrow> 's \<Rightarrow> 's option) \<Rightarrow>
    pool_op list \<Rightarrow> u64 list \<Rightarrow> 's \<Rightarrow> (u64 list \<times> 's) option" where
  "pool_run get put [] held s = Some (held, s)"
| "pool_run get put (Get n # ops) held s =
     do { (p, s) \<leftarrow> get n s;
          pool_run get put ops (if p = NULL then held else (p - 16) # held) s }"
| "pool_run get put (Put i off # ops) held s =
     (if i < length held then do {
        s \<leftarrow> put (held ! i + (off AND 2047)) s;
        pool_run get put ops (take i held @ drop (Suc i) held) s }
      else pool_run get put ops held s)"

locale buffer_pool =
  fixes get :: "nat \<Rightarrow> 's \<Rightarrow> (u64 \<times> 's) option"
    and put :: "u64 \<Rightarrow> 's \<Rightarrow> 's option"
    and pool :: "'s \<Rightarrow> u64 set \<Rightarrow> u64 list \<Rightarrow> bool"
    and limit :: nat
  assumes pool_wf: "pool s A as \<Longrightarrow> distinct as \<and> set as \<subseteq> A \<and> (\<forall>a\<in>A. a + 16 \<noteq> NULL)"
    and get_ok: "pool s A (a # as) \<Longrightarrow> n \<le> limit \<Longrightarrow>
      \<exists>s'. get n s = Some (a + 16, s') \<and> pool s' A as"
    and get_empty: "pool s A [] \<Longrightarrow> get n s = Some (NULL, s)"
    and get_too_big: "limit < n \<Longrightarrow> get n s = Some (NULL, s)"
    and put_ok: "pool s A as \<Longrightarrow> a \<in> A \<Longrightarrow> a \<notin> set as \<Longrightarrow> off < 2048 \<Longrightarrow>
      \<exists>s'. put (a + off) s = Some s' \<and> pool s' A (a # as)"
begin

lemma get_cases:
  assumes "pool s A as"
  obtains "get n s = Some (NULL, s)"
  | a as' s' where "as = a # as'" "n \<le> limit" "get n s = Some (a + 16, s')" "pool s' A as'"
      "a \<in> A" "a + 16 \<noteq> NULL"
proof (cases as)
  case Nil
  with assms get_empty that(1) show ?thesis by blast
next
  case (Cons a as')
  show ?thesis
  proof (cases "n \<le> limit")
    case True
    with Cons assms get_ok [of s A a as' n] obtain s' where
      "get n s = Some (a + 16, s')" "pool s' A as'" by auto
    moreover have "a \<in> A" "a + 16 \<noteq> NULL" using pool_wf [OF assms] Cons by auto
    ultimately show ?thesis using that(2) Cons True by blast
  next
    case False
    then show ?thesis using that(1) get_too_big by simp
  qed
qed

lemma get_put:
  assumes "pool s A as" and "get n s = Some (p, s')" and "p \<noteq> NULL" and "off < 2048"
  shows "\<exists>s''. put (p - 16 + off) s' = Some s'' \<and> pool s'' A as"
proof -
  from assms obtain a as' where "as = a # as'" "p = a + 16" "pool s' A as'" "a \<in> A"
    by (cases rule: get_cases [OF assms(1), of n]) auto
  moreover have "a \<notin> set as'" using pool_wf [OF assms(1)] calculation by auto
  ultimately show ?thesis using put_ok [of s' A as' a off] assms(4) by simp
qed

lemma and_2047_less: "(off :: u64) AND 2047 < 2048"
proof -
  have "off AND 2047 \<le> 2047" by (rule word_and_le1)
  then show ?thesis by (rule order.strict_trans1) simp
qed

lemma run_conserves:
  assumes "pool s A as" and "distinct (as @ held)" and "set (as @ held) = A"
  shows "\<exists>held' s' as'. pool_run get put ops held s = Some (held', s') \<and>
    pool s' A as' \<and> distinct (as' @ held') \<and> set (as' @ held') = A"
  using assms
proof (induction ops arbitrary: held s as)
  case Nil
  then show ?case by auto
next
  case (Cons op ops)
  show ?case
  proof (cases op)
    case (Get n)
    show ?thesis
    proof (cases rule: get_cases [OF Cons.prems(1), of n])
      case 1
      with Cons Get show ?thesis by simp
    next
      case (2 a as' s')
      have "distinct (as' @ a # held)" "set (as' @ a # held) = A"
        using 2(1) Cons.prems by auto
      from Cons.IH [OF 2(4) this] 2(3,6) show ?thesis by (simp add: Get)
    qed
  next
    case (Put i off)
    show ?thesis
    proof (cases "i < length held")
      case True
      let ?a = "held ! i" and ?rest = "take i held @ drop (Suc i) held"
      have held: "held = take i held @ ?a # drop (Suc i) held"
        using True by (simp add: id_take_nth_drop)
      have a: "?a \<in> A" "?a \<notin> set as"
        using True Cons.prems by auto
      obtain s' where s': "put (?a + (off AND 2047)) s = Some s'" "pool s' A (?a # as)"
        using put_ok [OF Cons.prems(1) a and_2047_less] by blast
      have "distinct ((?a # as) @ ?rest)" "set ((?a # as) @ ?rest) = A"
        using Cons.prems(2,3) by (subst (asm) (1 2) held, force)+
      from Cons.IH [OF s'(2) this] s'(1) True show ?thesis by (simp add: Put)
    next
      case False
      with Cons Put show ?thesis by simp
    qed
  qed
qed

end

lemma pool_slot:
  assumes "pool s A as" and "a \<in> A"
  obtains b where "buffer_heap s a = Some b" "a \<noteq> NULL" "a AND 2047 = 0"
    "buf_magic b = ETH_BUFFER_MAGIC" "length (buf_data b) = 2032"
proof -
  from assms obtain b where "buffer_heap s a = Some b" by (auto simp: pool_def)
  moreover with assms(1) have "a \<noteq> NULL \<and> a AND 2047 = 0 \<and>
      buf_magic b = ETH_BUFFER_MAGIC \<and> length (buf_data b) = 2032"
    by (auto simp: pool_def slots_ok_def)
  ultimately show ?thesis using that by blast
qed

lemma slot_data_not_null: "a AND 2047 = 0 \<Longrightarrow> a + 16 \<noteq> (NULL :: u64)"
  using buf_base_slot [of a 16] by (auto simp: buf_base_def)

lemma slots_ok_next: "slots_ok h \<Longrightarrow> h a = Some b \<Longrightarrow> slots_ok (h(a \<mapsto> b\<lparr>buf_next := p\<rparr>))"
  by (auto simp: slots_ok_def)

lemma slots_ok_data:
  "slots_ok h \<Longrightarrow> h a = Some b \<Longrightarrow> length d = length (buf_data b) \<Longrightarrow>
     slots_ok (h(a \<mapsto> b\<lparr>buf_data := d\<rparr>))"
  by (auto simp: slots_ok_def)

interpretation eth: buffer_pool eth_get_buffer eth_put_buffer
  "pool :: ('f, 'a) netifc_scheme \<Rightarrow> u64 set \<Rightarrow> u64 list \<Rightarrow> bool" ETH_BUFFER_SIZE
proof
  fix s :: "('f, 'a) netifc_scheme" and A as a n and off :: u64
  show "pool s A as \<Longrightarrow> distinct as \<and> set as \<subseteq> A \<and> (\<forall>a\<in>A. a + 16 \<noteq> NULL)"
    by (auto simp: pool_def slots_ok_def dest: chain_in_dom intro!: slot_data_not_null)
  show "pool s A (a # as) \<Longrightarrow> n \<le> ETH_BUFFER_SIZE \<Longrightarrow>
      \<exists>s'. eth_get_buffer n s = Some (a + 16, s') \<and> pool s' A as"
    by (auto simp: pool_def eth_get_buffer_def chain_update slots_ok_next)
  show "pool s A [] \<Longrightarrow> eth_get_buffer n s = Some (NULL, s)"
    by (auto simp: pool_def eth_get_buffer_def)
  show "ETH_BUFFER_SIZE < n \<Longrightarrow> eth_get_buffer n s = Some (NULL, s)"
    by (simp add: eth_get_buffer_def)
  assume pre: "pool s A as" "a \<in> A" "a \<notin> set as" "off < 2048"
  from pre(1,2) obtain b where b: "buffer_heap s a = Some b" "a \<noteq> NULL" "a AND 2047 = 0"
    "buf_magic b = ETH_BUFFER_MAGIC" by (rule pool_slot)
  from b(3) pre(4) have "buf_base (a + off) = a" by (rule buf_base_slot)
  then show "\<exists>s'. eth_put_buffer (a + off) s = Some s' \<and> pool s' A (a # as)"
    using pre b by (auto simp: eth_put_buffer_def pool_def chain_update slots_ok_next)
qed

section \<open>A held buffer\<close>

text \<open>
  Between \<open>eth_get_buffer\<close> and \<open>eth_send\<close> the caller holds one slot: it is neither free nor
  in flight. \<open>inflight\<close> is the set of slots the firmware owns; that it is read off the
  firmware's state is the only thing assumed of it here.
\<close>

definition accounted :: "('f \<Rightarrow> u64 set) \<Rightarrow> u64 set \<Rightarrow> u64 list \<Rightarrow> ('f, 'a) netifc_scheme \<Rightarrow> bool" where
  "accounted inflight A held s = (snp s \<noteq> NULL \<and> distinct held \<and>
     (\<exists>as. pool s A as \<and> set as \<inter> set held = {} \<and> inflight (fw s) \<inter> (set as \<union> set held) = {} \<and>
           inflight (fw s) \<union> set as \<union> set held = A))"

text \<open>
  What the driver relies on: \<open>Transmit\<close> takes ownership of the slot exactly when it succeeds,
  \<open>GetStatus\<close> gives back slots it owns, and nothing else the driver calls moves a slot.
\<close>

definition tx_contract :: "('f, 'x) net_fw_scheme \<Rightarrow> ('f \<Rightarrow> u64 set) \<Rightarrow> bool" where
  "tx_contract efi inflight \<longleftrightarrow>
     (\<forall>p d f r f'. Transmit efi p d f = (r, f') \<longrightarrow>
        inflight f' = (if r = 0 then insert (buf_base p) (inflight f) else inflight f)) \<and>
     (\<forall>f r irq tx f'. GetStatus efi f = (r, irq, tx, f') \<longrightarrow>
        (if r = 0 \<and> tx \<noteq> NULL
         then buf_base tx \<in> inflight f \<and> inflight f' = inflight f - {buf_base tx}
         else inflight f' = inflight f)) \<and>
     (\<forall>n f r c m f'. Receive efi n f = (r, c, m, f') \<longrightarrow> inflight f' = inflight f) \<and>
     (\<forall>e k t f r f'. SetTimer efi e k t f = (r, f') \<longrightarrow> inflight f' = inflight f) \<and>
     (\<forall>e f r f'. CheckEvent efi e f = (r, f') \<longrightarrow> inflight f' = inflight f)"

lemma tx_contractD:
  assumes "tx_contract efi inflight"
  shows "Transmit efi p d f = (r, f') \<Longrightarrow>
      inflight f' = (if r = 0 then insert (buf_base p) (inflight f) else inflight f)"
    and "GetStatus efi f = (r, irq, tx, f') \<Longrightarrow> r = 0 \<Longrightarrow> tx \<noteq> NULL \<Longrightarrow>
      buf_base tx \<in> inflight f \<and> inflight f' = inflight f - {buf_base tx}"
    and "GetStatus efi f = (r, irq, tx, f') \<Longrightarrow> r \<noteq> 0 \<or> tx = NULL \<Longrightarrow> inflight f' = inflight f"
    and "Receive efi n f = (r, c, m, f') \<Longrightarrow> inflight f' = inflight f"
    and "SetTimer efi e k t f = (r, f') \<Longrightarrow> inflight f' = inflight f"
    and "CheckEvent efi e f = (r, f') \<Longrightarrow> inflight f' = inflight f"
  using assms unfolding tx_contract_def by presburger+

definition holds :: "('f \<Rightarrow> u64 set) \<Rightarrow> u64 set \<Rightarrow> u64 \<Rightarrow> bytes \<Rightarrow> ('f, 'a) netifc_scheme \<Rightarrow> bool" where
  "holds inflight A p d s =
     (accounted inflight A [p - 16] s \<and> p \<noteq> NULL \<and> buf_load p ETH_BUFFER_SIZE s = Some d)"

lemma accounted_slot:
  assumes "accounted inflight A [a] s"
  obtains as b where "pool s A as" "a \<in> A" "a \<notin> set as" "buffer_heap s a = Some b" "a AND 2047 = 0"
    "length (buf_data b) = 2032" "a \<notin> inflight (fw s)"
    "inflight (fw s) \<inter> set as = {}" "inflight (fw s) \<union> set as \<union> {a} = A" "snp s \<noteq> NULL"
proof -
  from assms obtain as where as: "pool s A as" "a \<notin> set as" "a \<in> A" "a \<notin> inflight (fw s)"
    "inflight (fw s) \<inter> set as = {}" "inflight (fw s) \<union> set as \<union> {a} = A" "snp s \<noteq> NULL"
    by (auto simp: accounted_def)
  from as(1,3) obtain b where "buffer_heap s a = Some b" "a AND 2047 = 0" "length (buf_data b) = 2032"
    by (rule pool_slot)
  then show ?thesis using that as by blast
qed

lemma buf_load_slot:
  assumes "a AND 2047 = 0" and "buffer_heap s a = Some b" and "16 + k < 2048"
  shows "buf_load (a + 16 + of_nat k) n s = rdn k n (buf_data b)"
proof -
  have u: "unat (16 + of_nat k :: u64) = 16 + k"
    using assms(3) by (simp add: unat_word_ariths unat_of_nat take_bit_eq_mod)
  then have "16 + of_nat k < (2048 :: u64)" using assms(3) by (simp add: word_less_nat_alt)
  with assms(1) have "buf_base (a + (16 + of_nat k)) = a" by (rule buf_base_slot)
  then show ?thesis using assms(2) u by (simp add: buf_load_def add.assoc)
qed

lemma buf_store_slot:
  assumes "a AND 2047 = 0" and "buffer_heap s a = Some b" and "length bs \<le> length (buf_data b)"
  shows "buf_store (a + 16) bs s = Some (s\<lparr>buffer_heap := (buffer_heap s)
    (a \<mapsto> b\<lparr>buf_data := bs @ drop (length bs) (buf_data b)\<rparr>)\<rparr>)"
proof -
  have "buf_base (a + 16) = a" using assms(1) by (rule buf_base_slot) simp
  then show ?thesis using assms(2,3) by (simp add: buf_store_def wrn_def)
qed

lemma pool_data:
  assumes "pool s A as" and "buffer_heap s a = Some b" and "length d = length (buf_data b)"
  shows "pool (s\<lparr>buffer_heap := (buffer_heap s)(a \<mapsto> b\<lparr>buf_data := d\<rparr>)\<rparr>) A as"
proof -
  have "chain (h(a \<mapsto> b\<lparr>buf_data := d\<rparr>)) p as = chain h p as" if "h a = Some b" for h p
    using that by (induction as arbitrary: p) auto
  then show ?thesis using assms by (auto simp: pool_def slots_ok_data)
qed

end
