(* ===== verification/Driver.thy ===== *)
theory Driver
  imports Netifc
begin

unbundle bit_operations_syntax

text \<open>
  The contract of the ethernet driver towards the IPv6 stack (\<^verbatim>\<open>src/inet6.h\<close>,
  ``provided by interface driver''): get a transmit buffer, fill it, hand it to the interface or
  give it back. Both send functions of the stack follow the same protocol; what it does is proved
  here once, and the driver's own definitions are shown to keep the contract.

  \<open>idle\<close> says that the caller holds no buffer, \<open>held p d\<close> that it holds the one at \<open>p\<close> with
  contents \<open>d\<close>; \<open>rest\<close> is the part of the state the driver does not touch, and
  \<open>transmit\<close> is what the interface does with a frame.
\<close>

locale eth_driver =
  fixes get :: "nat \<Rightarrow> 's \<Rightarrow> (u64 \<times> 's) option"
    and put :: "u64 \<Rightarrow> 's \<Rightarrow> 's option"
    and send :: "u64 \<Rightarrow> nat \<Rightarrow> 's \<Rightarrow> (int \<times> 's) option"
    and load :: "u64 \<Rightarrow> nat \<Rightarrow> 's \<Rightarrow> bytes option"
    and store :: "u64 \<Rightarrow> bytes \<Rightarrow> 's \<Rightarrow> 's option"
    and idle :: "'s \<Rightarrow> bool"
    and avail :: "'s \<Rightarrow> bool"
    and held :: "u64 \<Rightarrow> bytes \<Rightarrow> 's \<Rightarrow> bool"
    and rest :: "'s \<Rightarrow> 'r"
    and firmware :: "'s \<Rightarrow> 'f"
    and transmit :: "u64 \<Rightarrow> bytes \<Rightarrow> 'f \<Rightarrow> efi_status \<times> 'f"
  assumes get_idle: "idle s \<Longrightarrow> \<exists>p s'. get ETH_BUFFER_SIZE s = Some (p, s') \<and>
      rest s' = rest s \<and> firmware s' = firmware s \<and> (avail s \<longleftrightarrow> p \<noteq> NULL) \<and>
      (if p = NULL then idle s' else \<exists>d. held p d s' \<and> length d = ETH_BUFFER_SIZE)"
    and load_held: "held p d s \<Longrightarrow> load p ETH_BUFFER_SIZE s = Some d"
    and store_held: "held p d s \<Longrightarrow> length d' = ETH_BUFFER_SIZE \<Longrightarrow>
      \<exists>s'. store p d' s = Some s' \<and> held p d' s' \<and> rest s' = rest s \<and> firmware s' = firmware s"
    and put_held: "held p d s \<Longrightarrow>
      \<exists>s'. put p s = Some s' \<and> idle s' \<and> rest s' = rest s \<and> firmware s' = firmware s"
    and send_held: "held p d s \<Longrightarrow> n \<le> 1514 \<Longrightarrow>
      transmit (p + 2) (take n (drop 2 d)) (firmware s) = (r, f) \<Longrightarrow>
      \<exists>s'. send (p + 2) n s = Some (if r = 0 then 0 else -1, s') \<and> idle s' \<and>
           rest s' = rest s \<and> firmware s' = f"
begin

text \<open>
  The protocol of \<open>udp6_send\<close> and \<open>icmp6_send\<close>: \<open>toobig\<close> is the length check, \<open>setup\<close> the
  header (which fails with a nonzero code when the destination does not resolve) and \<open>fill\<close> the
  payload.
\<close>

lemma send_packet:
  assumes idle: "idle s" and n: "\<not> toobig \<Longrightarrow> n \<le> 1514"
    and total: "\<And>s1 d. rest s1 = rest s \<Longrightarrow> length d = ETH_BUFFER_SIZE \<Longrightarrow> \<not> toobig \<Longrightarrow>
      \<exists>r d'. setup d s1 = Some (r, d') \<and>
        (r = 0 \<longrightarrow> (\<exists>d''. fill d' = Some d'' \<and> length d'' = ETH_BUFFER_SIZE))"
  defines "prog \<equiv> do {
    (p, s) \<leftarrow> get ETH_BUFFER_SIZE s;
    if p = NULL then Some (-1 :: int, s)
    else if toobig then do { s \<leftarrow> put p s; Some (-1, s) }
    else do {
      d \<leftarrow> load p ETH_BUFFER_SIZE s;
      (r, d) \<leftarrow> setup d s;
      if (r :: int) \<noteq> 0 then do { s \<leftarrow> put p s; Some (-1, s) }
      else do { d \<leftarrow> fill d; s \<leftarrow> store p d s; send (p + 2) n s } } }"
  obtains (dropped) s' where "prog = Some (-1, s')" "idle s'" "rest s' = rest s"
      "firmware s' = firmware s"
      "\<not> avail s \<or> toobig \<or> (\<exists>s1 d r d'. rest s1 = rest s \<and> length d = ETH_BUFFER_SIZE \<and>
         setup d s1 = Some (r, d') \<and> r \<noteq> 0)"
  | (sent) p s1 d d' d'' r f s' where "avail s" "\<not> toobig" "rest s1 = rest s" "length d = ETH_BUFFER_SIZE"
      "setup d s1 = Some (0, d')" "fill d' = Some d''"
      "transmit (p + 2) (take n (drop 2 d'')) (firmware s) = (r, f)"
      "prog = Some (if r = 0 then 0 else -1, s')" "idle s'" "rest s' = rest s" "firmware s' = f"
proof -
  from get_idle [OF idle] obtain p s1 where g: "get ETH_BUFFER_SIZE s = Some (p, s1)"
    "rest s1 = rest s" "firmware s1 = firmware s" "avail s \<longleftrightarrow> p \<noteq> NULL"
    "if p = NULL then idle s1 else \<exists>d. held p d s1 \<and> length d = ETH_BUFFER_SIZE" by blast
  show ?thesis
  proof (cases "p = NULL")
    case True
    with g show ?thesis by (intro dropped [of s1]) (auto simp: prog_def)
  next
    case False
    with g obtain d where d: "held p d s1" "length d = ETH_BUFFER_SIZE" by auto
    obtain s2 where s2: "put p s1 = Some s2" "idle s2" "rest s2 = rest s1" "firmware s2 = firmware s1"
      using put_held [OF d(1)] by blast
    show ?thesis
    proof (cases toobig)
      case True
      with False g s2 show ?thesis by (intro dropped [of s2]) (auto simp: prog_def)
    next
      case small: False
      obtain r d' where d': "setup d s1 = Some (r, d')"
        "r = 0 \<longrightarrow> (\<exists>d''. fill d' = Some d'' \<and> length d'' = ETH_BUFFER_SIZE)"
        using total [OF g(2) d(2) small] by blast
      show ?thesis
      proof (cases "r = 0")
        case False
        with \<open>p \<noteq> NULL\<close> small g s2 d d' show ?thesis
          by (intro dropped [of s2]) (auto simp: prog_def load_held)
      next
        case True
        with d' obtain d'' where d'': "fill d' = Some d''" "length d'' = ETH_BUFFER_SIZE" by blast
        obtain s3 where s3: "store p d'' s1 = Some s3" "held p d'' s3" "rest s3 = rest s1"
          "firmware s3 = firmware s1" using store_held [OF d(1) d''(2)] by blast
        obtain rr f where t: "transmit (p + 2) (take n (drop 2 d'')) (firmware s) = (rr, f)"
          by fastforce
        then obtain s4 where s4: "send (p + 2) n s3 = Some (if rr = 0 then 0 else -1, s4)" "idle s4"
          "rest s4 = rest s3" "firmware s4 = f"
          using send_held [OF s3(2) n [OF small], of rr f] s3(4) g(3) by auto
        have "prog = Some (if rr = 0 then 0 else -1, s4)"
          using \<open>p \<noteq> NULL\<close> small g(1) d d'(1) True d''(1) s3(1) s4(1)
          by (simp add: prog_def load_held)
        with small g(2,4) \<open>p \<noteq> NULL\<close> d(2) d'(1) True d''(1) t s4 s3(3) show ?thesis
          by (intro sent [of s1 d d' d'' p rr f s4]) auto
      qed
    qed
  qed
qed

end

section \<open>The driver keeps the contract\<close>

definition untouched :: "('f, 'a) netifc_scheme \<Rightarrow>
    pcall list \<times> u64 \<times> bytes \<times> u32 \<times> u64 \<times> u64 \<times> 'a" where
  "untouched s = (console s, snp s, mcast_filters s, mcast_filter_count s, eth_buffers_base s,
     net_timer s, netifc.more s)"

definition drv_idle :: "('f, 'x) net_fw_scheme \<Rightarrow> ('f \<Rightarrow> u64 set) \<Rightarrow> u64 set \<Rightarrow>
    ('f, 'a) netifc_scheme \<Rightarrow> bool" where
  "drv_idle efi inflight A s = (tx_contract efi inflight \<and> accounted inflight A [] s)"

definition drv_held :: "('f, 'x) net_fw_scheme \<Rightarrow> ('f \<Rightarrow> u64 set) \<Rightarrow> u64 set \<Rightarrow> u64 \<Rightarrow> bytes \<Rightarrow>
    ('f, 'a) netifc_scheme \<Rightarrow> bool" where
  "drv_held efi inflight A p d s = (tx_contract efi inflight \<and> holds inflight A p d s)"

lemma holds_load:
  assumes "accounted inflight A [a] s" and "buffer_heap s a = Some b"
  shows "holds inflight A (a + 16) (take ETH_BUFFER_SIZE (buf_data b)) s"
proof -
  from assms(1) obtain b' where b': "buffer_heap s a = Some b'" "a AND 2047 = 0"
    "length (buf_data b') = 2032" by (rule accounted_slot)
  then have "buf_load (a + 16) ETH_BUFFER_SIZE s = Some (take ETH_BUFFER_SIZE (buf_data b))"
    using buf_load_slot [of a s b 0 ETH_BUFFER_SIZE] assms(2) by (simp add: rdn_def)
  then show ?thesis using assms b' by (simp add: holds_def slot_data_not_null)
qed

lemma drv_get:
  assumes "drv_idle efi inflight A s"
  shows "\<exists>p s'. eth_get_buffer ETH_BUFFER_SIZE s = Some (p, s') \<and> untouched s' = untouched s \<and>
    fw s' = fw s \<and> (eth_buffers s \<noteq> NULL \<longleftrightarrow> p \<noteq> NULL) \<and>
    (if p = NULL then drv_idle efi inflight A s'
     else \<exists>d. drv_held efi inflight A p d s' \<and> length d = ETH_BUFFER_SIZE)"
proof -
  from assms obtain as where as: "tx_contract efi inflight" "snp s \<noteq> NULL" "pool s A as"
    "inflight (fw s) \<inter> set as = {}" "inflight (fw s) \<union> set as = A"
    by (auto simp: drv_idle_def accounted_def)
  show ?thesis
  proof (cases as)
    case Nil
    with as assms show ?thesis by (auto simp: eth_get_buffer_def pool_def)
  next
    case (Cons a as')
    then obtain b where b: "eth_buffers s = a" "a \<noteq> NULL" "buffer_heap s a = Some b" "a \<notin> set as'"
      using as(3) by (auto simp: pool_def)
    let ?s = "s\<lparr>eth_buffers := buf_next b, buffer_heap := (buffer_heap s)(a \<mapsto> b\<lparr>buf_next := NULL\<rparr>)\<rparr>"
    have g: "eth_get_buffer ETH_BUFFER_SIZE s = Some (a + 16, ?s)"
      using b by (simp add: eth_get_buffer_def)
    have "pool ?s A as'" using eth.get_ok [of s A a as' ETH_BUFFER_SIZE] as(3) Cons g by simp
    moreover have "a \<in> A" using as(5) Cons by auto
    ultimately have "accounted inflight A [a] ?s"
      using as Cons b unfolding accounted_def by (auto intro!: exI [of _ as'])
    then have h: "holds inflight A (a + 16) (take ETH_BUFFER_SIZE (buf_data b)) ?s"
      using holds_load [of inflight A a ?s "b\<lparr>buf_next := NULL\<rparr>"] by simp
    from as(3) \<open>a \<in> A\<close> obtain b' where "buffer_heap s a = Some b'" "length (buf_data b') = 2032"
      by (rule pool_slot)
    with b(1-3) h g as(1) show ?thesis
      by (auto simp: untouched_def drv_held_def holds_def)
  qed
qed

lemma drv_store:
  assumes "drv_held efi inflight A p d s" and "length d' = ETH_BUFFER_SIZE"
  shows "\<exists>s'. buf_store p d' s = Some s' \<and> drv_held efi inflight A p d' s' \<and>
    untouched s' = untouched s \<and> fw s' = fw s"
proof -
  let ?a = "p - 16"
  from assms(1) have acc: "accounted inflight A [?a] s" and p: "p \<noteq> NULL" "tx_contract efi inflight"
    by (simp_all add: drv_held_def holds_def)
  from acc obtain as b where b: "pool s A as" "buffer_heap s ?a = Some b" "?a AND 2047 = 0"
    "length (buf_data b) = 2032" by (rule accounted_slot)
  let ?d = "d' @ drop (length d') (buf_data b)"
  let ?s = "s\<lparr>buffer_heap := (buffer_heap s)(?a \<mapsto> b\<lparr>buf_data := ?d\<rparr>)\<rparr>"
  have st: "buf_store p d' s = Some ?s"
    using buf_store_slot [OF b(3,2), of d'] b(4) assms(2) by simp
  have "pool ?s A as'" if "pool s A as'" for as'
    using pool_data [OF that b(2), of ?d] b(4) assms(2) by simp
  then have "accounted inflight A [?a] ?s" using acc by (auto simp: accounted_def)
  then have "holds inflight A p d' ?s"
    using holds_load [of inflight A ?a ?s "b\<lparr>buf_data := ?d\<rparr>"] assms(2) by simp
  with st p show ?thesis by (auto simp: drv_held_def untouched_def)
qed

lemma accounted_put:
  assumes "accounted inflight A [a] s" and "off < 2048"
  shows "\<exists>s'. eth_put_buffer (a + off) s = Some s' \<and> accounted inflight A [] s' \<and>
    untouched s' = untouched s \<and> fw s' = fw s"
proof -
  from assms(1) obtain as b where b: "pool s A as" "a \<in> A" "a \<notin> set as"
    "a \<notin> inflight (fw s)" "inflight (fw s) \<inter> set as = {}"
    "inflight (fw s) \<union> set as \<union> {a} = A" "snp s \<noteq> NULL" by (rule accounted_slot)
  obtain s' where s': "eth_put_buffer (a + off) s = Some s'" "pool s' A (a # as)"
    using eth.put_ok [OF b(1-3) assms(2)] by blast
  then have fr: "untouched s' = untouched s" "fw s' = fw s" "snp s' = snp s"
    by (auto simp: eth_put_buffer_def untouched_def Let_def Option.bind_eq_Some_conv split: if_splits)
  have "accounted inflight A [] s'"
    unfolding accounted_def using s'(2) b fr by (auto intro!: exI [of _ "a # as"])
  with s' fr show ?thesis by blast
qed

lemma drv_put:
  assumes "drv_held efi inflight A p d s"
  shows "\<exists>s'. eth_put_buffer p s = Some s' \<and> drv_idle efi inflight A s' \<and>
    untouched s' = untouched s \<and> fw s' = fw s"
  using accounted_put [of inflight A "p - 16" s 16] assms
  by (simp add: drv_held_def drv_idle_def holds_def)

lemma drv_send:
  assumes "drv_held efi inflight A p d s" and "n \<le> 1514"
    and "Transmit efi (p + 2) (take n (drop 2 d)) (fw s) = (r, f)"
  shows "\<exists>s'. eth_send efi (p + 2) n s = Some (if r = 0 then 0 else -1, s') \<and>
    drv_idle efi inflight A s' \<and> untouched s' = untouched s \<and> fw s' = f"
proof -
  let ?a = "p - 16"
  from assms(1) have acc: "accounted inflight A [?a] s" and tx: "tx_contract efi inflight"
    and d: "buf_load p ETH_BUFFER_SIZE s = Some d"
    by (simp_all add: drv_held_def holds_def)
  from acc obtain as b where b: "pool s A as" "?a \<in> A" "?a \<notin> set as" "buffer_heap s ?a = Some b"
    "?a AND 2047 = 0" "length (buf_data b) = 2032" "?a \<notin> inflight (fw s)"
    "inflight (fw s) \<inter> set as = {}" "inflight (fw s) \<union> set as \<union> {?a} = A" "snp s \<noteq> NULL"
    by (rule accounted_slot)
  have "d = take ETH_BUFFER_SIZE (buf_data b)"
    using d buf_load_slot [OF b(5,4), of 0 ETH_BUFFER_SIZE] b(6) by (simp add: rdn_def)
  then have frame: "buf_load (p + 2) n s = Some (take n (drop 2 d))"
    using buf_load_slot [OF b(5,4), of 2 n] b(6) assms(2)
    by (simp add: rdn_def drop_take min_def add.commute)
  have p2: "?a + 18 = p + 2" by simp
  then have base: "buf_base (p + 2) = ?a" using buf_base_slot [OF b(5), of 18] by (simp only: p2) simp
  let ?s = "s\<lparr>fw := f\<rparr>"
  have pool: "pool ?s A as" using b(1) by (simp add: pool_def)
  have infl: "inflight f = (if r = 0 then insert ?a (inflight (fw s)) else inflight (fw s))"
    using tx_contractD(1) [OF tx assms(3)] base by simp
  show ?thesis
  proof (cases "r = 0")
    case True
    have "accounted inflight A [] ?s"
      unfolding accounted_def using b pool infl True by (auto intro!: exI [of _ as])
    with True frame assms(3) b(10) tx show ?thesis
      by (simp add: eth_send_def drv_idle_def untouched_def)
  next
    case False
    have "accounted inflight A [?a] ?s"
      unfolding accounted_def using b pool infl False by (auto intro!: exI [of _ as])
    from accounted_put [OF this, of 18, unfolded p2] obtain s' where
      s': "eth_put_buffer (p + 2) ?s = Some s'" "accounted inflight A [] s'"
        "untouched s' = untouched ?s" "fw s' = f" by auto
    with False frame assms(3) b(10) tx show ?thesis
      by (simp add: eth_send_def drv_idle_def untouched_def)
  qed
qed

interpretation drv: eth_driver eth_get_buffer eth_put_buffer "eth_send efi" buf_load buf_store
  "drv_idle efi inflight A" "\<lambda>s. eth_buffers s \<noteq> NULL" "drv_held efi inflight A" untouched fw
  "Transmit efi"
  for efi :: "('f, 'x) net_fw_scheme" and inflight A
proof
  show "drv_idle efi inflight A s \<Longrightarrow> \<exists>p s'. eth_get_buffer ETH_BUFFER_SIZE s = Some (p, s') \<and>
      untouched s' = untouched s \<and> fw s' = fw s \<and> (eth_buffers s \<noteq> NULL \<longleftrightarrow> p \<noteq> NULL) \<and>
      (if p = NULL then drv_idle efi inflight A s'
       else \<exists>d. drv_held efi inflight A p d s' \<and> length d = ETH_BUFFER_SIZE)" for s
    by (rule drv_get)
qed (simp_all add: drv_store drv_put drv_send, simp add: drv_held_def holds_def)

end
