(* ===== verification/Printf.thy ===== *)
theory Printf
  imports Cstring
begin

unbundle bit_operations_syntax

text \<open>
  \<^verbatim>\<open>third_party/lk/src/printf.c\<close>, the formatted output of the boot loader: conversion of
  integers and doubles to text, the format-string engine over any output function, and
  \<open>vsnprintf\<close> on top of it. Text is bytes; \<open>asc\<close> gives the bytes of an ASCII literal.
\<close>

abbreviation (input) asc :: "string \<Rightarrow> bytes" where "asc \<equiv> map of_char"
abbreviation (input) chr8 :: "char \<Rightarrow> u8" where "chr8 \<equiv> of_char"

section \<open>Flags\<close>

abbreviation (input) LONGFLAG :: u32 where "LONGFLAG \<equiv> 0x00000001"
abbreviation (input) LONGLONGFLAG :: u32 where "LONGLONGFLAG \<equiv> 0x00000002"
abbreviation (input) HALFFLAG :: u32 where "HALFFLAG \<equiv> 0x00000004"
abbreviation (input) HALFHALFFLAG :: u32 where "HALFHALFFLAG \<equiv> 0x00000008"
abbreviation (input) SIZETFLAG :: u32 where "SIZETFLAG \<equiv> 0x00000010"
abbreviation (input) INTMAXFLAG :: u32 where "INTMAXFLAG \<equiv> 0x00000020"
abbreviation (input) PTRDIFFFLAG :: u32 where "PTRDIFFFLAG \<equiv> 0x00000040"
abbreviation (input) ALTFLAG :: u32 where "ALTFLAG \<equiv> 0x00000080"
abbreviation (input) CAPSFLAG :: u32 where "CAPSFLAG \<equiv> 0x00000100"
abbreviation (input) SHOWSIGNFLAG :: u32 where "SHOWSIGNFLAG \<equiv> 0x00000200"
abbreviation (input) SIGNEDFLAG :: u32 where "SIGNEDFLAG \<equiv> 0x00000400"
abbreviation (input) LEFTFORMATFLAG :: u32 where "LEFTFORMATFLAG \<equiv> 0x00000800"
abbreviation (input) LEADZEROFLAG :: u32 where "LEADZEROFLAG \<equiv> 0x00001000"
abbreviation (input) BLANKPOSFLAG :: u32 where "BLANKPOSFLAG \<equiv> 0x00002000"

definition has :: "u32 \<Rightarrow> u32 \<Rightarrow> bool" where
  "has flags f = (flags AND f \<noteq> 0)"

section \<open>Numbers to text\<close>

text \<open>\<open>buf[--pos] = b\<close>: a position of 0 would wrap around to the largest \<open>size_t\<close>.\<close>

definition put_rev :: "u8 \<Rightarrow> bytes \<Rightarrow> nat \<Rightarrow> (bytes \<times> nat) option" where
  "put_rev b buf pos = (if pos = 0 then None else do { buf \<leftarrow> wr8 (pos - 1) b buf; Some (buf, pos - 1) })"

function dec_loop :: "bytes \<Rightarrow> nat \<Rightarrow> u64 \<Rightarrow> (bytes \<times> nat \<times> u64) option" where
  "dec_loop buf pos n =
     (if n \<ge> 10 then do {
        let digit = n mod 10;
        (buf, pos) \<leftarrow> put_rev (ucast digit + 48) buf pos;
        dec_loop buf pos (n div 10) }
      else Some (buf, pos, n))"
  by pat_completeness auto
termination
proof (relation "measure (\<lambda>(buf, pos, n). unat n)", simp, clarsimp)
  fix n :: u64
  assume "10 \<le> n"
  then have "10 \<le> unat n" by (simp add: word_le_nat_alt)
  then show "unat (n div 10) < unat n" by (simp add: unat_div)
qed

declare dec_loop.simps [simp del]

definition longlong_to_string :: "bytes \<Rightarrow> u64 \<Rightarrow> nat \<Rightarrow> u32 \<Rightarrow> (bytes \<times> nat \<times> u8) option" where
  "longlong_to_string buf n len flag =
     (let negative = has flag SIGNEDFLAG \<and> sint n < 0;
          n = (if negative then - n else n)
      in do {
        (buf, pos) \<leftarrow> put_rev 0 buf len;
        (buf, pos, n) \<leftarrow> dec_loop buf pos n;
        (buf, pos) \<leftarrow> put_rev (ucast n + 48) buf pos;
        Some (buf, pos,
          if negative then chr8 CHR ''-''
          else if has flag SHOWSIGNFLAG then chr8 CHR ''+''
          else if has flag BLANKPOSFLAG then chr8 CHR '' ''
          else 0) })"

definition hextable :: bytes where "hextable = asc ''0123456789abcdef''"
definition hextable_caps :: bytes where "hextable_caps = asc ''0123456789ABCDEF''"

function hex_loop :: "bytes \<Rightarrow> bytes \<Rightarrow> nat \<Rightarrow> u64 \<Rightarrow> (bytes \<times> nat) option" where
  "hex_loop table buf pos u =
     do { let digit = unat (u mod 16);
          let u' = u div 16;
          c \<leftarrow> rd8 digit table;
          (buf, pos) \<leftarrow> put_rev c buf pos;
          if u' \<noteq> 0 then hex_loop table buf pos u' else Some (buf, pos) }"
  by pat_completeness auto
termination
proof (relation "measure (\<lambda>(table, buf, pos, u). unat u)", simp, clarsimp)
  fix u :: u64
  assume "u div 16 \<noteq> 0"
  then have "u \<noteq> 0" by auto
  then have "0 < unat u" by (simp add: unat_gt_0)
  then show "unat (u div 16) < unat u" by (simp add: unat_div)
qed

declare hex_loop.simps [simp del]

definition longlong_to_hexstring :: "bytes \<Rightarrow> u64 \<Rightarrow> nat \<Rightarrow> u32 \<Rightarrow> (bytes \<times> nat) option" where
  "longlong_to_hexstring buf u len flag =
     (let table = (if has flag CAPSFLAG then hextable_caps else hextable)
      in do { (buf, pos) \<leftarrow> put_rev 0 buf len; hex_loop table buf pos u })"

section \<open>Doubles to text\<close>

text \<open>A double is its 64-bit pattern. \<open>OUT\<close> and \<open>OUTSTR\<close> write forwards.\<close>

definition OUTSTR :: "bytes \<Rightarrow> bytes \<Rightarrow> nat \<Rightarrow> (bytes \<times> nat) option" where
  "OUTSTR str buf pos = do { buf \<leftarrow> wrn pos str buf; Some (buf, pos + length str) }"

fun exp_loop :: "bytes \<Rightarrow> nat \<Rightarrow> nat \<Rightarrow> nat \<Rightarrow> bytes option" where
  "exp_loop buf base i exponent =
     (if i = 0 then None else do {
        let digit = exponent mod 10;
        buf \<leftarrow> wr8 (base + i - 1) (of_nat digit + 48) buf;
        if exponent div 10 \<noteq> 0 then exp_loop buf base (i - 1) (exponent div 10) else Some buf })"

declare exp_loop.simps [simp del]

definition exponent_to_string :: "bytes \<Rightarrow> nat \<Rightarrow> int \<Rightarrow> (bytes \<times> nat) option" where
  "exponent_to_string buf base exponent =
     do { buf \<leftarrow> wr8 base (if exponent < 0 then chr8 CHR ''-'' else chr8 CHR ''+'') buf;
          let e = nat \<bar>exponent\<bar>;
          let pos = 1 + (if e \<ge> 1000 then 4 else if e \<ge> 100 then 3 else if e \<ge> 10 then 2 else 1);
          buf \<leftarrow> exp_loop buf base pos e;
          Some (buf, pos) }"

text \<open>
  The fraction of \<open>%f\<close> is computed in double arithmetic, \<open>(d - u) * 1000000 + .5\<close>. With
  \<open>d = m / 2 ^ k\<close> every intermediate value is a natural number over a power of two;
  \<open>rnd53\<close> is the rounding of such a value to 53 significant bits, to nearest and ties to even.
\<close>

fun rnd_shift :: "nat \<Rightarrow> nat" where
  "rnd_shift n = (if n < 2 ^ 53 then 0 else Suc (rnd_shift (n div 2)))"

declare rnd_shift.simps [simp del]

definition rnd53 :: "nat \<Rightarrow> nat" where
  "rnd53 n = (let s = rnd_shift n; q = n div 2 ^ s; r = n mod 2 ^ s; h = 2 ^ s div 2 in
     if s = 0 then n
     else if r < h \<or> (r = h \<and> even q) then q * 2 ^ s else (q + 1) * 2 ^ s)"

definition double_frac :: "nat \<Rightarrow> nat \<Rightarrow> nat \<Rightarrow> u32" where
  "double_frac m k u =
     (let x = m - u * 2 ^ k; y = rnd53 (x * 1000000); z = rnd53 (2 * y + 2 ^ k)
      in of_nat (z div 2 ^ (k + 1)))"

definition OUTREV :: "u8 \<Rightarrow> bytes \<Rightarrow> nat \<Rightarrow> (bytes \<Rightarrow> nat \<Rightarrow> (bytes \<times> nat) option) \<Rightarrow> (bytes \<times> nat) option" where
  "OUTREV c buf pos k =
     (if pos = 0 then Some (buf, pos) else do { buf \<leftarrow> wr8 (pos - 1) c buf; k buf (pos - 1) })"

fun OUTREVS :: "nat \<Rightarrow> u8 \<Rightarrow> bytes \<Rightarrow> nat \<Rightarrow> (bytes \<Rightarrow> nat \<Rightarrow> (bytes \<times> nat) option) \<Rightarrow> (bytes \<times> nat) option" where
  "OUTREVS 0 c buf pos k = k buf pos"
| "OUTREVS (Suc n) c buf pos k = OUTREV c buf pos (\<lambda>buf pos. OUTREVS n c buf pos k)"

function frac_loop :: "bytes \<Rightarrow> nat \<Rightarrow> u32 \<Rightarrow> bytes option" where
  "frac_loop buf i frac =
     (if frac \<noteq> 0 then do {
        let digit = frac mod 10;
        (buf, i) \<leftarrow> put_rev (ucast digit + 48) buf i;
        frac_loop buf i (frac div 10) }
      else Some buf)"
  by pat_completeness auto
termination
proof (relation "measure (\<lambda>(buf, i, frac). unat frac)", simp, clarsimp)
  fix n :: u32
  assume "n \<noteq> 0"
  then have "0 < unat n" by (simp add: unat_gt_0)
  then show "unat (n div 10) < unat n" by (simp add: unat_div)
qed

declare frac_loop.simps [simp del]

definition dbl_exponent :: "u64 \<Rightarrow> u32" where
  "dbl_exponent d = ucast (drop_bit 52 d) AND 0x7ff"

definition dbl_fraction :: "u64 \<Rightarrow> u64" where
  "dbl_fraction d = d AND (push_bit 52 1 - 1)"

definition dbl_neg :: "u64 \<Rightarrow> bool" where
  "dbl_neg d = (d AND push_bit 63 1 \<noteq> 0)"

definition double_to_string :: "bytes \<Rightarrow> nat \<Rightarrow> u64 \<Rightarrow> u32 \<Rightarrow> (bytes \<times> nat) option" where
  "double_to_string buf len d flag =
     (let exponent = dbl_exponent d; fraction = dbl_fraction d; neg = dbl_neg d;
          caps = has flag CAPSFLAG;
          fin = (\<lambda>r. do { (buf, pos) \<leftarrow> r; buf \<leftarrow> wr8 pos 0 buf; Some (buf, 0 :: nat) })
      in do {
        (buf, pos) \<leftarrow> (if neg then OUTSTR (asc ''-'') buf 0 else Some (buf, 0));
        if exponent = 0x7ff then
          (if fraction = 0 then fin (OUTSTR (if caps then asc ''INF'' else asc ''inf'') buf pos)
           else fin (OUTSTR (if caps then asc ''NAN'' else asc ''nan'') buf pos))
        else if exponent = 0 then
          (if fraction = 0 then fin (OUTSTR (asc ''0.000000'') buf pos)
           else fin (OUTSTR (if caps then asc ''DEN'' else asc ''den'') buf pos))
        else
          let es = int (unat exponent) - 1023 in
          if es < -52 \<or> es > 52 then fin (OUTSTR (asc ''<range>'') buf pos)
          else
            OUTREV 0 buf len (\<lambda>buf pos.
            OUTREVS 7 (chr8 CHR ''0'') buf pos (\<lambda>buf pos.
              let decimal_spot = pos;
                  m = fraction OR push_bit 52 1;
                  u = (if es \<ge> 0 then drop_bit (nat (52 - es)) m else 0);
                  rest = (\<lambda>buf pos. do {
                    buf \<leftarrow> wr8 decimal_spot (chr8 CHR ''.'') buf;
                    let frac = double_frac (unat m) (nat (52 - es)) (unat u);
                    buf \<leftarrow> frac_loop buf (decimal_spot + 6 + 1) frac;
                    if neg then OUTREV (chr8 CHR ''-'') buf pos (\<lambda>buf pos. Some (buf, pos))
                    else Some (buf, pos) })
              in if es \<ge> 0
                 then do { (buf, pos, _) \<leftarrow> longlong_to_string buf u (pos + 1) flag; rest buf pos }
                 else OUTREV (chr8 CHR ''0'') buf pos rest)) })"

text \<open>The nibble loop of \<open>%a\<close>: \<open>i\<close> runs over 48, 44, \<dots>, 0.\<close>

fun nibble_loop :: "bytes \<Rightarrow> u64 \<Rightarrow> nat list \<Rightarrow> nat \<Rightarrow> bool \<Rightarrow> bytes \<Rightarrow> nat \<Rightarrow> (bytes \<times> nat) option" where
  "nibble_loop table fraction [] zero_count output_dot buf pos = Some (buf, pos)"
| "nibble_loop table fraction (i # is) zero_count output_dot buf pos =
     (let digit = drop_bit i fraction AND 0xf in
      if digit = 0 then nibble_loop table fraction is (zero_count + 1) output_dot buf pos
      else do {
        (buf, pos) \<leftarrow> (if output_dot then Some (buf, pos) else OUTSTR (asc ''.'') buf pos);
        (buf, pos) \<leftarrow> OUTSTR (replicate zero_count (chr8 CHR ''0'')) buf pos;
        c \<leftarrow> rd8 (unat digit) table;
        (buf, pos) \<leftarrow> OUTSTR [c] buf pos;
        nibble_loop table fraction is 0 True buf pos })"

definition double_to_hexstring :: "bytes \<Rightarrow> nat \<Rightarrow> u64 \<Rightarrow> u32 \<Rightarrow> (bytes \<times> nat) option" where
  "double_to_hexstring buf len d flag =
     (let exponent = dbl_exponent d; fraction = dbl_fraction d; neg = dbl_neg d;
          caps = has flag CAPSFLAG
      in do {
        (buf, pos) \<leftarrow> (if neg then OUTSTR (asc ''-'') buf 0 else Some (buf, 0));
        (buf, pos) \<leftarrow>
          (if exponent = 0x7ff then
             (if fraction = 0 then OUTSTR (if caps then asc ''INF'' else asc ''inf'') buf pos
              else OUTSTR (if caps then asc ''NAN'' else asc ''nan'') buf pos)
           else if exponent = 0 then
             (if fraction = 0 then OUTSTR (if caps then asc ''0X0P+0'' else asc ''0x0p+0'') buf pos
              else OUTSTR (if caps then asc ''DEN'' else asc ''den'') buf pos)
           else do {
             let es = int (unat exponent) - 1023;
             (buf, pos) \<leftarrow> OUTSTR (if caps then asc ''0X1'' else asc ''0x1'') buf pos;
             (buf, pos) \<leftarrow> nibble_loop (if caps then hextable_caps else hextable) fraction
               [48, 44, 40, 36, 32, 28, 24, 20, 16, 12, 8, 4, 0] 0 False buf pos;
             (buf, pos) \<leftarrow> OUTSTR [if caps then chr8 CHR ''P'' else chr8 CHR ''p''] buf pos;
             (buf, n) \<leftarrow> exponent_to_string buf pos es;
             Some (buf, pos + n) });
        buf \<leftarrow> wr8 pos 0 buf;
        Some (buf, 0) })"

section \<open>The format engine\<close>

text \<open>
  The engine writes through an output function, which gets the bytes to write and the
  caller's state and returns the number of characters or a negative error. Its own state is
  the output function's state, the arguments not yet consumed, the count of characters written
  and the stores that \<open>%n\<close> made (address, width in bytes, value). An argument of the wrong
  kind is undefined behaviour.
\<close>

type_synonym 's outfn = "bytes \<Rightarrow> 's \<Rightarrow> (int \<times> 's) option"

record 's pstate =
  ps_out :: 's
  ps_args :: "parg list"
  ps_written :: u64
  ps_stores :: "(u64 \<times> nat \<times> u64) list"

type_synonym 's presult = "(int \<times> 's pstate) option"

definition OUTPUT_STRING :: "'s outfn \<Rightarrow> bytes \<Rightarrow> 's pstate \<Rightarrow> (int \<Rightarrow> 's pstate \<Rightarrow> 's presult) \<Rightarrow> 's presult" where
  "OUTPUT_STRING out str ps k =
     do { (err, o') \<leftarrow> out str (ps_out ps);
          let ps = ps\<lparr>ps_out := o'\<rparr>;
          if err < 0 then Some (err, ps)
          else k err (ps\<lparr>ps_written := ps_written ps + word_of_int err\<rparr>) }"

abbreviation (input) OUTPUT_CHAR :: "'s outfn \<Rightarrow> u8 \<Rightarrow> 's pstate \<Rightarrow> ('s pstate \<Rightarrow> 's presult) \<Rightarrow> 's presult" where
  "OUTPUT_CHAR out c ps k \<equiv> OUTPUT_STRING out [c] ps (\<lambda>_. k)"

text \<open>\<open>for (; format_num > bound; format_num--) OUTPUT_CHAR(c)\<close>\<close>

fun pad :: "'s outfn \<Rightarrow> u8 \<Rightarrow> nat \<Rightarrow> nat \<Rightarrow> 's pstate \<Rightarrow> ('s pstate \<Rightarrow> 's presult) \<Rightarrow> 's presult" where
  "pad out c format_num bound ps k =
     (if format_num > bound
      then OUTPUT_CHAR out c ps (\<lambda>ps. pad out c (format_num - 1) bound ps k)
      else k ps)"

declare pad.simps [simp del]

text \<open>The code at label \<open>_output_string\<close>.\<close>

definition output_string :: "'s outfn \<Rightarrow> bytes \<Rightarrow> u32 \<Rightarrow> u32 \<Rightarrow> u8 \<Rightarrow> 's pstate \<Rightarrow>
    ('s pstate \<Rightarrow> 's presult) \<Rightarrow> 's presult" where
  "output_string out s flags format_num signchar ps k =
     do { string_len \<leftarrow> strlen s 0;
          str \<leftarrow> rdn 0 string_len s;
          if has flags LEFTFORMATFLAG then
            OUTPUT_STRING out str ps (\<lambda>err ps.
              pad out (chr8 CHR '' '') (unat format_num) (unat (word_of_int err :: u32)) ps k)
          else
            let format_num = (if signchar \<noteq> 0 \<and> format_num > 0 then format_num - 1 else format_num);
                lz = has flags LEADZEROFLAG;
                sign = (\<lambda>b ps k. if b \<and> signchar \<noteq> 0 then OUTPUT_CHAR out signchar ps k else k ps)
            in sign lz ps (\<lambda>ps.
               pad out (if lz then chr8 CHR ''0'' else chr8 CHR '' '') (unat format_num) string_len ps (\<lambda>ps.
               sign (\<not> lz) ps (\<lambda>ps.
               OUTPUT_STRING out str ps (\<lambda>_. k)))) }"

fun va_int :: "'s pstate \<Rightarrow> (u64 \<times> 's pstate) option" where
  "va_int ps = (case ps_args ps of PInt w # r \<Rightarrow> Some (w, ps\<lparr>ps_args := r\<rparr>) | _ \<Rightarrow> None)"

fun va_str :: "'s pstate \<Rightarrow> (bytes option \<times> 's pstate) option" where
  "va_str ps = (case ps_args ps of PStr w # r \<Rightarrow> Some (w, ps\<lparr>ps_args := r\<rparr>) | _ \<Rightarrow> None)"

fun va_double :: "'s pstate \<Rightarrow> (u64 \<times> 's pstate) option" where
  "va_double ps = (case ps_args ps of PDouble w # r \<Rightarrow> Some (w, ps\<lparr>ps_args := r\<rparr>) | _ \<Rightarrow> None)"

text \<open>The argument of \<open>%d\<close> and \<open>%i\<close>, and of \<open>%u\<close> and \<open>%x\<close>, by length modifier; here
  \<open>ssize_t\<close> is \<open>int\<close> (\<^verbatim>\<open>include/stdint.h\<close>).\<close>

definition arg_signed :: "u32 \<Rightarrow> u64 \<Rightarrow> u64" where
  "arg_signed flags w =
     (if has flags LONGLONGFLAG then w
      else if has flags LONGFLAG then w
      else if has flags HALFHALFFLAG then scast (ucast w :: u8)
      else if has flags HALFFLAG then scast (ucast w :: u16)
      else if has flags SIZETFLAG then scast (ucast w :: u32)
      else if has flags INTMAXFLAG then w
      else if has flags PTRDIFFFLAG then w
      else scast (ucast w :: u32))"

definition arg_unsigned :: "u32 \<Rightarrow> u64 \<Rightarrow> u64" where
  "arg_unsigned flags w =
     (if has flags LONGLONGFLAG then w
      else if has flags LONGFLAG then w
      else if has flags HALFHALFFLAG then ucast (ucast w :: u8)
      else if has flags HALFFLAG then ucast (ucast w :: u16)
      else if has flags SIZETFLAG then w
      else if has flags INTMAXFLAG then w
      else if has flags PTRDIFFFLAG then w
      else ucast (ucast w :: u32))"

definition store_width :: "u32 \<Rightarrow> nat" where
  "store_width flags =
     (if has flags LONGLONGFLAG then 8 else if has flags LONGFLAG then 8
      else if has flags HALFHALFFLAG then 1 else if has flags HALFFLAG then 2
      else if has flags SIZETFLAG then 8 else 4)"

definition NUM_BUFFER :: bytes where "NUM_BUFFER = replicate 32 0"

text \<open>The conversions that end a format: what happens after the format character \<open>c\<close>.\<close>

definition conv_hex :: "'s outfn \<Rightarrow> u32 \<Rightarrow> u32 \<Rightarrow> 's pstate \<Rightarrow> ('s pstate \<Rightarrow> 's presult) \<Rightarrow> 's presult" where
  "conv_hex out flags format_num ps k =
     do { (w, ps) \<leftarrow> va_int ps;
          let n = arg_unsigned flags w;
          (buf, pos) \<leftarrow> longlong_to_hexstring NUM_BUFFER n 32 flags;
          if has flags ALTFLAG then
            OUTPUT_CHAR out (chr8 CHR ''0'') ps (\<lambda>ps.
            OUTPUT_CHAR out (if has flags CAPSFLAG then chr8 CHR ''X'' else chr8 CHR ''x'') ps (\<lambda>ps.
            output_string out (drop pos buf) flags format_num 0 ps k))
          else output_string out (drop pos buf) flags format_num 0 ps k }"

definition conv :: "'s outfn \<Rightarrow> u8 \<Rightarrow> u32 \<Rightarrow> u32 \<Rightarrow> 's pstate \<Rightarrow> ('s pstate \<Rightarrow> 's presult) \<Rightarrow> 's presult" where
  "conv out c flags format_num ps k =
     (if c = chr8 CHR ''%'' then OUTPUT_CHAR out (chr8 CHR ''%'') ps k
      else if c = chr8 CHR ''c'' then
        do { (w, ps) \<leftarrow> va_int ps; OUTPUT_CHAR out (ucast w) ps k }
      else if c = chr8 CHR ''s'' then
        do { (p, ps) \<leftarrow> va_str ps;
             let s = (case p of None \<Rightarrow> asc ''<null>'' @ [0] | Some s \<Rightarrow> s);
             output_string out s (flags AND NOT LEADZEROFLAG) format_num 0 ps k }
      else if c = chr8 CHR ''i'' \<or> c = chr8 CHR ''d'' then
        do { (w, ps) \<leftarrow> va_int ps;
             let n = arg_signed flags w;
             let flags = flags OR SIGNEDFLAG;
             (buf, pos, signchar) \<leftarrow> longlong_to_string NUM_BUFFER n 32 flags;
             output_string out (drop pos buf) flags format_num signchar ps k }
      else if c = chr8 CHR ''u'' then
        do { (w, ps) \<leftarrow> va_int ps;
             let n = arg_unsigned flags w;
             (buf, pos, signchar) \<leftarrow> longlong_to_string NUM_BUFFER n 32 flags;
             output_string out (drop pos buf) flags format_num signchar ps k }
      else if c = chr8 CHR ''p'' then conv_hex out (flags OR (LONGFLAG OR ALTFLAG)) format_num ps k
      else if c = chr8 CHR ''X'' then conv_hex out (flags OR CAPSFLAG) format_num ps k
      else if c = chr8 CHR ''x'' then conv_hex out flags format_num ps k
      else if c = chr8 CHR ''n'' then
        do { (w, ps) \<leftarrow> va_int ps;
             k (ps\<lparr>ps_stores := ps_stores ps @ [(w, store_width flags, ps_written ps)]\<rparr>) }
      else if c = chr8 CHR ''F'' \<or> c = chr8 CHR ''f'' then
        do { (d, ps) \<leftarrow> va_double ps;
             let flags = (if c = chr8 CHR ''F'' then flags OR CAPSFLAG else flags);
             (buf, pos) \<leftarrow> double_to_string NUM_BUFFER 32 d flags;
             output_string out (drop pos buf) flags format_num 0 ps k }
      else if c = chr8 CHR ''A'' \<or> c = chr8 CHR ''a'' then
        do { (d, ps) \<leftarrow> va_double ps;
             let flags = (if c = chr8 CHR ''A'' then flags OR CAPSFLAG else flags);
             (buf, pos) \<leftarrow> double_to_hexstring NUM_BUFFER 32 d flags;
             output_string out (drop pos buf) flags format_num 0 ps k }
      else OUTPUT_CHAR out (chr8 CHR ''%'') ps (\<lambda>ps. OUTPUT_CHAR out c ps k))"

text \<open>The characters that modify the format and go on to the next one: the new flags and the
  new field width, or \<open>None\<close> if \<open>c\<close> is not one of them.\<close>

definition modifier :: "u8 \<Rightarrow> u32 \<Rightarrow> u32 \<Rightarrow> (u32 \<times> u32) option" where
  "modifier c flags format_num =
     (if chr8 CHR ''0'' \<le> c \<and> c \<le> chr8 CHR ''9'' then
        Some (if c = chr8 CHR ''0'' \<and> format_num = 0 then flags OR LEADZEROFLAG else flags,
              format_num * 10 + ucast (c - chr8 CHR ''0''))
      else if c = chr8 CHR ''.'' then Some (flags, format_num)
      else if c = chr8 CHR ''-'' then Some (flags OR LEFTFORMATFLAG, format_num)
      else if c = chr8 CHR ''+'' then Some (flags OR SHOWSIGNFLAG, format_num)
      else if c = chr8 CHR '' '' then Some (flags OR BLANKPOSFLAG, format_num)
      else if c = chr8 CHR ''#'' then Some (flags OR ALTFLAG, format_num)
      else if c = chr8 CHR ''l'' then
        Some ((if has flags LONGFLAG then flags OR LONGLONGFLAG else flags) OR LONGFLAG, format_num)
      else if c = chr8 CHR ''h'' then
        Some ((if has flags HALFFLAG then flags OR HALFHALFFLAG else flags) OR HALFFLAG, format_num)
      else if c = chr8 CHR ''z'' then Some (flags OR SIZETFLAG, format_num)
      else if c = chr8 CHR ''j'' then Some (flags OR INTMAXFLAG, format_num)
      else if c = chr8 CHR ''t'' then Some (flags OR PTRDIFFFLAG, format_num)
      else None)"

text \<open>The characters before the next \<open>%\<close> or the end of the format, the character that
  stopped the scan, and what follows it.\<close>

fun scan_lit :: "bytes \<Rightarrow> (bytes \<times> u8 \<times> bytes) option" where
  "scan_lit [] = None"
| "scan_lit (c # cs) =
     (if c = 0 \<or> c = chr8 CHR ''%'' then Some ([], c, cs)
      else do { (lit, c', rest) \<leftarrow> scan_lit cs; Some (c # lit, c', rest) })"

lemma scan_lit_shorter: "scan_lit fmt = Some (lit, c, rest) \<Longrightarrow> length rest < length fmt"
  by (induction fmt arbitrary: lit c rest)
     (auto simp: Option.bind_eq_Some_conv intro: less_SucI split: if_splits)

definition engine_exit :: "'s pstate \<Rightarrow> 's presult" where
  "engine_exit ps = Some (sint (ucast (ps_written ps) :: u32), ps)"

text \<open>\<open>engine\<close> is one round of the \<open>for (;;)\<close> loop, \<open>next_format\<close> the code at that label.\<close>

function engine :: "'s outfn \<Rightarrow> bytes \<Rightarrow> 's pstate \<Rightarrow> 's presult"
  and next_format :: "'s outfn \<Rightarrow> bytes \<Rightarrow> u32 \<Rightarrow> u32 \<Rightarrow> 's pstate \<Rightarrow> 's presult" where
  "engine out fmt ps =
     (case scan_lit fmt of None \<Rightarrow> None
      | Some (lit, c, rest) \<Rightarrow>
          OUTPUT_STRING out lit ps (\<lambda>_ ps.
            if c = 0 then engine_exit ps else next_format out rest 0 0 ps))"
| "next_format out [] flags format_num ps = None"
| "next_format out (c # rest) flags format_num ps =
     (if c = 0 then engine_exit ps
      else case modifier c flags format_num of
        Some (flags, format_num) \<Rightarrow> next_format out rest flags format_num ps
      | None \<Rightarrow> conv out c flags format_num ps (\<lambda>ps. engine out rest ps))"
  by pat_completeness auto
termination
  by (relation "measure (\<lambda>x. case x of Inl (out, fmt, ps) \<Rightarrow> length fmt
                                     | Inr (out, fmt, flags, num, ps) \<Rightarrow> length fmt)")
     (auto dest: scan_lit_shorter)

declare engine.simps [simp del]

definition printf_engine :: "'s outfn \<Rightarrow> 's \<Rightarrow> bytes \<Rightarrow> parg list \<Rightarrow> 's presult" where
  "printf_engine out state fmt args =
     engine out fmt \<lparr>ps_out = state, ps_args = args, ps_written = 0, ps_stores = []\<rparr>"

section \<open>Printing into a buffer\<close>

text \<open>A \<open>size_t\<close> count returned as \<open>int\<close>.\<close>

definition c_int :: "nat \<Rightarrow> int" where
  "c_int n = sint (of_nat n :: u32)"

text \<open>\<open>struct _output_args\<close>; the string starts at offset \<open>oa_base\<close> of its object.\<close>

record output_args =
  outstr :: bytes
  oa_base :: nat
  oa_len :: nat
  oa_pos :: nat

fun vsnprintf_loop :: "bytes \<Rightarrow> output_args \<Rightarrow> output_args option" where
  "vsnprintf_loop [] a = Some a"
| "vsnprintf_loop (c # cs) a =
     (if oa_pos a < oa_len a
      then do { d \<leftarrow> wr8 (oa_base a + oa_pos a) c (outstr a);
                vsnprintf_loop cs (a\<lparr>outstr := d, oa_pos := oa_pos a + 1\<rparr>) }
      else vsnprintf_loop cs a)"

definition vsnprintf_output :: "output_args outfn" where
  "vsnprintf_output str a = do { a \<leftarrow> vsnprintf_loop str a; Some (c_int (length str), a) }"

type_synonym sprintf_result = "(int \<times> bytes \<times> (u64 \<times> nat \<times> u64) list) option"

definition vsnprintf :: "bytes \<Rightarrow> nat \<Rightarrow> nat \<Rightarrow> bytes \<Rightarrow> parg list \<Rightarrow> sprintf_result" where
  "vsnprintf str base len fmt args =
     do { (wlen, ps) \<leftarrow> printf_engine vsnprintf_output
            \<lparr>outstr = str, oa_base = base, oa_len = len, oa_pos = 0\<rparr> fmt args;
          let a = ps_out ps;
          str \<leftarrow> (if oa_pos a \<ge> len
                  then (if base + len = 0 then None else wr8 (base + len - 1) 0 (outstr a))
                  else if wlen < 0 then None else wr8 (base + nat wlen) 0 (outstr a));
          Some (wlen, str, ps_stores ps) }"

abbreviation (input) INT_MAX :: nat where "INT_MAX \<equiv> 2147483647"

definition vsprintf :: "bytes \<Rightarrow> nat \<Rightarrow> bytes \<Rightarrow> parg list \<Rightarrow> sprintf_result" where
  "vsprintf str base fmt args = vsnprintf str base INT_MAX fmt args"

definition snprintf :: "bytes \<Rightarrow> nat \<Rightarrow> nat \<Rightarrow> string \<Rightarrow> parg list \<Rightarrow> sprintf_result" where
  "snprintf str base len fmt args = vsnprintf str base len (asc fmt @ [0]) args"

definition sprintf :: "bytes \<Rightarrow> nat \<Rightarrow> string \<Rightarrow> parg list \<Rightarrow> sprintf_result" where
  "sprintf str base fmt args = vsprintf str base (asc fmt @ [0]) args"

end
