(* ===== verification/Ip6toa.thy ===== *)
theory Ip6toa
  imports Printf
begin

unbundle bit_operations_syntax

text \<open>
  \<open>ip6toa\<close> of \<^verbatim>\<open>src/inet6.c\<close>: the text of an IPv6 address, written into a buffer of
  at least \<open>IP6TOAMAX\<close> bytes. The address is the first 16 bytes of the object \<open>a\<close>.
\<close>

abbreviation (input) IP6TOAMAX :: nat where "IP6TOAMAX \<equiv> 40"

text \<open>\<open>n = (x[0] << 8) | x[1]\<close>\<close>

definition rd_group :: "nat \<Rightarrow> bytes \<Rightarrow> u16 option" where
  "rd_group x a = do { h \<leftarrow> rd8 x a; l \<leftarrow> rd8 (x + 1) a; Some (push_bit 8 (ucast h) OR ucast l) }"

text \<open>\<open>while ((n == 0) && (x < end)) { x += 2; n = ...; }\<close>\<close>

function skip_zeros :: "bytes \<Rightarrow> nat \<Rightarrow> u16 \<Rightarrow> (nat \<times> u16) option" where
  "skip_zeros a x n =
     (if n = 0 \<and> x < 16
      then do { n \<leftarrow> rd_group (x + 2) a; skip_zeros a (x + 2) n }
      else Some (x, n))"
  by pat_completeness auto
termination
  by (relation "measure (\<lambda>(a, x, n). 16 - x)") auto

text \<open>\<open>while (x < end) { out += sprintf(out, ":%x", n); x += 2; n = ...; }\<close>\<close>

function tail_loop :: "bytes \<Rightarrow> nat \<Rightarrow> u16 \<Rightarrow> bytes \<Rightarrow> nat \<Rightarrow> bytes option" where
  "tail_loop a x n buf out =
     (if x < 16
      then do { (r, buf, _) \<leftarrow> sprintf buf out '':%x'' [PInt (ucast n)];
                n \<leftarrow> rd_group (x + 2) a;
                tail_loop a (x + 2) n buf (out + nat r) }
      else Some buf)"
  by pat_completeness auto
termination
  by (relation "measure (\<lambda>(a, x, n, buf, out). 16 - x)") auto

text \<open>The loop over the groups before the first zero group, and what follows it: either the
  last group, or the code at label \<open>middle_zeros\<close>.\<close>

function head_loop :: "bytes \<Rightarrow> nat \<Rightarrow> u16 \<Rightarrow> bytes \<Rightarrow> nat \<Rightarrow> bytes option" where
  "head_loop a x n buf out =
     (if x < 14
      then do { (r, buf, _) \<leftarrow> sprintf buf out ''%x:'' [PInt (ucast n)];
                n \<leftarrow> rd_group (x + 2) a;
                if n = 0 then do {
                  (x, n) \<leftarrow> skip_zeros a (x + 2) n;
                  if x = 16 then do { (_, buf, _) \<leftarrow> sprintf buf (out + nat r) '':'' []; Some buf }
                  else tail_loop a x n buf (out + nat r) }
                else head_loop a (x + 2) n buf (out + nat r) }
      else do { (_, buf, _) \<leftarrow> sprintf buf out ''%x'' [PInt (ucast n)]; Some buf })"
  by pat_completeness auto
termination
  by (relation "measure (\<lambda>(a, x, n, buf, out). 16 - x)") auto

declare skip_zeros.simps [simp del] tail_loop.simps [simp del] head_loop.simps [simp del]

definition ip6toa :: "bytes \<Rightarrow> bytes \<Rightarrow> bytes option" where
  "ip6toa buf a =
     do { n \<leftarrow> rd_group 0 a;
          (x, n) \<leftarrow> skip_zeros a 0 n;
          if 16 - x < 16 then
            if x = 16 then do { (_, buf, _) \<leftarrow> sprintf buf 0 ''::'' []; Some buf }
            else do { (r, buf, _) \<leftarrow> sprintf buf 0 '':'' [];
                      tail_loop a x n buf (nat r) }
          else head_loop a x n buf 0 }"

end
