(* ===== verification/Inet6.thy ===== *)
theory Inet6
  imports Netifc Ip6toa
begin

unbundle bit_operations_syntax

text \<open>
  \<^verbatim>\<open>src/inet6.c\<close> and \<^verbatim>\<open>src/inet6.h\<close>: a minimal IPv6 stack (neighbour
  advertisement, echo, UDP) over the ethernet driver. Addresses are byte strings; a packet
  under construction is the contents of a transmit buffer (\<open>ip6_pkt\<close> and \<open>udp_pkt\<close>: the
  IPv6 header at offset 16, the payload at 56); a received frame is the receive buffer \<open>d\<close>
  (the IPv6 header at offset 14, the payload at 54) and the length the driver reported.

  \<open>udp6_recv\<close>, which the stack calls and its client implements, is a parameter here.
\<close>

section \<open>Constants and byte order\<close>

abbreviation (input) ETH_HDR_LEN :: nat where "ETH_HDR_LEN \<equiv> 14"
abbreviation (input) ETH_MTU :: nat where "ETH_MTU \<equiv> 1514"
abbreviation (input) IP6_ADDR_LEN :: nat where "IP6_ADDR_LEN \<equiv> 16"
abbreviation (input) IP6_HDR_LEN :: nat where "IP6_HDR_LEN \<equiv> 40"
abbreviation (input) UDP_HDR_LEN :: nat where "UDP_HDR_LEN \<equiv> 8"
abbreviation (input) ETH_IP6 :: u16 where "ETH_IP6 \<equiv> 0x86DD"
abbreviation (input) HDR_UDP :: u8 where "HDR_UDP \<equiv> 17"
abbreviation (input) HDR_ICMP6 :: u8 where "HDR_ICMP6 \<equiv> 58"
abbreviation (input) ICMP6_ECHO_REQUEST :: u8 where "ICMP6_ECHO_REQUEST \<equiv> 128"
abbreviation (input) ICMP6_ECHO_REPLY :: u8 where "ICMP6_ECHO_REPLY \<equiv> 129"
abbreviation (input) ICMP6_NDP_N_SOLICIT :: u8 where "ICMP6_NDP_N_SOLICIT \<equiv> 135"
abbreviation (input) ICMP6_NDP_N_ADVERTISE :: u8 where "ICMP6_NDP_N_ADVERTISE \<equiv> 136"
abbreviation (input) NDP_N_TGT_LL_ADDR :: u8 where "NDP_N_TGT_LL_ADDR \<equiv> 2"

definition swap16 :: "u16 \<Rightarrow> u16" where
  "swap16 n = drop_bit 8 n OR push_bit 8 n"

definition swap32 :: "u32 \<Rightarrow> u32" where
  "swap32 n = ((drop_bit 24 n OR (drop_bit 8 n AND 0xFF00)) OR push_bit 8 (n AND 0xFF00))
              OR push_bit 24 n"

section \<open>Addresses\<close>

definition ip6_ll_all_nodes :: bytes where
  "ip6_ll_all_nodes = [0xFF, 0x02, 0, 0, 0, 0, 0, 0, 0, 0, 0, 0, 0, 0, 0, 1]"

definition ip6_ll_all_routers :: bytes where
  "ip6_ll_all_routers = [0xFF, 0x02, 0, 0, 0, 0, 0, 0, 0, 0, 0, 0, 0, 0, 0, 2]"

definition ll6addr_from_mac :: "bytes \<Rightarrow> bytes \<Rightarrow> bytes option" where
  "ll6addr_from_mac ip mac =
     do { ip \<leftarrow> memset ip 0 0 IP6_ADDR_LEN;
          ip \<leftarrow> wr8 0 0xFE ip;
          ip \<leftarrow> wr8 1 0x80 ip;
          ip \<leftarrow> memset ip 2 0 6;
          m0 \<leftarrow> rd8 0 mac; ip \<leftarrow> wr8 8 (m0 XOR 2) ip;
          m1 \<leftarrow> rd8 1 mac; ip \<leftarrow> wr8 9 m1 ip;
          m2 \<leftarrow> rd8 2 mac; ip \<leftarrow> wr8 10 m2 ip;
          ip \<leftarrow> wr8 11 0xFF ip;
          ip \<leftarrow> wr8 12 0xFE ip;
          m3 \<leftarrow> rd8 3 mac; ip \<leftarrow> wr8 13 m3 ip;
          m4 \<leftarrow> rd8 4 mac; ip \<leftarrow> wr8 14 m4 ip;
          m5 \<leftarrow> rd8 5 mac; wr8 15 m5 ip }"

definition snmaddr_from_mac :: "bytes \<Rightarrow> bytes \<Rightarrow> bytes option" where
  "snmaddr_from_mac ip mac =
     do { ip \<leftarrow> wr8 0 0xFF ip;
          ip \<leftarrow> wr8 1 0x02 ip;
          ip \<leftarrow> memset ip 2 0 9;
          ip \<leftarrow> wr8 11 0x01 ip;
          ip \<leftarrow> wr8 12 0xFF ip;
          m3 \<leftarrow> rd8 3 mac; ip \<leftarrow> wr8 13 m3 ip;
          m4 \<leftarrow> rd8 4 mac; ip \<leftarrow> wr8 14 m4 ip;
          m5 \<leftarrow> rd8 5 mac; wr8 15 m5 ip }"

definition multicast_from_ip6 :: "bytes \<Rightarrow> bytes \<Rightarrow> bytes option" where
  "multicast_from_ip6 mac ip =
     do { mac \<leftarrow> wr8 0 0x33 mac;
          mac \<leftarrow> wr8 1 0x33 mac;
          i12 \<leftarrow> rd8 12 ip; mac \<leftarrow> wr8 2 i12 mac;
          i13 \<leftarrow> rd8 13 ip; mac \<leftarrow> wr8 3 i13 mac;
          i14 \<leftarrow> rd8 14 ip; mac \<leftarrow> wr8 4 i14 mac;
          i15 \<leftarrow> rd8 15 ip; wr8 5 i15 mac }"

section \<open>State of the stack\<close>

record 'f inet6 = "'f netifc" +
  ll_mac_addr :: bytes
  ll_ip6_addr :: bytes
  snm_mac_addr :: bytes
  snm_ip6_addr :: bytes
  rx_mac_addr :: bytes
  rx_ip6_addr :: bytes

text \<open>
  \<open>ip6toa\<close> may read two bytes past the address it is given; they are shown as zeros here,
  and do not change the text (theorem \<open>ip6toa_text\<close>). Local buffers are shown as
  zeros before they are filled.
\<close>

definition ip6_init :: "('f, 'x) net_fw_scheme \<Rightarrow> bytes \<Rightarrow> ('f, 'a) inet6_scheme \<Rightarrow>
    ('f, 'a) inet6_scheme option" where
  "ip6_init efi macaddr s =
     do { mac \<leftarrow> memcpy (ll_mac_addr s) 0 macaddr 0 6;
          ip \<leftarrow> ll6addr_from_mac (ll_ip6_addr s) mac;
          snm \<leftarrow> snmaddr_from_mac (snm_ip6_addr s) mac;
          snmmac \<leftarrow> multicast_from_ip6 (snm_mac_addr s) snm;
          let s = s\<lparr>ll_mac_addr := mac, ll_ip6_addr := ip, snm_ip6_addr := snm,
                    snm_mac_addr := snmmac\<rparr>;
          (_, s) \<leftarrow> eth_add_mcast_filter efi snmmac s;
          all \<leftarrow> multicast_from_ip6 (replicate 6 0) ip6_ll_all_nodes;
          (_, s) \<leftarrow> eth_add_mcast_filter efi all s;
          m \<leftarrow> rdn 0 6 mac;
          let s = printf ''macaddr: %02x:%02x:%02x:%02x:%02x:%02x\<newline>''
                    (map (\<lambda>b. PInt (ucast b)) m) s;
          tmp \<leftarrow> ip6toa (replicate IP6TOAMAX 0) (ip @ [0, 0]);
          let s = printf ''ip6addr: %s\<newline>'' [PStr (Some tmp)] s;
          tmp \<leftarrow> ip6toa tmp (snm @ [0, 0]);
          Some (printf ''snmaddr: %s\<newline>'' [PStr (Some tmp)] s) }"

definition resolve_ip6 :: "bytes \<Rightarrow> bytes \<Rightarrow> ('f, 'a) inet6_scheme \<Rightarrow> (int \<times> bytes) option" where
  "resolve_ip6 mac ip s =
     do { b \<leftarrow> rd8 0 ip;
          if b = 0xFF then do { mac \<leftarrow> multicast_from_ip6 mac ip; Some (0, mac) }
          else do {
            c \<leftarrow> memcmp ip 0 (rx_ip6_addr s) 0 IP6_ADDR_LEN;
            if c = 0 then do { mac \<leftarrow> memcpy mac 0 (rx_mac_addr s) 0 ETH_ADDR_LEN; Some (0, mac) }
            else Some (-1, mac) } }"

section \<open>Checksum\<close>

fun checksum_loop :: "bytes \<Rightarrow> nat \<Rightarrow> nat \<Rightarrow> u32 \<Rightarrow> u32 option" where
  "checksum_loop d off len sm =
     (if len > 1 then do { w \<leftarrow> rd16 off d; checksum_loop d (off + 2) (len - 2) (sm + ucast w) }
      else if len \<noteq> 0 then do { w \<leftarrow> rd16 off d; Some (sm + (ucast w AND 0xFF)) }
      else Some sm)"

declare checksum_loop.simps [simp del]

function checksum_fold :: "u32 \<Rightarrow> u32" where
  "checksum_fold sm =
     (if sm > 0xFFFF then checksum_fold ((sm AND 0xFFFF) + drop_bit 16 sm) else sm)"
  by pat_completeness auto
termination
proof (relation "measure unat", simp, clarsimp)
  fix sm :: u32
  assume "sm > 0xFFFF"
  then have gt: "65535 < unat sm" by (simp add: word_less_nat_alt)
  have lo: "unat (sm AND 0xFFFF) = unat sm mod 65536" by (rule unat_and_ffff)
  have hi: "unat (drop_bit 16 sm) = unat sm div 65536"
    by (simp add: drop_bit_eq_div unat_div)
  have "0 < unat sm div 65536" using gt by (simp add: div_greater_zero_iff)
  then have "unat sm mod 65536 + unat sm div 65536 < unat sm"
    using div_mult_mod_eq [of "unat sm" 65536] by linarith
  moreover have "unat ((sm AND 0xFFFF) + drop_bit 16 sm) \<le>
      unat (sm AND 0xFFFF) + unat (drop_bit 16 sm)"
    by (simp add: unat_word_ariths)
  ultimately show "unat ((sm AND 0xFFFF) + drop_bit 16 sm) < unat sm" by (simp add: lo hi)
qed

declare checksum_fold.simps [simp del]

definition checksum :: "bytes \<Rightarrow> nat \<Rightarrow> nat \<Rightarrow> u16 \<Rightarrow> u16 option" where
  "checksum d off len sm =
     do { sm \<leftarrow> checksum_loop d off len (ucast sm); Some (ucast (checksum_fold sm)) }"

text \<open>The checksum of a packet under construction, whose IPv6 header is at offset \<open>ip\<close>.\<close>

definition ip6_checksum :: "bytes \<Rightarrow> nat \<Rightarrow> u8 \<Rightarrow> nat \<Rightarrow> u16 option" where
  "ip6_checksum d ip type len =
     do { sm \<leftarrow> checksum d (ip + 4) 2 (swap16 (ucast type));
          sm \<leftarrow> checksum d (ip + 8) (32 + len) sm;
          Some (if sm \<noteq> 0xFFFF then NOT sm else sm) }"

section \<open>Sending\<close>

definition ip6_setup :: "bytes \<Rightarrow> bytes \<Rightarrow> nat \<Rightarrow> u8 \<Rightarrow> ('f, 'a) inet6_scheme \<Rightarrow> (int \<times> bytes) option" where
  "ip6_setup p daddr len type s =
     do { (r, dmac) \<leftarrow> resolve_ip6 (replicate 6 0) daddr s;
          if r \<noteq> 0 then Some (-1, p)
          else do {
            p \<leftarrow> memcpy p 2 dmac 0 ETH_ADDR_LEN;
            p \<leftarrow> memcpy p 8 (ll_mac_addr s) 0 ETH_ADDR_LEN;
            p \<leftarrow> wr8 14 (ucast (drop_bit 8 ETH_IP6) AND 0xFF) p;
            p \<leftarrow> wr8 15 (ucast (ETH_IP6 AND 0xFF)) p;
            p \<leftarrow> wr32 16 0x60 p;
            p \<leftarrow> wr16 20 (swap16 (of_nat len)) p;
            p \<leftarrow> wr8 22 type p;
            p \<leftarrow> wr8 23 255 p;
            p \<leftarrow> memcpy p 24 (ll_ip6_addr s) 0 IP6_ADDR_LEN;
            p \<leftarrow> memcpy p 40 daddr 0 IP6_ADDR_LEN;
            Some (0, p) } }"

abbreviation (input) UDP6_MAX_PAYLOAD :: nat where "UDP6_MAX_PAYLOAD \<equiv> 1452"
abbreviation (input) ICMP6_MAX_PAYLOAD :: nat where "ICMP6_MAX_PAYLOAD \<equiv> 1460"

definition udp6_fill :: "bytes \<Rightarrow> bytes \<Rightarrow> nat \<Rightarrow> nat \<Rightarrow> u16 \<Rightarrow> u16 \<Rightarrow> bytes option" where
  "udp6_fill p data off dlen dport sport =
     do { let len = dlen + UDP_HDR_LEN;
          p \<leftarrow> wr16 56 (swap16 sport) p;
          p \<leftarrow> wr16 58 (swap16 dport) p;
          p \<leftarrow> wr16 60 (swap16 (of_nat len)) p;
          p \<leftarrow> wr16 62 0 p;
          p \<leftarrow> memcpy p 64 data off dlen;
          c \<leftarrow> ip6_checksum p 16 HDR_UDP len;
          wr16 62 c p }"

definition udp6_send :: "('f, 'x) net_fw_scheme \<Rightarrow> bytes \<Rightarrow> nat \<Rightarrow> nat \<Rightarrow> bytes \<Rightarrow> u16 \<Rightarrow> u16 \<Rightarrow>
    ('f, 'a) inet6_scheme \<Rightarrow> (int \<times> ('f, 'a) inet6_scheme) option" where
  "udp6_send efi data off dlen daddr dport sport s =
     do { let len = dlen + UDP_HDR_LEN;
          (p, s) \<leftarrow> eth_get_buffer (ETH_MTU + 2) s;
          if p = NULL then Some (-1, s)
          else if dlen > UDP6_MAX_PAYLOAD then do { s \<leftarrow> eth_put_buffer p s; Some (-1, s) }
          else do {
            d \<leftarrow> buf_load p ETH_BUFFER_SIZE s;
            (r, d) \<leftarrow> ip6_setup d daddr len HDR_UDP s;
            if r \<noteq> 0 then do { s \<leftarrow> eth_put_buffer p s; Some (-1, s) }
            else do {
              d \<leftarrow> udp6_fill d data off dlen dport sport;
              s \<leftarrow> buf_store p d s;
              eth_send efi (p + 2) (ETH_HDR_LEN + IP6_HDR_LEN + len) s } } }"

definition icmp6_fill :: "bytes \<Rightarrow> bytes \<Rightarrow> nat \<Rightarrow> nat \<Rightarrow> bytes option" where
  "icmp6_fill p data off len =
     do { p \<leftarrow> memcpy p 56 data off len;
          c \<leftarrow> ip6_checksum p 16 HDR_ICMP6 len;
          wr16 58 c p }"

definition icmp6_send :: "('f, 'x) net_fw_scheme \<Rightarrow> bytes \<Rightarrow> nat \<Rightarrow> nat \<Rightarrow> bytes \<Rightarrow>
    ('f, 'a) inet6_scheme \<Rightarrow> (int \<times> ('f, 'a) inet6_scheme) option" where
  "icmp6_send efi data off len daddr s =
     do { (p, s) \<leftarrow> eth_get_buffer (ETH_MTU + 2) s;
          if p = NULL then Some (-1, s)
          else if len > ICMP6_MAX_PAYLOAD then do { s \<leftarrow> eth_put_buffer p s; Some (-1, s) }
          else do {
            d \<leftarrow> buf_load p ETH_BUFFER_SIZE s;
            (r, d) \<leftarrow> ip6_setup d daddr len HDR_ICMP6 s;
            if r \<noteq> 0 then do { s \<leftarrow> eth_put_buffer p s; Some (-1, s) }
            else do {
              d \<leftarrow> icmp6_fill d data off len;
              s \<leftarrow> buf_store p d s;
              eth_send efi (p + 2) (ETH_HDR_LEN + IP6_HDR_LEN + len) s } } }"

section \<open>Receiving\<close>

definition BAD :: "string \<Rightarrow> ('f, 'a) machine_scheme \<Rightarrow> ('f, 'a) machine_scheme option" where
  "BAD n s = Some (printf ''error: %s\<newline>'' [PStr (Some (asc n @ [0]))] s)"

text \<open>The client's \<open>udp6_recv\<close>: the receive buffer, the offset and length of the payload,
  destination address and port, source address and port.\<close>

type_synonym 's udp_client = "bytes \<Rightarrow> nat \<Rightarrow> nat \<Rightarrow> bytes \<Rightarrow> u16 \<Rightarrow> bytes \<Rightarrow> u16 \<Rightarrow> 's \<Rightarrow> 's option"

text \<open>\<open>_udp6_recv\<close>: the IPv6 header is at offset 14 of the receive buffer and the UDP header at 54.\<close>

definition udp6_input :: "('f, 'a) inet6_scheme udp_client \<Rightarrow> bytes \<Rightarrow> nat \<Rightarrow>
    ('f, 'a) inet6_scheme \<Rightarrow> ('f, 'a) inet6_scheme option" where
  "udp6_input udp6_recv d len s =
     (if len < UDP_HDR_LEN then BAD ''Bogus Header Len'' s
      else do {
        c \<leftarrow> rd16 60 d;
        if c = 0 then BAD ''Checksum Invalid'' s
        else do {
          d \<leftarrow> (if c = 0xFFFF then wr16 60 0 d else Some d);
          sm \<leftarrow> checksum d 18 2 (swap16 (ucast HDR_UDP));
          sm \<leftarrow> checksum d 22 (32 + len) sm;
          if sm \<noteq> 0xFFFF then BAD ''Checksum Incorrect'' s
          else do {
            l \<leftarrow> rd16 58 d;
            let n = unat (swap16 l);
            if n < UDP_HDR_LEN then BAD ''Bogus Header Len'' s
            else if n > len then BAD ''Packet Too Short'' s
            else do {
              dst \<leftarrow> rdn 38 16 d; dport \<leftarrow> rd16 56 d;
              src \<leftarrow> rdn 22 16 d; sport \<leftarrow> rd16 54 d;
              udp6_recv d (54 + UDP_HDR_LEN) (n - UDP_HDR_LEN)
                dst (swap16 dport) src (swap16 sport) s } } } })"

text \<open>The neighbour advertisement that answers a solicitation.\<close>

definition ndp_advert :: "('f, 'a) inet6_scheme \<Rightarrow> bytes option" where
  "ndp_advert s =
     do { let msg = replicate 32 0;
          msg \<leftarrow> wr8 0 ICMP6_NDP_N_ADVERTISE msg;
          msg \<leftarrow> wr8 1 0 msg;
          msg \<leftarrow> wr16 2 0 msg;
          msg \<leftarrow> wr32 4 0x60 msg;
          msg \<leftarrow> memcpy msg 8 (ll_ip6_addr s) 0 IP6_ADDR_LEN;
          msg \<leftarrow> wr8 24 NDP_N_TGT_LL_ADDR msg;
          msg \<leftarrow> wr8 25 1 msg;
          memcpy msg 26 (ll_mac_addr s) 0 ETH_ADDR_LEN }"

text \<open>What \<open>icmp6_recv\<close> does with a message whose checksum is right.\<close>

definition icmp6_handle :: "('f, 'x) net_fw_scheme \<Rightarrow> bytes \<Rightarrow> nat \<Rightarrow>
    ('f, 'a) inet6_scheme \<Rightarrow> ('f, 'a) inet6_scheme option" where
  "icmp6_handle efi d len s =
     do { t \<leftarrow> rd8 54 d;
          if t = ICMP6_NDP_N_SOLICIT then
            if len < 24 then BAD ''Bogus NDP Message'' s
            else do {
              code \<leftarrow> rd8 55 d;
              if code \<noteq> 0 then BAD ''Bogus NDP Code'' s
              else do {
                r \<leftarrow> memcmp d 62 (ll_ip6_addr s) 0 IP6_ADDR_LEN;
                if r \<noteq> 0 then BAD ''NDP Not For Me'' s
                else do {
                  msg \<leftarrow> ndp_advert s;
                  src \<leftarrow> rdn 22 16 d;
                  (_, s) \<leftarrow> icmp6_send efi msg 0 32 src s;
                  Some s } } }
          else if t = ICMP6_ECHO_REQUEST then do {
            d \<leftarrow> wr16 56 0 d;
            d \<leftarrow> wr8 54 ICMP6_ECHO_REPLY d;
            src \<leftarrow> rdn 22 16 d;
            (_, s) \<leftarrow> icmp6_send efi d 54 len src s;
            Some s }
          else BAD ''ICMP6 Unhandled'' s }"

definition icmp6_recv :: "('f, 'x) net_fw_scheme \<Rightarrow> bytes \<Rightarrow> nat \<Rightarrow>
    ('f, 'a) inet6_scheme \<Rightarrow> ('f, 'a) inet6_scheme option" where
  "icmp6_recv efi d len s =
     do { c \<leftarrow> rd16 56 d;
          if c = 0 then BAD ''Checksum Invalid'' s
          else do {
            d \<leftarrow> (if c = 0xFFFF then wr16 56 0 d else Some d);
            sm \<leftarrow> checksum d 18 2 (swap16 (ucast HDR_ICMP6));
            sm \<leftarrow> checksum d 22 (32 + len) sm;
            if sm \<noteq> 0xFFFF then BAD ''Checksum Incorrect'' s
            else icmp6_handle efi d len s } }"

definition eth_recv :: "('f, 'x) net_fw_scheme \<Rightarrow> ('f, 'a) inet6_scheme udp_client \<Rightarrow> bytes \<Rightarrow> nat \<Rightarrow>
    ('f, 'a) inet6_scheme \<Rightarrow> ('f, 'a) inet6_scheme option" where
  "eth_recv efi udp6_recv d len s =
     (if len < ETH_HDR_LEN + IP6_HDR_LEN then BAD ''Bogus Header Len'' s
      else do {
        t0 \<leftarrow> rd8 12 d;
        if t0 \<noteq> ucast (drop_bit 8 ETH_IP6) then Some s else do {
        t1 \<leftarrow> rd8 13 d;
        if t1 \<noteq> ucast (ETH_IP6 AND 0xFF) then Some s else do {
        let len = len - (ETH_HDR_LEN + IP6_HDR_LEN);
        v \<leftarrow> rd32 14 d;
        if v AND 0xF0 \<noteq> 0x60 then BAD ''Unknown IP6 Version'' s else do {
        l \<leftarrow> rd16 18 d;
        let n = unat (swap16 l);
        if n > len then BAD ''IP6 Length Mismatch'' s else do {
        let len = n;
        c1 \<leftarrow> memcmp (ll_ip6_addr s) 0 d 38 IP6_ADDR_LEN;
        c2 \<leftarrow> (if c1 \<noteq> 0 then memcmp (snm_ip6_addr s) 0 d 38 IP6_ADDR_LEN else Some 0);
        if c1 \<noteq> 0 \<and> c2 \<noteq> 0 then Some s else do {
        mac \<leftarrow> memcpy (rx_mac_addr s) 0 d 6 ETH_ADDR_LEN;
        ip \<leftarrow> memcpy (rx_ip6_addr s) 0 d 22 IP6_ADDR_LEN;
        let s = s\<lparr>rx_mac_addr := mac, rx_ip6_addr := ip\<rparr>;
        nh \<leftarrow> rd8 20 d;
        if nh = HDR_ICMP6 then icmp6_recv efi d len s
        else if nh = HDR_UDP then udp6_input udp6_recv d len s
        else BAD ''Unhandled IP6'' s } } } } } })"

end
