(* ===== verification/Checksum.thy ===== *)
theory Checksum
  imports Inet6
begin

unbundle bit_operations_syntax

text \<open>
  What the checksum of \<^verbatim>\<open>src/inet6.c\<close> computes: the one's complement sum of the
  16-bit words of a slice. A packet whose checksum field was filled in by the sender passes the
  receiver's test.
\<close>

section \<open>One's complement sums\<close>

fun wsum :: "bytes \<Rightarrow> nat" where
  "wsum [] = 0"
| "wsum [b] = unat b"
| "wsum (a # b # bs) = unat a + 256 * unat b + wsum bs"

definition oc16 :: "nat \<Rightarrow> nat" where
  "oc16 n = (if n = 0 then 0 else if n mod 65535 = 0 then 65535 else n mod 65535)"

lemma wsum_append: "even (length xs) \<Longrightarrow> wsum (xs @ ys) = wsum xs + wsum ys"
  by (induction xs rule: wsum.induct) auto

lemma wsum_le: "wsum xs \<le> 65535 * ((length xs + 1) div 2)"
proof (induction xs rule: wsum.induct)
  case (2 b)
  then show ?case using unat_u8_le [of b] by simp
next
  case (3 a b bs)
  then show ?case using unat_u8_le [of a] unat_u8_le [of b] by simp
qed simp

lemma oc16_le: "oc16 n \<le> 65535"
proof -
  have "n mod 65535 < 65535" by simp
  then show ?thesis by (auto simp: oc16_def)
qed

lemma oc16_mod: "oc16 n mod 65535 = n mod 65535"
  by (auto simp: oc16_def)

lemma oc16_zero [simp]: "oc16 n = 0 \<longleftrightarrow> n = 0"
  by (auto simp: oc16_def)

lemma oc16_small: "n \<le> 65535 \<Longrightarrow> oc16 n = n"
  by (cases "n = 65535") (auto simp: oc16_def)

lemma oc16_cong: "a mod 65535 = b mod 65535 \<Longrightarrow> (a = 0 \<longleftrightarrow> b = 0) \<Longrightarrow> oc16 a = oc16 b"
  by (simp add: oc16_def)

lemma oc16_add: "oc16 (oc16 a + b) = oc16 (a + b)"
proof (rule oc16_cong)
  show "(oc16 a + b) mod 65535 = (a + b) mod 65535"
    using oc16_mod [of a] by (metis mod_add_left_eq)
qed simp

lemma mod_add_cancel:
  fixes a b c m :: nat
  assumes "(a + b) mod m = (a + c) mod m"
  shows "b mod m = c mod m"
proof -
  have "int x mod int m = (int ((a + x) mod m) - int a) mod int m" for x
    by (simp add: of_nat_mod mod_diff_left_eq)
  then have "int b mod int m = int c mod int m" using assms by simp
  then show ?thesis by (metis of_nat_eq_iff of_nat_mod)
qed

text \<open>Adding the complement of a sum gives the all-ones word.\<close>

lemma oc16_complement: "oc16 (n + (65535 - oc16 n)) = 65535"
proof -
  have "oc16 (n + (65535 - oc16 n)) = oc16 (oc16 n + (65535 - oc16 n))"
    by (simp add: oc16_add)
  also have "oc16 n + (65535 - oc16 n) = 65535" using oc16_le [of n] by simp
  finally show ?thesis by (simp add: oc16_def)
qed

section \<open>The loops\<close>

lemma fold_step:
  fixes n :: nat
  assumes "n < 4294967296"
  shows "n mod 65536 + n div 65536 < 4294967296"
    and "oc16 (n mod 65536 + n div 65536) = oc16 n"
proof -
  have "n div 65536 \<le> 4294967296 div 65536" using assms by (intro div_le_mono) simp
  moreover have "n mod 65536 < 65536" by simp
  ultimately show "n mod 65536 + n div 65536 < 4294967296" by simp
  have n: "n = 65535 * (n div 65536) + (n mod 65536 + n div 65536)"
    using div_mult_mod_eq [of n 65536] by simp
  show "oc16 (n mod 65536 + n div 65536) = oc16 n"
  proof (rule oc16_cong)
    show "(n mod 65536 + n div 65536) mod 65535 = n mod 65535"
      by (subst (3) n) (simp only: mod_mult_self4)
    show "n mod 65536 + n div 65536 = 0 \<longleftrightarrow> n = 0" using n by auto
  qed
qed

lemma unat_checksum_fold: "unat (checksum_fold sm) = oc16 (unat sm)"
proof (induction sm rule: checksum_fold.induct)
  case (1 sm)
  show ?case
  proof (cases "sm > 0xFFFF")
    case True
    have "unat sm < 4294967296" using unat_bound [of sm] by simp
    note step = fold_step [OF this]
    have "unat ((sm AND 0xFFFF) + drop_bit 16 sm) = unat sm mod 65536 + unat sm div 65536"
      using step(1) by (simp add: unat_word_ariths unat_and_ffff drop_bit_eq_div unat_div)
    with 1 [OF True] True step(2) show ?thesis by (simp add: checksum_fold.simps [of sm])
  next
    case False
    then have "unat sm \<le> 65535" by (simp add: word_le_nat_alt not_less)
    with False show ?thesis by (simp add: checksum_fold.simps [of sm] oc16_small)
  qed
qed

lemma rd16_value:
  assumes "off + 2 \<le> length d"
  shows "\<exists>w. rd16 off d = Some w \<and> unat w = unat (d ! off) + 256 * unat (d ! (off + 1))"
proof -
  have "take 2 (drop off d) = [d ! off, d ! (off + 1)]"
    using assms by (simp add: numeral_2_eq_2 take_Suc_conv_app_nth)
  then have "unat (of_le (take 2 (drop off d)) :: u16) = unat (d ! off) + 256 * unat (d ! (off + 1))"
    by (subst unat_of_le) auto
  then show ?thesis using assms by (simp add: rd16_def rdn_def)
qed

lemma checksum_loop_sum:
  assumes "off + len + len mod 2 \<le> length d"
    and "unat sm + wsum (take len (drop off d)) < 2 ^ 32"
  shows "\<exists>r. checksum_loop d off len sm = Some r \<and> unat r = unat sm + wsum (take len (drop off d))"
  using assms
proof (induction d off len sm rule: checksum_loop.induct)
  case (1 d off len sm)
  consider (two) "len > 1" | (one) "len = 1" | (zero) "len = 0" by linarith
  then show ?case
  proof cases
    case two
    then have off: "off + 2 \<le> length d" using "1.prems"(1) by linarith
    obtain w where w: "rd16 off d = Some w" "unat w = unat (d ! off) + 256 * unat (d ! (off + 1))"
      using rd16_value [OF off] by blast
    have "drop off d = d ! off # d ! (off + 1) # drop (off + 2) d"
      using off by (simp add: Cons_nth_drop_Suc)
    then have slice: "take len (drop off d) = d ! off # d ! (off + 1) # take (len - 2) (drop (off + 2) d)"
      using two by (cases len; cases "len - 1") auto
    have ws: "wsum (take len (drop off d)) = unat w + wsum (take (len - 2) (drop (off + 2) d))"
      by (simp add: slice w(2))
    have uw: "unat (ucast w :: u32) = unat w"
      by (simp add: unat_ucast_up)
    have "unat sm + unat w < 2 ^ 32" using "1.prems"(2) ws by simp
    then have us: "unat (sm + ucast w) = unat sm + unat w" by (simp add: unat_word_ariths uw)
    have "\<exists>r. checksum_loop d (off + 2) (len - 2) (sm + ucast w) = Some r \<and>
        unat r = unat (sm + ucast w) + wsum (take (len - 2) (drop (off + 2) d))"
    proof (rule "1.IH" [OF two w(1)])
      show "off + 2 + (len - 2) + (len - 2) mod 2 \<le> length d"
        using "1.prems"(1) two by (simp add: le_mod_geq)
      show "unat (sm + ucast w) + wsum (take (len - 2) (drop (off + 2) d)) < 2 ^ 32"
        using "1.prems"(2) us ws by simp
    qed
    then show ?thesis using two w(1) us ws by (subst checksum_loop.simps) auto
  next
    case one
    then have off: "off + 2 \<le> length d" using "1.prems"(1) by simp
    obtain w where w: "rd16 off d = Some w" "unat w = unat (d ! off) + 256 * unat (d ! (off + 1))"
      using rd16_value [OF off] by blast
    have uw: "unat (ucast w :: u32) = unat w"
      by (simp add: unat_ucast_up)
    have "unat (ucast w AND 0xFF :: u32) = unat (d ! off)"
      using unat_u8_le [of "d ! off"] by (simp add: unat_and_ff uw w(2))
    moreover have "take len (drop off d) = [d ! off]"
      using one off by (simp add: take_Suc_conv_app_nth)
    ultimately show ?thesis
      using one w(1) "1.prems"(2) by (subst checksum_loop.simps) (simp add: unat_word_ariths)
  next
    case zero
    then show ?thesis by (subst checksum_loop.simps) simp
  qed
qed

text \<open>
  The contract of the checksum towards the send and receive paths: the sum of a slice that
  lies inside the object, added to a start value. \<open>limit\<close> is the slice length up to which the
  32-bit accumulator cannot overflow.
\<close>

locale slice_checksum =
  fixes cks :: "bytes \<Rightarrow> nat \<Rightarrow> nat \<Rightarrow> u16 \<Rightarrow> u16 option"
    and limit :: nat
  assumes cks_slice: "off + len + len mod 2 \<le> length d \<Longrightarrow> len \<le> limit \<Longrightarrow>
      cks d off len s = Some (of_nat (oc16 (unat s + wsum (take len (drop off d)))))"
    and limit_pos: "2 \<le> limit"
begin

text \<open>The sum of the pseudo header (length word at \<open>o1\<close>) and of the addresses and payload,
  as \<open>ip6_checksum\<close>, \<open>udp6_input\<close> and \<open>icmp6_recv\<close> all compute it.\<close>

lemma pseudo_header:
  assumes "o1 + 2 \<le> length d" and "o2 + len + len mod 2 \<le> length d" and "len \<le> limit"
  shows "(cks d o1 2 s \<bind> (\<lambda>s'. cks d o2 len s')) =
    Some (of_nat (oc16 (unat s + wsum (take 2 (drop o1 d)) + wsum (take len (drop o2 d)))))"
proof -
  have "unat (of_nat (oc16 n) :: u16) = oc16 n" for n
    using oc16_le [of n] by (simp add: unat_of_nat take_bit_nat_eq_self)
  then show ?thesis using assms limit_pos by (simp add: cks_slice oc16_add)
qed

end

interpretation inet: slice_checksum checksum 131068
proof
  fix d :: bytes and off len and s :: u16
  assume d: "off + len + len mod 2 \<le> length d" and len: "len \<le> 131068"
  have "wsum (take len (drop off d)) \<le> 65535 * ((length (take len (drop off d)) + 1) div 2)"
    by (rule wsum_le)
  also have "\<dots> \<le> 65535 * 65534" using len by (intro mult_le_mono2) simp
  finally have "unat (ucast s :: u32) + wsum (take len (drop off d)) < 2 ^ 32"
    using unat_bound [of s] by (simp add: unat_ucast_up)
  from checksum_loop_sum [OF d this] obtain r where
    r: "checksum_loop d off len (ucast s) = Some r"
       "unat r = unat (ucast s :: u32) + wsum (take len (drop off d))" by blast
  have "unat (checksum_fold r) = oc16 (unat s + wsum (take len (drop off d)))"
    by (simp add: unat_checksum_fold r(2) unat_ucast_up)
  then have "(ucast (checksum_fold r) :: u16) = of_nat (oc16 (unat s + wsum (take len (drop off d))))"
    by (metis of_nat_unat)
  then show "checksum d off len s = Some (of_nat (oc16 (unat s + wsum (take len (drop off d)))))"
    by (simp add: checksum_def r(1))
qed simp

end
