(* ===== verification/Frames.thy ===== *)
theory Frames
  imports Checksum
begin

unbundle bit_operations_syntax

text \<open>
  The packets of \<^verbatim>\<open>src/inet6.c\<close> as byte strings: what the send functions put into
  the buffer, and that the receive functions accept it.
\<close>

section \<open>Consecutive writes\<close>

lemma wrn_seq:
  assumes "o' = off + length b1"
  shows "(wrn off b1 d \<bind> (\<lambda>x. wrn o' b2 x \<bind> f)) = (wrn off (b1 @ b2) d \<bind> f)"
  using assms by (auto simp: wrn_def ac_simps)

lemma wrn_seq_last:
  assumes "o' = off + length b1"
  shows "(wrn off b1 d \<bind> (\<lambda>x. wrn o' b2 x)) = wrn off (b1 @ b2) d"
  using wrn_seq [OF assms, of d b2 Some] by simp

lemma memcpy_slice:
  assumes "soff + n \<le> length s" and "doff \<le> length d"
  shows "memcpy d doff s soff n = wrn doff (take n (drop soff s)) d"
  using assms by (simp add: memcpy_eq rdn_def)

lemma memcpy_whole:
  assumes "length s = n" and "0 < n"
  shows "memcpy d doff s 0 n = wrn doff s d"
proof (cases "doff \<le> length d")
  case True
  with assms show ?thesis by (simp add: memcpy_slice)
next
  case False
  with assms show ?thesis by (cases n) (auto simp: rd8_def wr8_def wrn_def)
qed

lemma wrn_memcpy:
  assumes "o' = off + length b1" and "soff + n \<le> length s"
  shows "(wrn off b1 d \<bind> (\<lambda>x. memcpy x o' s soff n \<bind> f)) =
    (wrn off (b1 @ take n (drop soff s)) d \<bind> f)"
proof (cases "wrn off b1 d")
  case None
  then show ?thesis using assms by (auto simp: wrn_def split: if_splits)
next
  case (Some x)
  then have "o' \<le> length x" using assms by (auto simp: wrn_def split: if_splits)
  then have "memcpy x o' s soff n = wrn o' (take n (drop soff s)) x"
    using assms(2) by (simp add: memcpy_slice)
  moreover have "(wrn off b1 d \<bind> (\<lambda>x. wrn o' (take n (drop soff s)) x \<bind> f)) =
      (wrn off (b1 @ take n (drop soff s)) d \<bind> f)"
    using assms(1) by (rule wrn_seq)
  ultimately show ?thesis using Some by simp
qed

lemma length_2_6_16:
  fixes xs :: "'a list"
  shows "length xs = 2 \<Longrightarrow> \<exists>a b. xs = [a, b]"
    and "length xs = 6 \<Longrightarrow> \<exists>a b c d e f. xs = [a, b, c, d, e, f]"
  by (auto simp: length_Suc_conv numeral_eq_Suc)

section \<open>Headers\<close>

definition be16 :: "u16 \<Rightarrow> bytes" where
  "be16 w = [ucast (drop_bit 8 w), ucast w]"

lemma length_be16 [simp]: "length (be16 w) = 2"
  by (simp add: be16_def)

lemma swap16_bytes: "ucast (swap16 w) = (ucast (drop_bit 8 w) :: u8)"
    "ucast (drop_bit 8 (swap16 w)) = (ucast w :: u8)"
  by (rule bit_word_eqI, auto simp: swap16_def bit_simps)+

lemma to_le_swap16: "to_le 2 (swap16 w) = be16 w"
  by (simp add: to_le_2 swap16_bytes be16_def)

lemma swap16_swap16 [simp]: "swap16 (swap16 w) = w"
proof (rule bit_word_eqI)
  fix n assume "n < LENGTH(16)"
  then show "bit (swap16 (swap16 w)) n = bit w n"
    by (cases "n < 8") (auto simp: swap16_def bit_simps)
qed

lemma of_le_be16: "of_le (be16 w) = swap16 w"
  using of_le_to_le [of 2 "swap16 w"] by (simp add: to_le_swap16)

section \<open>Addresses\<close>

lemma drop_12_of_16: "length ip = 16 \<Longrightarrow> drop 12 ip = [ip ! 12, ip ! 13, ip ! 14, ip ! 15]"
  by (rule nth_equalityI) (auto simp: less_Suc_eq numeral_eq_Suc)

lemma multicast_from_ip6_eq:
  assumes "length mac = 6" and "length ip = 16"
  shows "multicast_from_ip6 mac ip = Some ([0x33, 0x33] @ drop 12 ip)"
  using assms
  by (simp add: multicast_from_ip6_def rd8_def wr8_wrn wrn_seq wrn_seq_last drop_12_of_16) (simp add: wrn_def)

lemma ll6addr_from_mac_eq:
  assumes "length ip = 16" and "length mac = 6"
  shows "ll6addr_from_mac ip mac = Some ([0xFE, 0x80, 0, 0, 0, 0, 0, 0,
    mac ! 0 XOR 2, mac ! 1, mac ! 2, 0xFF, 0xFE, mac ! 3, mac ! 4, mac ! 5])"
  using assms
  by (clarsimp simp: length_Suc_conv numeral_eq_Suc ll6addr_from_mac_def rd8_def wr8_def)

lemma snmaddr_from_mac_eq:
  assumes "length ip = 16" and "length mac = 6"
  shows "snmaddr_from_mac ip mac = Some ([0xFF, 0x02, 0, 0, 0, 0, 0, 0, 0, 0, 0, 0x01, 0xFF,
    mac ! 3, mac ! 4, mac ! 5])"
  using assms
  by (clarsimp simp: length_Suc_conv numeral_eq_Suc snmaddr_from_mac_def rd8_def wr8_def)

text \<open>All addresses of the stack have their C sizes.\<close>

definition addrs_ok :: "('f, 'a) inet6_scheme \<Rightarrow> bool" where
  "addrs_ok s = (length (ll_mac_addr s) = 6 \<and> length (ll_ip6_addr s) = 16 \<and>
     length (snm_mac_addr s) = 6 \<and> length (snm_ip6_addr s) = 16 \<and>
     length (rx_mac_addr s) = 6 \<and> length (rx_ip6_addr s) = 16)"

text \<open>The link address a destination resolves to.\<close>

definition next_hop :: "('f, 'a) inet6_scheme \<Rightarrow> bytes \<Rightarrow> bytes option" where
  "next_hop s daddr =
     (if daddr ! 0 = 0xFF then Some ([0x33, 0x33] @ drop 12 daddr)
      else if daddr = rx_ip6_addr s then Some (rx_mac_addr s) else None)"

lemma resolve_ip6_eq:
  assumes "addrs_ok s" and "length mac = 6" and "length daddr = 16"
  shows "resolve_ip6 mac daddr s =
    Some (case next_hop s daddr of None \<Rightarrow> (-1, mac) | Some m \<Rightarrow> (0, m))"
proof -
  obtain c where c: "memcmp daddr 0 (rx_ip6_addr s) 0 16 = Some c"
    using memcmp_defined [of 0 16 daddr 0 "rx_ip6_addr s"] assms by (auto simp: addrs_ok_def)
  have "c = 0 \<longleftrightarrow> daddr = rx_ip6_addr s"
    using memcmp_whole [of daddr 16 0 "rx_ip6_addr s"] assms c by (simp add: addrs_ok_def)
  moreover have "memcpy mac 0 (rx_mac_addr s) 0 6 = Some (rx_mac_addr s)"
    using assms by (simp add: memcpy_whole wrn_def addrs_ok_def)
  ultimately show ?thesis
    using assms c by (auto simp: resolve_ip6_def rd8_def next_hop_def multicast_from_ip6_eq)
qed

lemma length_next_hop:
  "addrs_ok s \<Longrightarrow> length daddr = 16 \<Longrightarrow> next_hop s daddr = Some m \<Longrightarrow> length m = 6"
  by (auto simp: next_hop_def addrs_ok_def split: if_splits)

section \<open>Headers\<close>

definition eth_ip6_header :: "bytes \<Rightarrow> bytes \<Rightarrow> u16 \<Rightarrow> u8 \<Rightarrow> bytes \<Rightarrow> bytes \<Rightarrow> bytes" where
  "eth_ip6_header dmac smac len type src dst =
     dmac @ smac @ [0x86, 0xDD] @ [0x60, 0, 0, 0] @ be16 len @ [type, 255] @ src @ dst"

lemma to_le_4_v6: "to_le 4 (0x60 :: u32) = [0x60, 0, 0, 0]"
  by (simp add: to_le_4)

lemma ip6_setup_eq:
  assumes "addrs_ok s" and "length daddr = 16" and "length p = 1516"
  shows "ip6_setup p daddr len type s =
    (case next_hop s daddr of None \<Rightarrow> Some (-1, p)
     | Some dmac \<Rightarrow> Some (0, take 2 p @
         eth_ip6_header dmac (ll_mac_addr s) (of_nat len) type (ll_ip6_addr s) daddr @ drop 56 p))"
proof (cases "next_hop s daddr")
  case None
  then show ?thesis using assms by (simp add: ip6_setup_def resolve_ip6_eq)
next
  case (Some dmac)
  then have "length dmac = 6" using assms length_next_hop by blast
  then show ?thesis using assms Some
    by (simp add: ip6_setup_def resolve_ip6_eq addrs_ok_def memcpy_whole wr8_wrn wr16_def wr32_def
          wrn_seq to_le_swap16 to_le_4_v6)
       (simp add: wrn_def eth_ip6_header_def)
qed

section \<open>Checksum of a packet\<close>

definition ck_total :: "u8 \<Rightarrow> u16 \<Rightarrow> bytes \<Rightarrow> bytes \<Rightarrow> bytes \<Rightarrow> nat" where
  "ck_total type len src dst payload =
     unat (swap16 (ucast type)) + wsum (be16 len) + wsum (src @ dst @ payload)"

definition ck_field :: "nat \<Rightarrow> u16" where
  "ck_field n = (if oc16 n \<noteq> 65535 then NOT (of_nat (oc16 n)) else 0xFFFF)"

lemma unat_of_nat_oc16: "unat (of_nat (oc16 n) :: u16) = oc16 n"
  using oc16_le [of n] by (simp add: unat_of_nat take_bit_nat_eq_self)

lemma of_nat_oc16_ones: "(of_nat (oc16 n) :: u16) = 0xFFFF \<longleftrightarrow> oc16 n = 65535"
proof -
  have "(of_nat (oc16 n) :: u16) = 0xFFFF \<longleftrightarrow> unat (of_nat (oc16 n) :: u16) = unat (0xFFFF :: u16)"
    by (rule word_unat_eq_iff)
  then show ?thesis by (simp add: unat_of_nat_oc16)
qed

lemma unat_not_u16: "unat (NOT w :: u16) = 65535 - unat w"
proof -
  have "NOT w = 65535 - w" by (simp add: not_eq_complement)
  moreover have "unat w \<le> 65535" using unat_bound [of w] by simp
  ultimately show ?thesis by (simp add: unat_sub word_le_nat_alt)
qed

lemma unat_ck_field: "unat (ck_field n) = (if oc16 n = 65535 then 65535 else 65535 - oc16 n)"
  by (simp add: ck_field_def unat_not_u16 unat_of_nat_oc16)

lemma ck_field_nonzero: "ck_field n \<noteq> 0"
  using oc16_le [of n] unat_ck_field [of n] by (auto simp: unat_eq_0 [symmetric] split: if_splits)

lemma ip6_checksum_eq:
  assumes "length (pre @ dmac @ smac) = 14" and "length src = 16" and "length dst = 16"
    and "length payload = n" and "n \<le> 1460" and "n + n mod 2 \<le> n + length rest"
  shows "ip6_checksum (pre @ eth_ip6_header dmac smac len type src dst @ payload @ rest) 16 ptype n =
    Some (ck_field (ck_total ptype len src dst payload))"
proof -
  let ?d = "pre @ eth_ip6_header dmac smac len type src dst @ payload @ rest"
  have len: "length ?d = 56 + n + length rest" using assms by (simp add: eth_ip6_header_def)
  have d: "?d = (pre @ dmac @ smac @ [0x86, 0xDD] @ [0x60, 0, 0, 0]) @ be16 len @
      [type, 255] @ src @ dst @ payload @ rest"
    by (simp add: eth_ip6_header_def)
  have o1: "take 2 (drop 20 ?d) = be16 len"
    unfolding d using assms(1) by (intro slice_append) simp_all
  have d': "?d = (pre @ dmac @ smac @ [0x86, 0xDD] @ [0x60, 0, 0, 0] @ be16 len @ [type, 255]) @
      (src @ dst @ payload) @ rest"
    by (simp add: eth_ip6_header_def)
  have o2: "take (32 + n) (drop 24 ?d) = src @ dst @ payload"
    unfolding d' using assms(1-4) by (intro slice_append) simp_all
  have "(checksum ?d 20 2 (swap16 (ucast ptype)) \<bind> (\<lambda>s'. checksum ?d 24 (32 + n) s')) =
      Some (of_nat (oc16 (unat (swap16 (ucast ptype)) + wsum (take 2 (drop 20 ?d)) +
        wsum (take (32 + n) (drop 24 ?d)))))"
  proof (rule inet.pseudo_header)
    have "(32 + n) mod 2 = n mod 2" by presburger
    then show "24 + (32 + n) + (32 + n) mod 2 \<le> length ?d" unfolding len using assms(6) by simp
  qed (use assms(5) len in simp_all)
  then have ck: "(checksum ?d 20 2 (swap16 (ucast ptype)) \<bind> (\<lambda>s'. checksum ?d 24 (32 + n) s')) =
      Some (of_nat (oc16 (ck_total ptype len src dst payload)))"
    unfolding o1 o2 ck_total_def .
  have "ip6_checksum ?d 16 ptype n =
      ((checksum ?d 20 2 (swap16 (ucast ptype)) \<bind> (\<lambda>s'. checksum ?d 24 (32 + n) s'))
       \<bind> (\<lambda>sm. Some (if sm \<noteq> 0xFFFF then NOT sm else sm)))"
    by (simp add: ip6_checksum_def Option.bind_assoc)
  then show ?thesis unfolding ck by (simp add: ck_field_def of_nat_oc16_ones)
qed

definition udp6_segment :: "u16 \<Rightarrow> u16 \<Rightarrow> u16 \<Rightarrow> bytes \<Rightarrow> bytes" where
  "udp6_segment sport dport c data =
     be16 sport @ be16 dport @ be16 (of_nat (length data + 8)) @ to_le 2 c @ data"

definition udp6_ck :: "bytes \<Rightarrow> bytes \<Rightarrow> u16 \<Rightarrow> u16 \<Rightarrow> bytes \<Rightarrow> u16" where
  "udp6_ck src dst sport dport data =
     ck_field (ck_total HDR_UDP (of_nat (length data + 8)) src dst (udp6_segment sport dport 0 data))"

definition udp6_frame :: "bytes \<Rightarrow> bytes \<Rightarrow> bytes \<Rightarrow> bytes \<Rightarrow> u16 \<Rightarrow> u16 \<Rightarrow> bytes \<Rightarrow> bytes" where
  "udp6_frame dmac smac src dst sport dport data =
     eth_ip6_header dmac smac (of_nat (length data + 8)) HDR_UDP src dst @
     udp6_segment sport dport (udp6_ck src dst sport dport data) data"

lemma length_udp6_segment [simp]: "length (udp6_segment sport dport c data) = 8 + length data"
  by (simp add: udp6_segment_def)

lemma length_eth_ip6_header [simp]:
  "length dmac = 6 \<Longrightarrow> length smac = 6 \<Longrightarrow> length src = 16 \<Longrightarrow> length dst = 16 \<Longrightarrow>
     length (eth_ip6_header dmac smac len type src dst) = 54"
  by (simp add: eth_ip6_header_def)

lemma udp6_fill_eq:
  assumes "length pre = 2" and "length dmac = 6" and "length smac = 6"
    and "length src = 16" and "length dst = 16" and "length rest = 1460"
    and "off + dlen \<le> length data" and "dlen \<le> 1452"
  defines "payload \<equiv> take dlen (drop off data)"
  shows "udp6_fill (pre @ eth_ip6_header dmac smac (of_nat (dlen + 8)) HDR_UDP src dst @ rest)
      data off dlen dport sport =
    Some (pre @ udp6_frame dmac smac src dst sport dport payload @ drop (8 + dlen) rest)"
proof -
  let ?H = "eth_ip6_header dmac smac (of_nat (dlen + 8)) HDR_UDP src dst"
  let ?S = "\<lambda>c. udp6_segment sport dport c payload"
  have lp: "length payload = dlen" using assms by (simp add: payload_def)
  have H: "length (pre @ ?H) = 56" using assms by simp
  have fill: "udp6_fill (pre @ ?H @ rest) data off dlen dport sport =
      do { p \<leftarrow> wrn 56 (?S 0) (pre @ ?H @ rest);
           c \<leftarrow> ip6_checksum p 16 HDR_UDP (dlen + 8); wr16 62 c p }"
    using assms(7) by (simp add: udp6_fill_def wr16_def wrn_seq wrn_memcpy to_le_swap16
        udp6_segment_def lp flip: payload_def)
  have w: "wrn 56 (?S 0) (pre @ ?H @ rest) = Some (pre @ ?H @ ?S 0 @ drop (8 + dlen) rest)"
    using wrn_append [of "pre @ ?H" 56 "take (8 + dlen) rest" "?S 0" "drop (8 + dlen) rest"] assms H
    by (simp add: lp)
  have c: "ip6_checksum (pre @ ?H @ ?S 0 @ drop (8 + dlen) rest) 16 HDR_UDP (dlen + 8) =
      Some (udp6_ck src dst sport dport payload)"
    unfolding udp6_ck_def lp
  proof (rule ip6_checksum_eq)
    have "(dlen + 8) mod 2 \<le> 1460 - (8 + dlen)"
      using assms(8) by presburger
    then show "dlen + 8 + (dlen + 8) mod 2 \<le> dlen + 8 + length (drop (8 + dlen) rest)"
      using assms by simp
  qed (use assms lp in simp_all)
  have "udp6_fill (pre @ ?H @ rest) data off dlen dport sport =
      wr16 62 (udp6_ck src dst sport dport payload) (pre @ ?H @ ?S 0 @ drop (8 + dlen) rest)"
    by (simp only: fill w c Option.bind.simps)
  moreover have "pre @ ?H @ ?S 0 @ drop (8 + dlen) rest =
      (pre @ ?H @ be16 sport @ be16 dport @ be16 (of_nat (dlen + 8))) @ to_le 2 (0 :: u16) @
      (payload @ drop (8 + dlen) rest)"
    by (simp add: udp6_segment_def lp)
  moreover have "wr16 62 ck ((pre @ ?H @ be16 sport @ be16 dport @ be16 (of_nat (dlen + 8))) @
      to_le 2 (0 :: u16) @ (payload @ drop (8 + dlen) rest)) =
      Some ((pre @ ?H @ be16 sport @ be16 dport @ be16 (of_nat (dlen + 8))) @
      to_le 2 ck @ (payload @ drop (8 + dlen) rest))" for ck
    unfolding wr16_def using H by (intro wrn_append) simp_all
  ultimately show ?thesis by (simp add: udp6_frame_def udp6_segment_def lp)
qed

lemma split_2_4: "h @ xs = (h @ take 2 xs) @ take 2 (drop 2 xs) @ drop 4 xs"
proof -
  have "drop 4 xs = drop 2 (drop 2 xs)" by simp
  then show ?thesis by (simp only: append_assoc append_take_drop_id)
qed

lemma overlay_take:
  assumes "length c = 2"
  shows "take (length m) (take 2 (m @ r) @ c @ drop 4 (m @ r)) = take (length m) (take 2 m @ c @ drop 4 m)"
proof -
  from assms obtain x y where c: "c = [x, y]" by (auto dest: length_2_6_16)
  consider "m = []" | a where "m = [a]" | a b where "m = [a, b]" | a b e where "m = [a, b, e]"
    | a b e f m' where "m = a # b # e # f # m'"
    by (metis list.exhaust)
  then show ?thesis by cases (auto simp: c take_Cons' split: nat.splits)
qed

text \<open>
  An ICMP message with its checksum written over bytes 2 and 3; the sum is taken over the message
  as given. A message shorter than four bytes holds only part of the checksum.
\<close>

definition icmp6_frame :: "bytes \<Rightarrow> bytes \<Rightarrow> bytes \<Rightarrow> bytes \<Rightarrow> bytes \<Rightarrow> bytes" where
  "icmp6_frame dmac smac src dst m =
     eth_ip6_header dmac smac (of_nat (length m)) HDR_ICMP6 src dst @
     take (length m)
       (take 2 m @ to_le 2 (ck_field (ck_total HDR_ICMP6 (of_nat (length m)) src dst m)) @ drop 4 m)"

lemma icmp6_fill_eq:
  assumes "length pre = 2" and "length dmac = 6" and "length smac = 6"
    and "length src = 16" and "length dst = 16" and "length rest = 1460"
    and "off + len \<le> length data" and "len \<le> 1460"
  defines "m \<equiv> take len (drop off data)"
  obtains tail where "length tail = 1460 - len"
    "icmp6_fill (pre @ eth_ip6_header dmac smac (of_nat len) HDR_ICMP6 src dst @ rest) data off len =
       Some (pre @ icmp6_frame dmac smac src dst m @ tail)"
proof -
  let ?H = "eth_ip6_header dmac smac (of_nat len) HDR_ICMP6 src dst"
  let ?c = "ck_field (ck_total HDR_ICMP6 (of_nat len) src dst m)"
  let ?X = "m @ drop len rest"
  let ?Y = "take 2 ?X @ to_le 2 ?c @ drop 4 ?X"
  have lm: "length m = len" using assms by (simp add: m_def)
  have H: "length (pre @ ?H) = 56" using assms by simp
  have cp: "memcpy (pre @ ?H @ rest) 56 data off len = wrn 56 m (pre @ ?H @ rest)"
    using H assms(7) by (subst memcpy_slice) (simp_all add: m_def)
  have w: "wrn 56 m (pre @ ?H @ rest) = Some (pre @ ?H @ m @ drop len rest)"
    using wrn_append [of "pre @ ?H" 56 "take len rest" m "drop len rest"] assms(6,8) H lm by simp
  have c: "ip6_checksum (pre @ ?H @ m @ drop len rest) 16 HDR_ICMP6 len = Some ?c"
  proof (rule ip6_checksum_eq)
    have "len mod 2 \<le> 1460 - len" using assms(8) by presburger
    then show "len + len mod 2 \<le> len + length (drop len rest)" using assms by simp
  qed (use assms lm in simp_all)
  have "wr16 58 ?c ((pre @ ?H) @ ?X) =
      wr16 58 ?c (((pre @ ?H) @ take 2 ?X) @ take 2 (drop 2 ?X) @ drop 4 ?X)"
    by (simp only: split_2_4 [of "pre @ ?H" ?X])
  also have "\<dots> = Some (((pre @ ?H) @ take 2 ?X) @ to_le 2 ?c @ drop 4 ?X)"
    unfolding wr16_def using H lm assms(6,8) by (intro wrn_append) simp_all
  finally have "icmp6_fill (pre @ ?H @ rest) data off len = Some (pre @ ?H @ take len ?Y @ drop len ?Y)"
    by (simp only: icmp6_fill_def cp w c Option.bind.simps append_assoc append_take_drop_id)
  moreover have "take len ?Y = take len (take 2 m @ to_le 2 ?c @ drop 4 m)"
    using overlay_take [of "to_le 2 ?c" m "drop len rest"] lm by simp
  moreover have "length (drop len ?Y) = 1460 - len" using lm assms(6,8) by auto
  ultimately show ?thesis using that [of "drop len ?Y"] unfolding icmp6_frame_def lm
    by (simp only: append_assoc)
qed

lemma length_udp6_frame [simp]:
  "length dmac = 6 \<Longrightarrow> length smac = 6 \<Longrightarrow> length src = 16 \<Longrightarrow> length dst = 16 \<Longrightarrow>
     length (udp6_frame dmac smac src dst sport dport data) = 62 + length data"
  by (simp add: udp6_frame_def)

lemma length_icmp6_frame [simp]:
  "length dmac = 6 \<Longrightarrow> length smac = 6 \<Longrightarrow> length src = 16 \<Longrightarrow> length dst = 16 \<Longrightarrow>
     length (icmp6_frame dmac smac src dst m) = 54 + length m"
  by (auto simp: icmp6_frame_def)

end
