(* ===== verification/Inet6_Send.thy ===== *)
theory Inet6_Send
  imports Driver Frames
begin

unbundle bit_operations_syntax

text \<open>
  The send functions of \<^verbatim>\<open>src/inet6.c\<close>: they always return, every transmit buffer stays
  accounted for on every path, and what reaches the interface is exactly the specified frame.
\<close>

lemma untouched_inet6:
  fixes s s' :: "('f, 'a) inet6_scheme"
  assumes "untouched s' = untouched s"
  shows "addrs_ok s' = addrs_ok s" and "next_hop s' daddr = next_hop s daddr"
    and "ll_mac_addr s' = ll_mac_addr s" and "ll_ip6_addr s' = ll_ip6_addr s"
    and "inet6.more s' = inet6.more s"
proof -
  have "netifc.more s' = netifc.more s" using assms by (simp add: untouched_def)
  then show "inet6.more s' = inet6.more s" by (cases s; cases s'; simp)
  from \<open>netifc.more s' = netifc.more s\<close> have eq: "ll_mac_addr s' = ll_mac_addr s" "ll_ip6_addr s' = ll_ip6_addr s"
    "snm_mac_addr s' = snm_mac_addr s" "snm_ip6_addr s' = snm_ip6_addr s"
    "rx_mac_addr s' = rx_mac_addr s" "rx_ip6_addr s' = rx_ip6_addr s"
    by (cases s; cases s'; simp)+
  then show "addrs_ok s' = addrs_ok s" "next_hop s' daddr = next_hop s daddr"
    "ll_mac_addr s' = ll_mac_addr s" "ll_ip6_addr s' = ll_ip6_addr s"
    by (simp_all add: addrs_ok_def next_hop_def)
qed

text \<open>The outcome of a send: \<open>-1\<close> and an untouched interface when the packet is too long, there is
  no free buffer or the destination does not resolve; otherwise the frame was offered to the
  interface, and the result tells whether it was accepted.\<close>

definition sent_as :: "('f, 'x) net_fw_scheme \<Rightarrow> bool \<Rightarrow> bytes \<Rightarrow> (bytes \<Rightarrow> bytes) \<Rightarrow>
    ('f, 'a) inet6_scheme \<Rightarrow> int \<Rightarrow> 'f \<Rightarrow> bool" where
  "sent_as efi fits daddr frame s r f =
     (case (if fits \<and> eth_buffers s \<noteq> NULL then next_hop s daddr else None) of
        None \<Rightarrow> r = -1 \<and> f = fw s
      | Some dmac \<Rightarrow> \<exists>p st. Transmit efi p (frame dmac) (fw s) = (st, f) \<and>
          r = (if st = 0 then 0 else -1))"

lemma ip6_setup_cases:
  assumes "addrs_ok s" and "length daddr = 16" and "length d = ETH_BUFFER_SIZE"
  obtains "next_hop s daddr = None" "ip6_setup d daddr len type s = Some (-1, d)"
  | dmac where "next_hop s daddr = Some dmac" "length dmac = 6"
      "ip6_setup d daddr len type s = Some (0, take 2 d @
         eth_ip6_header dmac (ll_mac_addr s) (of_nat len) type (ll_ip6_addr s) daddr @ drop 56 d)"
  using ip6_setup_eq [OF assms, of len type] length_next_hop [OF assms(1,2)] that
  by (cases "next_hop s daddr") auto

text \<open>Both send functions, for a payload of \<open>plen\<close> bytes that \<open>fill\<close> puts behind the headers.\<close>

lemma send_sent:
  fixes s :: "('f, 'a) inet6_scheme"
  assumes idle: "drv_idle efi inflight A s" and addrs: "addrs_ok s" and daddr: "length daddr = 16"
    and big: "big \<longleftrightarrow> plen > 1460"
    and fill: "\<And>pre dmac rest. length pre = 2 \<Longrightarrow> length dmac = 6 \<Longrightarrow> length rest = 1460 \<Longrightarrow>
      plen \<le> 1460 \<Longrightarrow> length (frame dmac) = 54 + plen \<and>
      (\<exists>tail. length tail = 1460 - plen \<and>
        fill (pre @ eth_ip6_header dmac (ll_mac_addr s) (of_nat plen) type (ll_ip6_addr s) daddr @ rest) =
        Some (pre @ frame dmac @ tail))"
  shows "\<exists>r s'. do {
      (p, s) \<leftarrow> eth_get_buffer ETH_BUFFER_SIZE s;
      if p = NULL then Some (-1, s)
      else if big then do { s \<leftarrow> eth_put_buffer p s; Some (-1, s) }
      else do {
        d \<leftarrow> buf_load p ETH_BUFFER_SIZE s;
        (r, d) \<leftarrow> ip6_setup d daddr plen type s;
        if r \<noteq> 0 then do { s \<leftarrow> eth_put_buffer p s; Some (-1, s) }
        else do { d \<leftarrow> fill d; s \<leftarrow> buf_store p d s; eth_send efi (p + 2) (54 + plen) s } } }
      = Some (r, s') \<and>
    drv_idle efi inflight A s' \<and> untouched s' = untouched s \<and>
    sent_as efi (\<not> big) daddr frame s r (fw s')"
proof -
  have set_ok: "ip6_setup d daddr plen type s1 = Some (case next_hop s daddr of None \<Rightarrow> (-1, d)
     | Some dmac \<Rightarrow> (0, take 2 d @
         eth_ip6_header dmac (ll_mac_addr s) (of_nat plen) type (ll_ip6_addr s) daddr @ drop 56 d))"
    if "untouched s1 = untouched s" "length d = ETH_BUFFER_SIZE"
    for s1 :: "('f, 'a) inet6_scheme" and d
    using ip6_setup_eq [of s1 daddr d plen type] that(2) addrs daddr untouched_inet6 [OF that(1)]
    by (auto split: option.splits)
  have fill_ok: "\<exists>tail. fill (take 2 d @ eth_ip6_header dmac (ll_mac_addr s) (of_nat plen)
        type (ll_ip6_addr s) daddr @ drop 56 d) = Some (take 2 d @ frame dmac @ tail) \<and>
      length (take 2 d @ frame dmac @ tail) = ETH_BUFFER_SIZE \<and>
      length (frame dmac) = 54 + plen"
    if "length d = ETH_BUFFER_SIZE" "\<not> big" "next_hop s daddr = Some dmac" for d dmac
    using fill [of "take 2 d" dmac "drop 56 d"] length_next_hop [OF addrs daddr that(3)] that big
    by auto
  show ?thesis
  proof (rule drv.send_packet [OF idle, of big "54 + plen" "\<lambda>d s. ip6_setup d daddr plen type s" fill],
      goal_cases)
    case 1
    then show ?case using big by simp
  next
    case (2 s1 d)
    then show ?case using set_ok [of s1 d] fill_ok [of d] by (auto split: option.splits)
  next
    case (3 s')
    then show ?case
      using set_ok by (auto simp: sent_as_def split: option.splits)
  next
    case (4 p s1 d d' d'' r f s')
    obtain dmac where dmac: "next_hop s daddr = Some dmac" "d' = take 2 d @
        eth_ip6_header dmac (ll_mac_addr s) (of_nat plen) type (ll_ip6_addr s) daddr @ drop 56 d"
      using set_ok [OF 4(3,4)] 4(5) by (auto split: option.splits)
    have "take (54 + plen) (drop 2 d'') = frame dmac"
      using fill_ok [OF 4(4,2) dmac(1)] dmac(2) 4(4,6) by auto
    with 4 dmac(1) show ?case by (auto simp: sent_as_def)
  qed
qed

lemma udp6_send_sent:
  assumes "drv_idle efi inflight A s" and "addrs_ok s" and "length daddr = 16"
    and "off + dlen \<le> length data"
  shows "\<exists>r s'. udp6_send efi data off dlen daddr dport sport s = Some (r, s') \<and>
    drv_idle efi inflight A s' \<and> untouched s' = untouched s \<and>
    sent_as efi (dlen \<le> 1452) daddr (\<lambda>dmac. udp6_frame dmac (ll_mac_addr s) (ll_ip6_addr s) daddr
      sport dport (take dlen (drop off data))) s r (fw s')"
proof -
  have prog: "udp6_send efi data off dlen daddr dport sport s = do {
      (p, s) \<leftarrow> eth_get_buffer ETH_BUFFER_SIZE s;
      if p = NULL then Some (-1, s)
      else if \<not> dlen \<le> 1452 then do { s \<leftarrow> eth_put_buffer p s; Some (-1, s) }
      else do {
        d \<leftarrow> buf_load p ETH_BUFFER_SIZE s;
        (r, d) \<leftarrow> ip6_setup d daddr (dlen + 8) HDR_UDP s;
        if r \<noteq> 0 then do { s \<leftarrow> eth_put_buffer p s; Some (-1, s) }
        else do { d \<leftarrow> udp6_fill d data off dlen dport sport;
                  s \<leftarrow> buf_store p d s; eth_send efi (p + 2) (54 + (dlen + 8)) s } } }"
    by (simp add: udp6_send_def Let_def not_le cong: if_cong)
  have nn: "sent_as efi (dlen \<le> 1452) = sent_as efi (\<not> \<not> dlen \<le> 1452)" by simp
  show ?thesis unfolding prog nn
  proof (rule send_sent [OF assms(1-3)], goal_cases)
    case 1
    then show ?case by auto
  next
    case (2 pre dmac rest)
    then have "udp6_fill (pre @ eth_ip6_header dmac (ll_mac_addr s) (of_nat (dlen + 8)) HDR_UDP
        (ll_ip6_addr s) daddr @ rest) data off dlen dport sport =
      Some (pre @ udp6_frame dmac (ll_mac_addr s) (ll_ip6_addr s) daddr sport dport
        (take dlen (drop off data)) @ drop (8 + dlen) rest)"
      using assms by (intro udp6_fill_eq) (auto simp: addrs_ok_def)
    with 2 assms show ?case
      by (intro conjI exI [of _ "drop (8 + dlen) rest"]) (auto simp: addrs_ok_def)
  qed
qed

lemma icmp6_send_sent:
  assumes "drv_idle efi inflight A s" and "addrs_ok s" and "length daddr = 16"
    and "off + plen \<le> length data"
  shows "\<exists>r s'. icmp6_send efi data off plen daddr s = Some (r, s') \<and>
    drv_idle efi inflight A s' \<and> untouched s' = untouched s \<and>
    sent_as efi (plen \<le> 1460) daddr (\<lambda>dmac. icmp6_frame dmac (ll_mac_addr s) (ll_ip6_addr s) daddr
      (take plen (drop off data))) s r (fw s')"
proof -
  have prog: "icmp6_send efi data off plen daddr s = do {
      (p, s) \<leftarrow> eth_get_buffer ETH_BUFFER_SIZE s;
      if p = NULL then Some (-1, s)
      else if \<not> plen \<le> 1460 then do { s \<leftarrow> eth_put_buffer p s; Some (-1, s) }
      else do {
        d \<leftarrow> buf_load p ETH_BUFFER_SIZE s;
        (r, d) \<leftarrow> ip6_setup d daddr plen HDR_ICMP6 s;
        if r \<noteq> 0 then do { s \<leftarrow> eth_put_buffer p s; Some (-1, s) }
        else do { d \<leftarrow> icmp6_fill d data off plen;
                  s \<leftarrow> buf_store p d s; eth_send efi (p + 2) (54 + plen) s } } }"
    by (simp add: icmp6_send_def not_le cong: if_cong)
  have nn: "sent_as efi (plen \<le> 1460) = sent_as efi (\<not> \<not> plen \<le> 1460)" by simp
  show ?thesis unfolding prog nn
  proof (rule send_sent [OF assms(1-3)], goal_cases)
    case 1
    then show ?case by auto
  next
    case (2 pre dmac rest)
    then obtain tail where "length tail = 1460 - plen"
      "icmp6_fill (pre @ eth_ip6_header dmac (ll_mac_addr s) (of_nat plen) HDR_ICMP6 (ll_ip6_addr s)
         daddr @ rest) data off plen = Some (pre @ icmp6_frame dmac (ll_mac_addr s) (ll_ip6_addr s)
         daddr (take plen (drop off data)) @ tail)"
      using icmp6_fill_eq [of pre dmac "ll_mac_addr s" "ll_ip6_addr s" daddr rest off plen data] assms
      by (auto simp: addrs_ok_def)
    with 2 assms show ?case by (auto simp: addrs_ok_def)
  qed
qed

end
