(* ===== verification/Inet6_Recv.thy ===== *)
theory Inet6_Recv
  imports Inet6_Send
begin

unbundle bit_operations_syntax

text \<open>
  The receive path of \<^verbatim>\<open>src/inet6.c\<close>. A frame built by the send functions is taken
  apart into the same payload, ports and addresses; a packet whose sum is wrong is dropped;
  solicitations and echo requests are answered; and whatever arrives, the receive buffer is
  not left, no transmit buffer is lost and the function returns.
\<close>

section \<open>Reading the headers\<close>

lemma take_2: "2 \<le> length xs \<Longrightarrow> take 2 xs = [xs ! 0, xs ! 1]"
  by (cases xs; cases "tl xs") auto

lemma header_reads:
  assumes "length dmac = 6" and "length smac = 6" and "length src = 16" and "length dst = 16"
    and d_def: "d = eth_ip6_header dmac smac len type src dst @ rest"
  shows "rd8 12 d = Some 0x86" and "rd8 13 d = Some 0xDD" and "rd32 14 d = Some 0x60"
    and "rd16 18 d = Some (swap16 len)" and "rd8 20 d = Some type"
    and "take 6 (drop 6 d) = smac" and "take 16 (drop 22 d) = src" and "take 16 (drop 38 d) = dst"
    and "take 2 (drop 18 d) = be16 len" and "length d = 54 + length rest"
proof -
  show len: "length d = 54 + length rest" using assms by simp
  have d: "d = (dmac @ smac) @ [0x86, 0xDD] @ ([0x60, 0, 0, 0] @ be16 len @ [type, 255] @ src @ dst @ rest)"
    by (simp add: d_def eth_ip6_header_def)
  have "take 2 (drop 12 d) = [0x86, 0xDD]" unfolding d using assms(1,2) by (intro slice_append) simp_all
  then have "d ! 12 = 0x86" "d ! 13 = 0xDD" using assms(1,2) unfolding d by (simp_all add: nth_append)
  then show "rd8 12 d = Some 0x86" "rd8 13 d = Some 0xDD" using len by (simp_all add: rd8_def)
  have "d = (dmac @ smac @ [0x86, 0xDD]) @ [0x60, 0, 0, 0] @ (be16 len @ [type, 255] @ src @ dst @ rest)"
    by (simp add: d_def eth_ip6_header_def)
  then have "take 4 (drop 14 d) = [0x60, 0, 0, 0]"
    using slice_append [of "dmac @ smac @ [0x86, 0xDD]" 14] assms(1,2) by simp
  then show "rd32 14 d = Some 0x60" using len by (simp add: rd32_def rdn_def)
  have "d = (dmac @ smac @ [0x86, 0xDD] @ [0x60, 0, 0, 0]) @ be16 len @ ([type, 255] @ src @ dst @ rest)"
    by (simp add: d_def eth_ip6_header_def)
  then show ln: "take 2 (drop 18 d) = be16 len"
    using slice_append [of "dmac @ smac @ [0x86, 0xDD] @ [0x60, 0, 0, 0]" 18 "be16 len" 2] assms(1,2) by simp
  then show "rd16 18 d = Some (swap16 len)" using len by (simp add: rd16_def rdn_def of_le_be16)
  have "d = (dmac @ smac @ [0x86, 0xDD] @ [0x60, 0, 0, 0] @ be16 len) @ [type] @ ([255] @ src @ dst @ rest)"
    by (simp add: d_def eth_ip6_header_def)
  then have "d ! 20 = type" using assms(1,2) by (simp add: nth_append)
  then show "rd8 20 d = Some type" using len by (simp add: rd8_def)
  have "d = dmac @ smac @ ([0x86, 0xDD, 0x60, 0, 0, 0] @ be16 len @ [type, 255] @ src @ dst @ rest)"
    by (simp add: d_def eth_ip6_header_def)
  then show "take 6 (drop 6 d) = smac" using assms(1,2) by (simp add: slice_append)
  have "d = (dmac @ smac @ [0x86, 0xDD, 0x60, 0, 0, 0] @ be16 len @ [type, 255]) @ src @ (dst @ rest)"
    by (simp add: d_def eth_ip6_header_def)
  then show "take 16 (drop 22 d) = src" using assms(1-3)
    slice_append [of "dmac @ smac @ [0x86, 0xDD, 0x60, 0, 0, 0] @ be16 len @ [type, 255]" 22 src 16] by simp
  have "d = (dmac @ smac @ [0x86, 0xDD, 0x60, 0, 0, 0] @ be16 len @ [type, 255] @ src) @ dst @ rest"
    by (simp add: d_def eth_ip6_header_def)
  then show "take 16 (drop 38 d) = dst" using assms(1-4)
    slice_append [of "dmac @ smac @ [0x86, 0xDD, 0x60, 0, 0, 0] @ be16 len @ [type, 255] @ src" 38 dst 16]
    by simp
qed

text \<open>The sum both receive functions test.\<close>

lemma rx_checksum:
  assumes "length dmac = 6" and "length smac = 6" and "length src = 16" and "length dst = 16"
    and "length payload \<le> 1460" and "length payload mod 2 \<le> length rest"
    and d_def: "d = eth_ip6_header dmac smac len type src dst @ payload @ rest"
  shows "do { sm \<leftarrow> checksum d 18 2 (swap16 (ucast ptype)); checksum d 22 (32 + length payload) sm } =
    Some (of_nat (oc16 (ck_total ptype len src dst payload)))"
proof -
  let ?n = "length payload"
  note h = header_reads [OF assms(1-4) d_def]
  have d: "d = (dmac @ smac @ [0x86, 0xDD, 0x60, 0, 0, 0] @ be16 len @ [type, 255]) @
      (src @ dst @ payload) @ rest"
    by (simp add: d_def eth_ip6_header_def)
  have "take (32 + ?n) (drop 22 d) = src @ dst @ payload"
    unfolding d using assms(1-4) by (intro slice_append) simp_all
  moreover have "(checksum d 18 2 (swap16 (ucast ptype)) \<bind> (\<lambda>s'. checksum d 22 (32 + ?n) s')) =
      Some (of_nat (oc16 (unat (swap16 (ucast ptype)) + wsum (take 2 (drop 18 d)) +
        wsum (take (32 + ?n) (drop 22 d)))))"
  proof (rule inet.pseudo_header)
    have "(32 + ?n) mod 2 = ?n mod 2" by presburger
    then show "22 + (32 + ?n) + (32 + ?n) mod 2 \<le> length d" using assms(6) by (simp add: h(10))
  qed (use assms(5) h(10) in simp_all)
  ultimately show ?thesis by (simp add: h(9) ck_total_def)
qed

text \<open>The checksum field at an even offset adds its value to the sum; a field filled in by the
  sender, zeroed when it is all ones as the receiver does, makes the sum all ones.\<close>

lemma wsum_to_le: "wsum (to_le 2 c) = unat (c :: u16)"
proof -
  have "unat (of_le (to_le 2 c) :: u16) = le_nat (to_le 2 c)" by (rule unat_of_le) simp
  then show ?thesis by (simp add: of_le_to_le) (simp add: to_le_2)
qed

lemma ck_total_field:
  assumes "length src = 16" and "length dst = 16" and "even (length a)"
  shows "ck_total type len src dst (a @ to_le 2 c @ b) =
    ck_total type len src dst (a @ to_le 2 (0 :: u16) @ b) + unat (c :: u16)"
  using assms by (simp add: ck_total_def wsum_append wsum_to_le)

lemma ck_accepted:
  assumes "length src = 16" and "length dst = 16" and "even (length a)" and "type \<noteq> 0"
    and "c = ck_field (ck_total type len src dst (a @ to_le 2 (0 :: u16) @ b))"
  shows "oc16 (ck_total type len src dst (a @ to_le 2 (if c = 0xFFFF then 0 else c) @ b)) = 65535"
proof -
  let ?n = "ck_total type len src dst (a @ to_le 2 (0 :: u16) @ b)"
  have "swap16 (ucast type) \<noteq> (0 :: u16)"
  proof
    assume "swap16 (ucast type) = (0 :: u16)"
    then have "swap16 (swap16 (ucast type)) = swap16 0" by simp
    then have "(ucast type :: u16) = swap16 0" by (simp only: swap16_swap16)
    then have "(ucast type :: u16) = 0" by (simp add: swap16_def)
    then have "unat (ucast type :: u16) = 0" by simp
    then show False using assms(4) by (simp add: unat_ucast_up unat_eq_0)
  qed
  then have n0: "?n \<noteq> 0" by (simp add: ck_total_def unat_eq_0)
  show ?thesis
  proof (cases "oc16 ?n = 65535")
    case True
    then have "c = 0xFFFF" by (simp add: assms(5) ck_field_def)
    with True show ?thesis by simp
  next
    case False
    then have uc: "unat c = 65535 - oc16 ?n" by (simp add: assms(5) unat_ck_field)
    have "0 < oc16 ?n" using n0 by (simp only: neq0_conv [symmetric] oc16_zero) simp
    then have "unat c < 65535" unfolding uc by (rule diff_less) simp
    then have "unat c \<noteq> unat (0xFFFF :: u16)" by simp
    then have "c \<noteq> 0xFFFF" by auto
    then have "ck_total type len src dst (a @ to_le 2 (if c = 0xFFFF then 0 else c) @ b) =
        ?n + (65535 - oc16 ?n)"
      using ck_total_field [OF assms(1-3), of type len c b] uc by simp
    then show ?thesis by (simp only: oc16_complement)
  qed
qed

section \<open>A packet for this host\<close>

lemma memcmp_addr:
  assumes "length a = 16" and "take 16 (drop 38 d) = dst" and "54 \<le> length d"
  shows "\<exists>c. memcmp a 0 d 38 16 = Some c \<and> (c = 0 \<longleftrightarrow> a = dst)"
proof -
  obtain c where "memcmp a 0 d 38 16 = Some c"
    using memcmp_defined [of 0 16 a 38 d] assms by auto
  then show ?thesis using memcmp_whole [of a 16 38 d] assms by auto
qed

lemma eth_recv_for_me:
  assumes len: "length dmac = 6" "length smac = 6" "length src = 16" "length dst = 16"
    and d: "d = eth_ip6_header dmac smac (of_nat n) type src dst @ rest"
    and n: "54 + n \<le> flen" "n < 65536" and ok: "addrs_ok s"
    and me: "dst = ll_ip6_addr s \<or> dst = snm_ip6_addr s"
  shows "eth_recv efi recv d flen s =
    (let s = s\<lparr>rx_mac_addr := smac, rx_ip6_addr := src\<rparr> in
     if type = HDR_ICMP6 then icmp6_recv efi d n s
     else if type = HDR_UDP then udp6_input recv d n s
     else BAD ''Unhandled IP6'' s)"
proof -
  note h = header_reads [OF len d]
  have ld: "54 \<le> length d" using h(10) by simp
  obtain c1 c2 where c: "memcmp (ll_ip6_addr s) 0 d 38 16 = Some c1" "c1 = 0 \<longleftrightarrow> ll_ip6_addr s = dst"
    "memcmp (snm_ip6_addr s) 0 d 38 16 = Some c2" "c2 = 0 \<longleftrightarrow> snm_ip6_addr s = dst"
    using memcmp_addr [OF _ h(8) ld] ok unfolding addrs_ok_def by metis
  have m: "memcpy (rx_mac_addr s) 0 d 6 6 = Some smac" "memcpy (rx_ip6_addr s) 0 d 22 16 = Some src"
    using ok ld h(6,7) len by (simp_all add: memcpy_slice addrs_ok_def wrn_def)
  have u: "unat (of_nat n :: u16) = n" using n(2) by (simp add: unat_of_nat take_bit_nat_eq_self)
  have nb: "\<not> flen - 54 < n" "\<not> flen < 54" using n by auto
  have c2: "(if c1 \<noteq> 0 then Some c2 else Some 0) = Some (if c1 \<noteq> 0 then c2 else 0)" by simp
  show ?thesis
    unfolding eth_recv_def
    using nb me u by (auto simp: h(1-5) c m c2)
qed

section \<open>UDP\<close>

text \<open>A checksum field of all ones is zeroed before summing.\<close>

lemma zero_ones_field:
  assumes "length a = off"
  shows "(if c = 0xFFFF then wr16 off 0 (a @ to_le 2 c @ b) else Some (a @ to_le 2 c @ b)) =
    Some (a @ to_le 2 (if c = 0xFFFF then 0 else c :: u16) @ b)"
  using assms by (auto simp: wr16_def intro!: wrn_append)

lemma rd16_field: "length a = off \<Longrightarrow> rd16 off (a @ to_le 2 c @ b) = Some c"
  by (simp add: rd16_def rdn_def of_le_to_le)

lemma rd16_be: "length a = off \<Longrightarrow> rd16 off (a @ be16 w @ b) = Some (swap16 w)"
  by (simp add: rd16_def rdn_def of_le_be16)

lemma udp6_input_frame:
  assumes len: "length dmac = 6" "length smac = 6" "length src = 16" "length dst = 16"
    and n: "length data \<le> 1452" and d: "d = udp6_frame dmac smac src dst sport dport data @ rest"
    and pad: "length data mod 2 \<le> length rest"
  obtains d' where "length d' = length d" "take (length data) (drop 62 d') = data"
    "udp6_input recv d (length data + 8) s = recv d' 62 (length data) dst dport src sport s"
proof -
  let ?n = "length data"
  let ?H = "eth_ip6_header dmac smac (of_nat (?n + 8)) HDR_UDP src dst"
  let ?P = "be16 sport @ be16 dport @ be16 (of_nat (?n + 8))"
  let ?c = "udp6_ck src dst sport dport data"
  let ?c' = "if ?c = 0xFFFF then 0 else ?c"
  define d' where "d' = ?H @ (?P @ to_le 2 ?c' @ data) @ rest"
  have lH: "length ?H = 54" using len by simp
  have d1: "d = (?H @ ?P) @ to_le 2 ?c @ (data @ rest)"
    by (simp add: d udp6_frame_def udp6_segment_def)
  have d2: "d' = (?H @ ?P) @ to_le 2 ?c' @ (data @ rest)" by (simp add: d'_def)
  note h = header_reads [OF len d'_def]
  have c: "rd16 60 d = Some ?c" unfolding d1 using lH by (intro rd16_field) simp
  have z: "(if ?c = 0xFFFF then wr16 60 0 d else Some d) = Some d'"
    unfolding d1 d2 using lH by (intro zero_ones_field) simp
  have lP: "length (?P @ to_le 2 ?c' @ data) = ?n + 8" by simp
  have "(?n + 8) mod 2 = ?n mod 2" by presburger
  then have "do { sm \<leftarrow> checksum d' 18 2 (swap16 (ucast HDR_UDP)); checksum d' 22 (32 + (?n + 8)) sm } =
      Some (of_nat (oc16 (ck_total HDR_UDP (of_nat (?n + 8)) src dst (?P @ to_le 2 ?c' @ data))))"
    using n pad rx_checksum [OF len _ _ d'_def, of HDR_UDP] by (simp only: lP)
  moreover have "oc16 (ck_total HDR_UDP (of_nat (?n + 8)) src dst (?P @ to_le 2 ?c' @ data)) = 65535"
    using len by (intro ck_accepted) (simp_all add: udp6_ck_def udp6_segment_def)
  ultimately obtain sm where sm: "checksum d' 18 2 (swap16 (ucast HDR_UDP)) = Some sm"
      "checksum d' 22 (32 + (?n + 8)) sm = Some 0xFFFF"
    by (auto simp: Option.bind_eq_Some_conv)
  have r1: "rd16 58 d' = Some (swap16 (of_nat (?n + 8)))"
    using rd16_be [of "?H @ be16 sport @ be16 dport" 58 "of_nat (?n + 8)" "to_le 2 ?c' @ data @ rest"] lH
    by (simp only: d'_def append_assoc) simp
  have r2: "rd16 56 d' = Some (swap16 dport)"
    using rd16_be [of "?H @ be16 sport" 56 dport] lH by (simp add: d'_def)
  have r3: "rd16 54 d' = Some (swap16 sport)"
    using rd16_be [of ?H 54 sport] lH by (simp add: d'_def)
  have u: "unat (of_nat (?n + 8) :: u16) = ?n + 8"
    using n by (simp only: unat_of_nat) (simp add: take_bit_nat_eq_self)
  have r4: "rdn 38 16 d' = Some dst" "rdn 22 16 d' = Some src"
    using h(7,8,10) by (simp_all add: rdn_def)
  have nz: "?c \<noteq> 0" by (simp add: udp6_ck_def ck_field_nonzero)
  have "udp6_input recv d (?n + 8) s = recv d' 62 ?n dst dport src sport s"
    using nz u unfolding udp6_input_def c Option.bind.simps z sm by (simp add: sm r1 r2 r3 r4)
  moreover have "length d' = length d" by (simp add: d1 d2)
  moreover have "take ?n (drop 62 d') = data"
    using slice_append [of "?H @ ?P @ to_le 2 ?c'" 62 data ?n rest] lH
    by (simp only: d'_def append_assoc) simp
  ultimately show ?thesis using that by blast
qed

text \<open>
  The round trip of a datagram: whatever trails the frame in the receive buffer, the client gets
  the data, addresses and ports the sender gave, and the stack has noted the sender.
\<close>

lemma eth_recv_udp6_frame:
  assumes len: "length dmac = 6" "length smac = 6" "length src = 16" "length dst = 16"
    and n: "length data \<le> 1452" "62 + length data \<le> flen" and ok: "addrs_ok s"
    and me: "dst = ll_ip6_addr s \<or> dst = snm_ip6_addr s"
    and d: "d = udp6_frame dmac smac src dst sport dport data @ rest"
    and pad: "length data mod 2 \<le> length rest"
  obtains d' where "length d' = length d" "take (length data) (drop 62 d') = data"
    "eth_recv efi recv d flen s =
       recv d' 62 (length data) dst dport src sport (s\<lparr>rx_mac_addr := smac, rx_ip6_addr := src\<rparr>)"
proof -
  let ?s = "s\<lparr>rx_mac_addr := smac, rx_ip6_addr := src\<rparr>"
  obtain d' where d': "length d' = length d" "take (length data) (drop 62 d') = data"
    "udp6_input recv d (length data + 8) ?s = recv d' 62 (length data) dst dport src sport ?s"
    by (rule udp6_input_frame [OF len n(1) d pad])
  have "eth_recv efi recv d flen s = udp6_input recv d (length data + 8) ?s"
    using eth_recv_for_me [OF len, of d "length data + 8" HDR_UDP _ flen s efi recv] n ok me
    unfolding d udp6_frame_def append_assoc by (simp only: append_assoc) (simp add: Let_def)
  with d' that show ?thesis by simp
qed

text \<open>A datagram whose data was changed on the way, so that its sum is another one, is dropped.\<close>

lemma ck_total_data:
  assumes "length src = 16" and "length dst = 16" and "even (length a)"
  shows "ck_total type len src dst (a @ data) = ck_total type len src dst a + wsum data"
  using assms by (simp add: ck_total_def wsum_append)

lemma eth_recv_corrupt:
  assumes len: "length dmac = 6" "length smac = 6" "length src = 16" "length dst = 16"
    and n: "length data \<le> 1452" "62 + length data \<le> flen" and ok: "addrs_ok s"
    and me: "dst = ll_ip6_addr s \<or> dst = snm_ip6_addr s"
    and same: "length data' = length data" and bad: "wsum data' mod 65535 \<noteq> wsum data mod 65535"
    and d: "d = eth_ip6_header dmac smac (of_nat (length data + 8)) HDR_UDP src dst @
      udp6_segment sport dport (udp6_ck src dst sport dport data) data' @ rest"
    and pad: "length data mod 2 \<le> length rest"
  shows "eth_recv efi recv d flen s =
    BAD ''Checksum Incorrect'' (s\<lparr>rx_mac_addr := smac, rx_ip6_addr := src\<rparr>)"
proof -
  let ?s = "s\<lparr>rx_mac_addr := smac, rx_ip6_addr := src\<rparr>" and ?n = "length data"
  let ?H = "eth_ip6_header dmac smac (of_nat (?n + 8)) HDR_UDP src dst"
  let ?P = "be16 sport @ be16 dport @ be16 (of_nat (?n + 8))"
  let ?c = "udp6_ck src dst sport dport data"
  let ?c' = "if ?c = 0xFFFF then 0 else ?c"
  define d' where "d' = ?H @ (?P @ to_le 2 ?c' @ data') @ rest"
  have lH: "length ?H = 54" using len by simp
  have d1: "d = (?H @ ?P) @ to_le 2 ?c @ (data' @ rest)" by (simp add: d udp6_segment_def same)
  have c: "rd16 60 d = Some ?c" unfolding d1 using lH by (intro rd16_field) simp
  have z: "(if ?c = 0xFFFF then wr16 60 0 d else Some d) = Some d'"
    unfolding d1 d'_def using zero_ones_field [of "?H @ ?P" 60 ?c "data' @ rest"] lH by simp
  have lP: "length (?P @ to_le 2 ?c' @ data') = ?n + 8" by (simp add: same)
  let ?t = "ck_total HDR_UDP (of_nat (?n + 8)) src dst"
  have "(?n + 8) mod 2 = ?n mod 2" by presburger
  then have "do { sm \<leftarrow> checksum d' 18 2 (swap16 (ucast HDR_UDP)); checksum d' 22 (32 + (?n + 8)) sm } =
      Some (of_nat (oc16 (?t (?P @ to_le 2 ?c' @ data'))))"
    using n pad rx_checksum [OF len _ _ d'_def, of HDR_UDP] by (simp only: lP)
  moreover have "oc16 (?t (?P @ to_le 2 ?c' @ data)) = 65535"
    using len by (intro ck_accepted) (simp_all add: udp6_ck_def udp6_segment_def)
  then have "oc16 (?t (?P @ to_le 2 ?c') + wsum data) = 65535"
    using ck_total_data [of src dst "?P @ to_le 2 ?c'" HDR_UDP "of_nat (?n + 8)" data] len by simp
  then have "oc16 (?t (?P @ to_le 2 ?c') + wsum data') \<noteq> 65535"
    using bad oc16_mod [of "?t (?P @ to_le 2 ?c') + wsum data"] oc16_mod [of "?t (?P @ to_le 2 ?c') + wsum data'"]
    by (metis mod_add_cancel)
  then have "oc16 (?t (?P @ to_le 2 ?c' @ data')) \<noteq> 65535"
    using ck_total_data [of src dst "?P @ to_le 2 ?c'" HDR_UDP "of_nat (?n + 8)" data'] len by simp
  ultimately obtain sm sm2 where sm: "checksum d' 18 2 (swap16 (ucast HDR_UDP)) = Some sm"
      "checksum d' 22 (32 + (?n + 8)) sm = Some sm2" "sm2 \<noteq> 0xFFFF"
    by (auto simp: Option.bind_eq_Some_conv of_nat_oc16_ones)
  have "?c \<noteq> 0" by (simp add: udp6_ck_def ck_field_nonzero)
  then have "udp6_input recv d (?n + 8) ?s = BAD ''Checksum Incorrect'' ?s"
    using sm(3) unfolding udp6_input_def c Option.bind.simps z sm by simp
  then show ?thesis
    using eth_recv_for_me [OF len, of d "?n + 8" HDR_UDP _ flen s efi recv] n ok me
    unfolding d append_assoc by (simp add: Let_def)
qed

section \<open>ICMP\<close>

text \<open>A message that passes the checks of \<open>icmp6_recv\<close>: its checksum field is not zero and, with
  a field of all ones taken as zero, its sum is all ones.\<close>

definition icmp6_valid :: "bytes \<Rightarrow> bytes \<Rightarrow> bytes \<Rightarrow> bool" where
  "icmp6_valid src dst m =
     (let c = of_le (take 2 (drop 2 m)) :: u16 in
      4 \<le> length m \<and> c \<noteq> 0 \<and>
      oc16 (ck_total HDR_ICMP6 (of_nat (length m)) src dst
        (take 2 m @ to_le 2 (if c = 0xFFFF then 0 else c) @ drop 4 m)) = 65535)"

lemma icmp6_recv_valid:
  assumes len: "length dmac = 6" "length smac = 6" "length src = 16" "length dst = 16"
    and d: "d = eth_ip6_header dmac smac (of_nat (length m)) HDR_ICMP6 src dst @ m @ rest"
    and v: "icmp6_valid src dst m" and n: "length m \<le> 1460" "length m mod 2 \<le> length rest"
  obtains c where "icmp6_recv efi d (length m) s =
    icmp6_handle efi (eth_ip6_header dmac smac (of_nat (length m)) HDR_ICMP6 src dst @
      (take 2 m @ to_le 2 (c :: u16) @ drop 4 m) @ rest) (length m) s"
proof -
  let ?H = "eth_ip6_header dmac smac (of_nat (length m)) HDR_ICMP6 src dst"
  define c :: u16 where "c = of_le (take 2 (drop 2 m))"
  let ?c' = "if c = 0xFFFF then 0 else c"
  let ?m = "take 2 m @ to_le 2 ?c' @ drop 4 m"
  have v': "4 \<le> length m" "c \<noteq> 0"
      "oc16 (ck_total HDR_ICMP6 (of_nat (length m)) src dst ?m) = 65535"
    using v unfolding icmp6_valid_def Let_def c_def by blast+
  have tc: "to_le 2 c = take 2 (drop 2 m)" unfolding c_def using v'(1) by (intro to_le_of_le) auto
  define d' where "d' = ?H @ ?m @ rest"
  have lH: "length ?H = 54" using len by simp
  have lm: "length ?m = length m" using v'(1) by simp
  have d1: "d = (?H @ take 2 m) @ to_le 2 c @ (drop 4 m @ rest)"
    using split_2_4 [of "[]" m] unfolding tc d by (metis append.assoc append_Nil)
  have d2: "d' = (?H @ take 2 m) @ to_le 2 ?c' @ (drop 4 m @ rest)" by (simp add: d'_def)
  have l56: "length (?H @ take 2 m) = 56" using lH v'(1) by simp
  have c: "rd16 56 d = Some c" unfolding d1 using l56 by (rule rd16_field)
  have z: "(if c = 0xFFFF then wr16 56 0 d else Some d) = Some d'"
    unfolding d1 d2 using l56 by (rule zero_ones_field)
  have "do { sm \<leftarrow> checksum d' 18 2 (swap16 (ucast HDR_ICMP6)); checksum d' 22 (32 + length m) sm } =
      Some (of_nat (oc16 (ck_total HDR_ICMP6 (of_nat (length m)) src dst ?m)))"
    using n rx_checksum [OF len _ _ d'_def, of HDR_ICMP6] by (simp only: lm)
  then obtain sm where sm: "checksum d' 18 2 (swap16 (ucast HDR_ICMP6)) = Some sm"
      "checksum d' 22 (32 + length m) sm = Some 0xFFFF"
    unfolding v'(3) by (auto simp: Option.bind_eq_Some_conv)
  have "icmp6_recv efi d (length m) s = icmp6_handle efi d' (length m) s"
    using v'(2) unfolding icmp6_recv_def c Option.bind.simps z sm by simp
  then show ?thesis using that unfolding d'_def by blast
qed

text \<open>The two answers. \<open>answered_with\<close>: the reply was offered to the interface, addressed to the
  sender, unless there was no buffer left.\<close>

definition answered_with :: "('f, 'x) net_fw_scheme \<Rightarrow> bytes \<Rightarrow> bytes \<Rightarrow>
    ('f, 'a) inet6_scheme \<Rightarrow> ('f, 'a) inet6_scheme \<Rightarrow> bool" where
  "answered_with efi src m s s' = (\<exists>r. sent_as efi True src
     (\<lambda>dmac. icmp6_frame dmac (ll_mac_addr s) (ll_ip6_addr s) src m) s r (fw s'))"

lemma ndp_advert_eq:
  assumes "addrs_ok s"
  shows "ndp_advert s = Some ([136, 0, 0, 0, 0x60, 0, 0, 0] @ ll_ip6_addr s @ [2, 1] @ ll_mac_addr s)"
  using assms
  by (simp add: ndp_advert_def addrs_ok_def memcpy_whole wr8_wrn wr16_def wr32_def wrn_seq wrn_seq_last
        to_le_4_v6 to_le_2) (simp add: wrn_def)

lemma icmp6_reply:
  assumes "drv_idle efi inflight A s" and "addrs_ok s" and "length src = 16"
    and "off + n \<le> length data" and "n \<le> 1460"
  shows "\<exists>s'. do { (_, s) \<leftarrow> icmp6_send efi data off n src s; Some s } = Some s' \<and>
    drv_idle efi inflight A s' \<and> untouched s' = untouched s \<and>
    answered_with efi src (take n (drop off data)) s s'"
  using icmp6_send_sent [OF assms(1-4)] assms(5) by (auto simp: answered_with_def)

lemma drv_idle_rx [simp]:
  "drv_idle efi inflight A (s\<lparr>rx_mac_addr := m, rx_ip6_addr := a\<rparr>) = drv_idle efi inflight A s"
  by (simp add: drv_idle_def accounted_def pool_def)

lemma overlay_reads:
  assumes "4 \<le> length m" and "m' = take 2 m @ to_le 2 (c :: u16) @ drop 4 m"
  shows "m' ! 0 = m ! 0" and "m' ! 1 = m ! 1" and "4 \<le> k \<Longrightarrow> drop k m' = drop k m"
    and "length m' = length m"
  using assms by (auto simp: nth_append)

text \<open>How a valid message for this host reaches the handler.\<close>

lemma eth_recv_icmp6:
  assumes len: "length dmac = 6" "length smac = 6" "length src = 16" "length dst = 16"
    and d: "d = eth_ip6_header dmac smac (of_nat (length m)) HDR_ICMP6 src dst @ m @ rest"
    and v: "icmp6_valid src dst m" and n: "length m \<le> 1460" "length m mod 2 \<le> length rest"
    and flen: "54 + length m \<le> flen" and ok: "addrs_ok s"
    and me: "dst = ll_ip6_addr s \<or> dst = snm_ip6_addr s"
  obtains d' m' where "eth_recv efi recv d flen s =
      icmp6_handle efi d' (length m) (s\<lparr>rx_mac_addr := smac, rx_ip6_addr := src\<rparr>)"
    "d' = eth_ip6_header dmac smac (of_nat (length m)) HDR_ICMP6 src dst @ m' @ rest"
    "length m' = length m" "m' ! 0 = m ! 0" "m' ! 1 = m ! 1" "\<And>k. 4 \<le> k \<Longrightarrow> drop k m' = drop k m"
    "rd8 54 d' = Some (m ! 0)" "rd8 55 d' = Some (m ! 1)" "rdn 22 16 d' = Some src"
    "length d' = length d"
proof -
  let ?s = "s\<lparr>rx_mac_addr := smac, rx_ip6_addr := src\<rparr>"
  let ?H = "eth_ip6_header dmac smac (of_nat (length m)) HDR_ICMP6 src dst"
  obtain c where c: "icmp6_recv efi d (length m) ?s = icmp6_handle efi (?H @
      (take 2 m @ to_le 2 (c :: u16) @ drop 4 m) @ rest) (length m) ?s"
    by (rule icmp6_recv_valid [OF len d v n])
  define m' where "m' = take 2 m @ to_le 2 c @ drop 4 m"
  define d' where "d' = ?H @ m' @ rest"
  have m4: "4 \<le> length m" using v by (simp add: icmp6_valid_def Let_def)
  note o = overlay_reads [OF m4 m'_def]
  have lH: "length ?H = 54" using len by simp
  have "rd8 54 d' = Some (m ! 0)" "rd8 55 d' = Some (m ! 1)"
    using o m4 lH by (auto simp: d'_def rd8_def nth_append)
  moreover have "rdn 22 16 d' = Some src"
    using header_reads(7,10) [OF len d'_def] by (simp add: rdn_def)
  moreover have "eth_recv efi recv d flen s = icmp6_handle efi d' (length m) ?s"
    using eth_recv_for_me [OF len d flen _ ok me, of efi recv] n(1) c
    by (simp add: Let_def d'_def m'_def)
  ultimately show ?thesis using that [of d' m'] o d'_def d by simp
qed

lemma solicit_answered:
  assumes idle: "drv_idle efi inflight A s" and ok: "addrs_ok s"
    and len: "length dmac = 6" "length smac = 6" "length src = 16" "length dst = 16"
    and d: "d = eth_ip6_header dmac smac (of_nat (length m)) HDR_ICMP6 src dst @ m @ rest"
    and v: "icmp6_valid src dst m" and n: "length m \<le> 1460" "length m mod 2 \<le> length rest"
    and flen: "54 + length m \<le> flen" and me: "dst = ll_ip6_addr s \<or> dst = snm_ip6_addr s"
    and m: "24 \<le> length m" "m ! 0 = 135" "m ! 1 = 0" "take 16 (drop 8 m) = ll_ip6_addr s"
    and s1: "s1 = s\<lparr>rx_mac_addr := smac, rx_ip6_addr := src\<rparr>"
  shows "\<exists>s'. eth_recv efi recv d flen s = Some s' \<and> drv_idle efi inflight A s' \<and>
    untouched s' = untouched s1 \<and> answered_with efi src
      ([136, 0, 0, 0, 0x60, 0, 0, 0] @ ll_ip6_addr s @ [2, 1] @ ll_mac_addr s) s1 s'"
proof -
  let ?a = "[136, 0, 0, 0, 0x60, 0, 0, 0] @ ll_ip6_addr s @ [2, 1] @ ll_mac_addr s"
  obtain d' m' where h: "eth_recv efi recv d flen s = icmp6_handle efi d' (length m) s1"
      "d' = eth_ip6_header dmac smac (of_nat (length m)) HDR_ICMP6 src dst @ m' @ rest"
      "length m' = length m" "drop 8 m' = drop 8 m"
      "rd8 54 d' = Some (m ! 0)" "rd8 55 d' = Some (m ! 1)" "rdn 22 16 d' = Some src"
    by (rule eth_recv_icmp6 [OF len d v n flen ok me, of efi recv]) (simp add: s1)
  have "take 16 (drop 62 d') = ll_ip6_addr s" using h(2-4) len m by simp
  then have "memcmp d' 62 (ll_ip6_addr s) 0 16 = Some 0"
    using memcmp_zero_iff [of 62 16 d' 0 "ll_ip6_addr s"] h(2,3) len m ok
    by (simp add: addrs_ok_def)
  moreover have s1': "addrs_ok s1" "ll_ip6_addr s1 = ll_ip6_addr s" "ll_mac_addr s1 = ll_mac_addr s"
      "drv_idle efi inflight A s1"
    using ok idle len by (auto simp: s1 addrs_ok_def)
  moreover have la: "length ?a = 32" using ok by (simp add: addrs_ok_def)
  ultimately have "icmp6_handle efi d' (length m) s1 = do { (_, s) \<leftarrow> icmp6_send efi ?a 0 32 src s1; Some s }"
    using h m ndp_advert_eq [OF s1'(1)] by (simp add: icmp6_handle_def)
  then show ?thesis using icmp6_reply [OF s1'(4,1) len(3), of 0 32 ?a] la h(1) by simp
qed

lemma echo_answered:
  assumes idle: "drv_idle efi inflight A s" and ok: "addrs_ok s"
    and len: "length dmac = 6" "length smac = 6" "length src = 16" "length dst = 16"
    and d: "d = eth_ip6_header dmac smac (of_nat (length m)) HDR_ICMP6 src dst @ m @ rest"
    and v: "icmp6_valid src dst m" and n: "length m \<le> 1460" "length m mod 2 \<le> length rest"
    and flen: "54 + length m \<le> flen" and me: "dst = ll_ip6_addr s \<or> dst = snm_ip6_addr s"
    and m: "m ! 0 = 128"
    and s1: "s1 = s\<lparr>rx_mac_addr := smac, rx_ip6_addr := src\<rparr>"
  shows "\<exists>s'. eth_recv efi recv d flen s = Some s' \<and> drv_idle efi inflight A s' \<and>
    untouched s' = untouched s1 \<and> answered_with efi src ([129, m ! 1, 0, 0] @ drop 4 m) s1 s'"
proof -
  let ?H = "eth_ip6_header dmac smac (of_nat (length m)) HDR_ICMP6 src dst"
  let ?a = "[129, m ! 1, 0, 0] @ drop 4 m"
  obtain d' m' where h: "eth_recv efi recv d flen s = icmp6_handle efi d' (length m) s1"
      "d' = ?H @ m' @ rest" "length m' = length m" "m' ! 1 = m ! 1" "drop 4 m' = drop 4 m"
      "rd8 54 d' = Some (m ! 0)" "rdn 22 16 d' = Some src"
    by (rule eth_recv_icmp6 [OF len d v n flen ok me, of efi recv]) (simp add: s1)
  have m4: "4 \<le> length m" using v by (simp add: icmp6_valid_def Let_def)
  have lH: "length ?H = 54" using len by simp
  have "take 2 m' = [m' ! 0, m ! 1]"
    using h(3,4) m4 take_2 [of m'] by simp
  then have d2: "d' = (?H @ [m' ! 0, m ! 1]) @ take 2 (drop 2 m') @ (drop 4 m @ rest)"
    using split_2_4 [of ?H m'] h(2,5) by simp
  have "wr16 56 0 d' = Some ((?H @ [m' ! 0, m ! 1]) @ to_le 2 (0 :: u16) @ (drop 4 m @ rest))"
    unfolding d2 wr16_def using lH m4 h(3) by (intro wrn_append) simp_all
  moreover have "wr8 54 129 ((?H @ [m' ! 0, m ! 1]) @ to_le 2 (0 :: u16) @ (drop 4 m @ rest)) =
      Some (?H @ ?a @ rest)"
    using lH by (simp add: wr8_def to_le_2 list_update_append)
  moreover have "rdn 22 16 (?H @ ?a @ rest) = Some src"
    using header_reads(7,10) [OF len refl] by (simp add: rdn_def del: append_Cons)
  ultimately have "icmp6_handle efi d' (length m) s1 =
      do { (_, s) \<leftarrow> icmp6_send efi (?H @ ?a @ rest) 54 (length m) src s1; Some s }"
    using h m by (simp add: icmp6_handle_def)
  moreover have "take (length m) (drop 54 (?H @ ?a @ rest)) = ?a" using lH m4 by (intro slice_append) auto
  moreover have "addrs_ok s1" "drv_idle efi inflight A s1"
    using ok idle len by (auto simp: s1 addrs_ok_def)
  ultimately show ?thesis
    using icmp6_reply [of efi inflight A s1 src 54 "length m" "?H @ ?a @ rest"] n(1) lH m4 len(3) h(1)
    by simp
qed

section \<open>Any frame at all\<close>

text \<open>The invariant of the stack between two events: no buffer is lost, the addresses have
  their sizes.\<close>

definition stack_ok :: "('f, 'x) net_fw_scheme \<Rightarrow> ('f \<Rightarrow> u64 set) \<Rightarrow> u64 set \<Rightarrow>
    ('f, 'a) inet6_scheme \<Rightarrow> bool" where
  "stack_ok efi inflight A s = (drv_idle efi inflight A s \<and> addrs_ok s)"

lemma drv_idle_frame:
  assumes "untouched s' = untouched s" and "drv_idle efi inflight A s'" and "stack_ok efi inflight A s"
  shows "stack_ok efi inflight A (s' :: ('f, 'a) inet6_scheme)" and "inet6.more s' = inet6.more s"
proof -
  show "stack_ok efi inflight A s'"
    using assms untouched_inet6(1) [OF assms(1)] by (simp add: stack_ok_def)
  show "inet6.more s' = inet6.more s" using assms(1) by (rule untouched_inet6)
qed

lemma stack_ok_printf [simp]: "stack_ok efi inflight A (printf fmt args s) = stack_ok efi inflight A s"
  by (simp add: stack_ok_def drv_idle_def accounted_def pool_def printf_def addrs_ok_def)

lemma more_printf [simp]: "inet6.more (printf fmt args s) = inet6.more s"
  by (simp add: printf_def)

lemma BAD_ok: "\<exists>s'. BAD n s = Some s' \<and> stack_ok efi inflight A s' = stack_ok efi inflight A s \<and>
    inet6.more s' = inet6.more s"
  by (simp add: BAD_def)

lemma checksum_defined:
  "off + len + len mod 2 \<le> length d \<Longrightarrow> len \<le> 131068 \<Longrightarrow> \<exists>r. checksum d off len sm = Some r"
  by (simp add: inet.cks_slice)

lemma zero_field_ok:
  assumes "off + 2 \<le> length d"
  shows "\<exists>d'. (if c = (0xFFFF :: u16) then wr16 off 0 d else Some d) = Some d' \<and> length d' = length d"
  using assms acc16.wr_defined [of off 0 d] by (auto dest: acc16.wr_length)

lemma rd16_ok: "off + 2 \<le> length d \<Longrightarrow> \<exists>w. rd16 off d = Some w"
  by (simp add: rd16_def rdn_def)

text \<open>
  The interface between the stack and the client that implements \<open>udp6_recv\<close>. The client may
  use the send function and keeps its own state, of which \<open>extra\<close> is the invariant; it promises
  to return, to lose no buffer and to keep \<open>extra\<close>, for any payload in the receive buffer.
\<close>

locale udp_service =
  fixes efi :: "('f, 'x) net_fw_scheme" and inflight :: "'f \<Rightarrow> u64 set" and A :: "u64 set"
    and recv :: "('f, 'a) inet6_scheme udp_client" and extra :: "('f, 'a) inet6_scheme \<Rightarrow> bool"
  assumes recv_ok: "stack_ok efi inflight A s \<Longrightarrow> extra s \<Longrightarrow> length d = ETH_MTU \<Longrightarrow>
    62 + n \<le> ETH_MTU \<Longrightarrow> length dst = 16 \<Longrightarrow> length src = 16 \<Longrightarrow>
    \<exists>s'. recv d 62 n dst dport src sport s = Some s' \<and> stack_ok efi inflight A s' \<and> extra s'"
    and extra_more: "inet6.more s' = inet6.more s \<Longrightarrow> extra s' = extra s"
begin

definition good :: "('f, 'a) inet6_scheme \<Rightarrow> bool" where
  "good s = (stack_ok efi inflight A s \<and> extra s)"

lemma BAD_good: "good s \<Longrightarrow> \<exists>s'. BAD n s = Some s' \<and> good s'"
  using BAD_ok [of n s efi inflight A] extra_more [of _ s] unfolding good_def by metis

lemma udp6_input_good:
  assumes "good s" and d: "length d = ETH_MTU" and "len \<le> 1460"
  shows "\<exists>s'. udp6_input recv d len s = Some s' \<and> good s'"
proof -
  note bad = BAD_good [OF assms(1)]
  obtain c where c: "rd16 60 d = Some c" using rd16_ok [of 60 d] d by auto
  obtain d' where d': "(if c = 0xFFFF then wr16 60 0 d else Some d) = Some d'" "length d' = ETH_MTU"
    using zero_field_ok [of 60 d c] d by auto
  obtain sm where sm: "checksum d' 18 2 (swap16 (ucast HDR_UDP)) = Some sm"
    using checksum_defined [of 18 2 d'] d' by auto
  have "32 + len + (32 + len) mod 2 \<le> 1492" using assms(3) by presburger
  then obtain sm2 where sm2: "checksum d' 22 (32 + len) sm = Some sm2"
    using checksum_defined [of 22 "32 + len" d' sm] d' by auto
  obtain l dp sp where r: "rd16 58 d' = Some l" "rd16 56 d' = Some dp" "rd16 54 d' = Some sp"
    using rd16_ok [of 58 d'] rd16_ok [of 56 d'] rd16_ok [of 54 d'] d' by auto
  have a: "rdn 38 16 d' = Some (take 16 (drop 38 d'))" "rdn 22 16 d' = Some (take 16 (drop 22 d'))"
    using d' by (simp_all add: rdn_def)
  have "\<exists>s'. recv d' 62 (unat (swap16 l) - 8) (take 16 (drop 38 d')) (swap16 dp)
      (take 16 (drop 22 d')) (swap16 sp) s = Some s' \<and> good s'" if "unat (swap16 l) \<le> len"
    using recv_ok [of s d' "unat (swap16 l) - 8"] assms that d' by (auto simp: good_def)
  then show ?thesis
    using bad unfolding udp6_input_def c Option.bind.simps d' sm sm2 r a Let_def by auto
qed

lemma reply_good:
  assumes "good s" and "length src = 16" and "off + n \<le> length data" and "n \<le> 1460"
  shows "\<exists>s'. do { (_, s) \<leftarrow> icmp6_send efi data off n src s; Some s } = Some s' \<and> good s'"
proof -
  have s: "drv_idle efi inflight A s" "addrs_ok s" "stack_ok efi inflight A s"
    using assms(1) by (auto simp: good_def stack_ok_def)
  obtain s' where "do { (_, s) \<leftarrow> icmp6_send efi data off n src s; Some s } = Some s'"
      "drv_idle efi inflight A s'" "untouched s' = untouched s"
    using icmp6_reply [OF s(1,2) assms(2-4)] by blast
  with drv_idle_frame [of s' s efi inflight A] s(3) assms(1) extra_more [of s' s] show ?thesis
    by (simp add: good_def)
qed

lemma icmp6_handle_good:
  assumes "good s" and d: "length d = ETH_MTU" and len: "len \<le> 1460"
  shows "\<exists>s'. icmp6_handle efi d len s = Some s' \<and> good s'"
proof -
  note bad = BAD_good [OF assms(1)]
  have ok: "addrs_ok s" using assms(1) by (simp add: good_def stack_ok_def)
  have r: "rd8 54 d = Some (d ! 54)" "rd8 55 d = Some (d ! 55)" "rdn 22 16 d = Some (take 16 (drop 22 d))"
    using d by (simp_all add: rd8_def rdn_def)
  obtain c where c: "memcmp d 62 (ll_ip6_addr s) 0 16 = Some c"
    using memcmp_defined [of 62 16 d 0 "ll_ip6_addr s"] d ok by (auto simp: addrs_ok_def)
  define adv where "adv = [136, 0, 0, 0, 0x60, 0, 0, 0] @ ll_ip6_addr s @ [2, 1] @ ll_mac_addr s"
  have adv: "ndp_advert s = Some adv" "length adv = 32"
    using ndp_advert_eq [OF ok] ok by (simp_all add: adv_def addrs_ok_def)
  have ndp: "\<exists>s'. do { (_, s) \<leftarrow> icmp6_send efi adv 0 32 (take 16 (drop 22 d)) s; Some s } = Some s' \<and> good s'"
    using d adv by (intro reply_good [OF assms(1)]) auto
  obtain d2 where d2: "wr16 56 0 d = Some d2" "length d2 = ETH_MTU"
    using zero_field_ok [of 56 d "0xFFFF"] d by auto
  obtain d3 where d3: "wr8 54 129 d2 = Some d3" "length d3 = ETH_MTU" using d2 by (simp add: wr8_def)
  have r3: "rdn 22 16 d3 = Some (take 16 (drop 22 d3))" using d3 by (simp add: rdn_def)
  have echo: "\<exists>s'. do { (_, s) \<leftarrow> icmp6_send efi d3 54 len (take 16 (drop 22 d3)) s; Some s } = Some s' \<and> good s'"
    using d3 len by (intro reply_good [OF assms(1)]) auto
  show ?thesis
    using bad ndp echo unfolding icmp6_handle_def r c adv d2 d3 r3 Option.bind.simps by auto
qed

lemma icmp6_recv_good:
  assumes "good s" and d: "length d = ETH_MTU" and "len \<le> 1460"
  shows "\<exists>s'. icmp6_recv efi d len s = Some s' \<and> good s'"
proof -
  obtain c where c: "rd16 56 d = Some c" using rd16_ok [of 56 d] d by auto
  obtain d' where d': "(if c = 0xFFFF then wr16 56 0 d else Some d) = Some d'" "length d' = ETH_MTU"
    using zero_field_ok [of 56 d c] d by auto
  obtain sm where sm: "checksum d' 18 2 (swap16 (ucast HDR_ICMP6)) = Some sm"
    using checksum_defined [of 18 2 d'] d' by auto
  have "32 + len + (32 + len) mod 2 \<le> 1492" using assms(3) by presburger
  then obtain sm2 where sm2: "checksum d' 22 (32 + len) sm = Some sm2"
    using checksum_defined [of 22 "32 + len" d' sm] d' by auto
  show ?thesis
    using BAD_good [OF assms(1)] icmp6_handle_good [OF assms(1) d'(2) assms(3)]
    unfolding icmp6_recv_def c Option.bind.simps d' sm sm2 by auto
qed

lemma eth_recv_good:
  assumes good: "good s" and d: "length d = ETH_MTU" and "flen \<le> ETH_MTU"
  shows "\<exists>s'. eth_recv efi recv d flen s = Some s' \<and> good s'"
proof -
  have ok: "addrs_ok s" using good by (simp add: good_def stack_ok_def)
  obtain c1 c2 where c: "memcmp (ll_ip6_addr s) 0 d 38 16 = Some c1" "memcmp (snm_ip6_addr s) 0 d 38 16 = Some c2"
    using memcmp_defined [of 0 16 "ll_ip6_addr s" 38 d] memcmp_defined [of 0 16 "snm_ip6_addr s" 38 d]
      d ok by (auto simp: addrs_ok_def)
  have m: "memcpy (rx_mac_addr s) 0 d 6 6 = Some (take 6 (drop 6 d))"
      "memcpy (rx_ip6_addr s) 0 d 22 16 = Some (take 16 (drop 22 d))"
    using ok d by (simp_all add: memcpy_slice addrs_ok_def wrn_def)
  let ?s = "s\<lparr>rx_mac_addr := take 6 (drop 6 d), rx_ip6_addr := take 16 (drop 22 d)\<rparr>"
  have good': "good ?s" using good d extra_more [of ?s s] by (simp add: good_def stack_ok_def addrs_ok_def)
  have r: "rd8 12 d = Some (d ! 12)" "rd8 13 d = Some (d ! 13)" "rd8 20 d = Some (d ! 20)"
      "rd32 14 d = Some (of_le (take 4 (drop 14 d)))" "rd16 18 d = Some (of_le (take 2 (drop 18 d)))"
    using d by (simp_all add: rd8_def rd16_def rd32_def rdn_def)
  have c2: "(if c1 \<noteq> 0 then Some c2 else Some 0) = Some (if c1 \<noteq> 0 then c2 else 0)" by simp
  have disp: "\<exists>s'. icmp6_recv efi d n ?s = Some s' \<and> good s'" "\<exists>s'. udp6_input recv d n ?s = Some s' \<and> good s'"
    if "\<not> n > flen - 54" for n
    using icmp6_recv_good [OF good' d, of n] udp6_input_good [OF good' d, of n] that assms(3) by auto
  show ?thesis
    using BAD_good [OF good] BAD_good [OF good'] disp good
    unfolding eth_recv_def r c m c2 Option.bind.simps Let_def by auto
qed

end

end
