(* ===== verification/Printf_Spec.thy ===== *)
theory Printf_Spec
  imports Printf
begin

unbundle bit_operations_syntax

text \<open>
  What the formatted output of \<^verbatim>\<open>third_party/lk/src/printf.c\<close> produces: integers come
  out as their decimal and hexadecimal digits and never leave the 32-byte scratch buffer, in
  fields of the width and with the padding asked for; the text a format yields does not depend on the output function; and \<open>vsnprintf\<close> writes that text,
  cut to the buffer and terminated.
\<close>

section \<open>Digits\<close>

fun dec_digits :: "nat \<Rightarrow> bytes" where
  "dec_digits n = (if n < 10 then [of_nat n + 48] else dec_digits (n div 10) @ [of_nat (n mod 10) + 48])"

fun hex_digits :: "bytes \<Rightarrow> nat \<Rightarrow> bytes" where
  "hex_digits table n =
     (if n < 16 then [table ! n] else hex_digits table (n div 16) @ [table ! (n mod 16)])"

declare dec_digits.simps [simp del] hex_digits.simps [simp del]

lemma digits_length:
  "n < 10 ^ Suc k \<Longrightarrow> length (dec_digits n) \<le> Suc k"
  "n < 16 ^ Suc k \<Longrightarrow> length (hex_digits table n) \<le> Suc k"
proof (induction k arbitrary: n)
  case 0
  { case 1 then show ?case by (simp add: dec_digits.simps) }
  { case 2 then show ?case by (simp add: hex_digits.simps) }
next
  case (Suc k)
  { case 1
    then have "n div 10 < 10 ^ Suc k" by (simp add: div_less_iff_less_mult)
    then show ?case using Suc.IH(1) by (subst dec_digits.simps) auto }
  { case 2
    then have "n div 16 < 16 ^ Suc k" by (simp add: div_less_iff_less_mult)
    then show ?case using Suc.IH(2) by (subst hex_digits.simps) auto }
qed

lemma put_rev_eq:
  assumes "0 < pos" and "pos \<le> length buf"
  shows "put_rev b buf pos = Some (take (pos - 1) buf @ b # drop pos buf, pos - 1)"
  using assms by (simp add: put_rev_def wr8_wrn wrn_def)

lemma back_write:
  assumes "0 < pos" and "pos \<le> length buf"
  shows "take (pos - 1 - k) (take (pos - 1) buf @ b # drop pos buf) @ D @
      drop (pos - 1) (take (pos - 1) buf @ b # drop pos buf) =
    take (pos - 1 - k) buf @ D @ b # drop pos buf"
proof -
  have "length (take (pos - 1) buf) = pos - 1" using assms by simp
  then show ?thesis by (simp add: min_absorb1)
qed

text \<open>Writing backwards: after \<open>ds\<close> was written the buffer holds \<open>ds\<close> from the new position on.\<close>

lemma dec_loop_digits:
  assumes "length (dec_digits (unat n)) \<le> pos" and "pos \<le> length buf"
  shows "\<exists>buf' pos' m. dec_loop buf pos n = Some (buf', pos', m) \<and> 0 < pos' \<and> unat m < 10 \<and>
    take (pos' - 1) buf' @ (ucast m + 48) # drop pos' buf' =
      take (pos - length (dec_digits (unat n))) buf @ dec_digits (unat n) @ drop pos buf \<and>
    pos' = pos - (length (dec_digits (unat n)) - 1) \<and> length buf' = length buf"
  using assms
proof (induction buf pos n rule: dec_loop.induct)
  case (1 buf pos n)
  show ?case
  proof (cases "n \<ge> 10")
    case False
    then have n: "unat n < 10" by (simp add: word_le_nat_alt not_le)
    then have d: "dec_digits (unat n) = [ucast n + 48]"
      by (simp add: dec_digits.simps)
    with False n 1(2,3) show ?thesis by (subst dec_loop.simps) auto
  next
    case True
    let ?n = "unat n" and ?q = "n div 10"
    have q: "unat ?q = ?n div 10" by (simp add: unat_div)
    have n: "\<not> ?n < 10" using True by (simp add: word_le_nat_alt)
    have d: "dec_digits ?n = dec_digits (unat ?q) @ [ucast (n mod 10) + 48]"
      using n by (subst dec_digits.simps) (simp add: q unat_mod flip: of_nat_unat [of "n mod 10"])
    let ?buf = "take (pos - 1) buf @ (ucast (n mod 10) + 48) # drop pos buf"
    have pr: "put_rev (ucast (n mod 10) + 48) buf pos = Some (?buf, pos - 1)"
      using 1(2,3) d by (intro put_rev_eq) auto
    let ?D = "dec_digits (unat ?q)"
    have "\<exists>buf' pos' m. dec_loop ?buf (pos - 1) ?q = Some (buf', pos', m) \<and> 0 < pos' \<and> unat m < 10 \<and>
        take (pos' - 1) buf' @ (ucast m + 48) # drop pos' buf' =
          take (pos - 1 - length ?D) ?buf @ ?D @ drop (pos - 1) ?buf \<and>
        pos' = pos - 1 - (length ?D - 1) \<and> length buf' = length ?buf"
      using 1(2,3) d by (intro "1.IH" [OF True refl pr refl]) auto
    then obtain buf' pos' m where IH: "dec_loop ?buf (pos - 1) ?q = Some (buf', pos', m)" "0 < pos'" "unat m < 10"
        "take (pos' - 1) buf' @ (ucast m + 48) # drop pos' buf' =
          take (pos - 1 - length ?D) ?buf @ ?D @ drop (pos - 1) ?buf"
        "pos' = pos - 1 - (length ?D - 1)" "length buf' = length ?buf" by blast
    have D: "0 < length ?D" by (subst dec_digits.simps) auto
    have "dec_loop buf pos n = Some (buf', pos', m)"
      using True pr IH(1) by (subst dec_loop.simps) simp
    moreover have "take (pos - 1 - length ?D) ?buf @ ?D @ drop (pos - 1) ?buf =
        take (pos - length (dec_digits ?n)) buf @ dec_digits ?n @ drop pos buf"
      using 1(2,3) d by (subst back_write) auto
    moreover have "pos' = pos - (length (dec_digits ?n) - 1)" "length buf' = length buf"
      using IH(5,6) d D 1(2,3) by auto
    ultimately show ?thesis using IH by metis
  qed
qed

definition sign_char :: "bool \<Rightarrow> u32 \<Rightarrow> u8" where
  "sign_char negative flag =
     (if negative then chr8 CHR ''-'' else if has flag SHOWSIGNFLAG then chr8 CHR ''+''
      else if has flag BLANKPOSFLAG then chr8 CHR '' '' else 0)"

lemma dec_digits_u64: "length (dec_digits (unat (n :: u64))) \<le> 20"
proof -
  have "unat n < 10 ^ Suc 19" using unat_bound [of n] by simp
  from digits_length(1) [OF this] show ?thesis by simp
qed

lemma hex_digits_u64: "length (hex_digits table (unat (n :: u64))) \<le> 16"
proof -
  have "unat n < 16 ^ Suc 15" using unat_bound [of n] by simp
  from digits_length(2) [OF this] show ?thesis by simp
qed

lemma longlong_to_string_eq:
  assumes "21 \<le> len" and "len \<le> length buf"
    and "neg = (has flag SIGNEDFLAG \<and> sint n < 0)" and "D = dec_digits (unat (if neg then - n else n))"
  shows "longlong_to_string buf n len flag =
    Some (take (len - 1 - length D) buf @ D @ 0 # drop len buf, len - 1 - length D, sign_char neg flag)"
proof -
  let ?v = "if neg then - n else n" and ?buf = "take (len - 1) buf @ 0 # drop len buf"
  have D: "length D \<le> 20" using dec_digits_u64 [of ?v] assms(4) by simp
  have p0: "put_rev 0 buf len = Some (?buf, len - 1)" using assms(1,2) by (intro put_rev_eq) auto
  have "length D \<le> len - 1" "len - 1 \<le> length ?buf" using D assms(1,2) by auto
  then obtain buf' pos' m where l: "dec_loop ?buf (len - 1) ?v = Some (buf', pos', m)" "0 < pos'"
      "take (pos' - 1) buf' @ (ucast m + 48) # drop pos' buf' =
         take (len - 1 - length D) ?buf @ D @ drop (len - 1) ?buf"
      "pos' = len - 1 - (length D - 1)" "length buf' = length ?buf"
    using dec_loop_digits [of ?v "len - 1" ?buf] unfolding assms(4) [symmetric] by metis
  have "put_rev (ucast m + 48) buf' pos' =
      Some (take (pos' - 1) buf' @ (ucast m + 48) # drop pos' buf', pos' - 1)"
    using l(2,4,5) assms(1,2) by (intro put_rev_eq) auto
  moreover have "0 < length D" unfolding assms(4) by (subst dec_digits.simps) auto
  moreover have "take (len - 1 - length D) ?buf @ D @ drop (len - 1) ?buf =
      take (len - 1 - length D) buf @ D @ 0 # drop len buf"
    using assms(1,2) by (intro back_write) auto
  ultimately have "put_rev (ucast m + 48) buf' pos' =
      Some (take (len - 1 - length D) buf @ D @ 0 # drop len buf, len - 1 - length D)"
    using l(3,4) D assms(1) by simp
  then show ?thesis
    by (simp only: longlong_to_string_def assms(3) [symmetric] Let_def p0 l(1) Option.bind.simps
          prod.case sign_char_def)
qed

lemma hex_loop_digits:
  assumes "length (hex_digits table (unat u)) \<le> pos" and "pos \<le> length buf" and "length table = 16"
  shows "hex_loop table buf pos u =
    Some (take (pos - length (hex_digits table (unat u))) buf @ hex_digits table (unat u) @ drop pos buf,
          pos - length (hex_digits table (unat u)))"
  using assms
proof (induction table buf pos u rule: hex_loop.induct)
  case (1 table buf pos u)
  let ?d = "unat (u mod 16)" and ?q = "u div 16"
  have d: "?d = unat u mod 16" "unat ?q = unat u div 16" by (simp_all add: unat_mod unat_div)
  have c: "rd8 ?d table = Some (table ! ?d)" using 1(4) by (simp add: rd8_def d)
  let ?buf = "take (pos - 1) buf @ table ! ?d # drop pos buf"
  have "0 < length (hex_digits table (unat u))" by (subst hex_digits.simps) auto
  then have pr: "put_rev (table ! ?d) buf pos = Some (?buf, pos - 1)"
    using 1(2,3) by (intro put_rev_eq) linarith+
  show ?case
  proof (cases "?q = 0")
    case True
    then have "unat u div 16 = 0" using d(2) by simp
    then have "unat u < 16" by simp
    then have "hex_digits table (unat u) = [table ! ?d]" by (subst hex_digits.simps) (simp add: d)
    with True c pr show ?thesis by (subst hex_loop.simps) simp
  next
    case False
    then have "unat ?q \<noteq> 0" by (simp add: unat_eq_0)
    then have "\<not> unat u < 16" using d(2) by auto
    then have h: "hex_digits table (unat u) = hex_digits table (unat ?q) @ [table ! ?d]"
      by (subst hex_digits.simps) (simp add: d)
    have "hex_loop table ?buf (pos - 1) ?q =
        Some (take (pos - 1 - length (hex_digits table (unat ?q))) ?buf @ hex_digits table (unat ?q) @
              drop (pos - 1) ?buf, pos - 1 - length (hex_digits table (unat ?q)))"
      using False 1(2-4) h by (intro "1.IH" [OF refl refl c pr refl]) auto
    moreover have "take (pos - 1 - length (hex_digits table (unat ?q))) ?buf @ hex_digits table (unat ?q) @
        drop (pos - 1) ?buf = take (pos - length (hex_digits table (unat u))) buf @
        hex_digits table (unat u) @ drop pos buf"
      using 1(2,3) h by (subst back_write) auto
    ultimately show ?thesis using False c pr h by (subst hex_loop.simps) simp
  qed
qed

lemma longlong_to_hexstring_eq:
  assumes "17 \<le> len" and "len \<le> length buf"
    and "D = hex_digits (if has flag CAPSFLAG then hextable_caps else hextable) (unat u)"
  shows "longlong_to_hexstring buf u len flag =
    Some (take (len - 1 - length D) buf @ D @ 0 # drop len buf, len - 1 - length D)"
proof -
  let ?t = "if has flag CAPSFLAG then hextable_caps else hextable"
  let ?buf = "take (len - 1) buf @ 0 # drop len buf"
  have D: "length D \<le> 16" using hex_digits_u64 [of ?t u] assms(3) by simp
  have p0: "put_rev 0 buf len = Some (?buf, len - 1)" using assms(1,2) by (intro put_rev_eq) auto
  have "length ?t = 16" by (simp add: hextable_def hextable_caps_def)
  moreover have "length D \<le> len - 1" "len - 1 \<le> length ?buf" using D assms(1,2) by auto
  ultimately have "hex_loop ?t ?buf (len - 1) u =
      Some (take (len - 1 - length D) ?buf @ D @ drop (len - 1) ?buf, len - 1 - length D)"
    using hex_loop_digits [of ?t u "len - 1" ?buf] unfolding assms(3) by blast
  moreover have "take (len - 1 - length D) ?buf @ D @ drop (len - 1) ?buf =
      take (len - 1 - length D) buf @ D @ 0 # drop len buf"
    using assms(1,2) by (intro back_write) auto
  ultimately show ?thesis by (simp only: longlong_to_hexstring_def Let_def p0 Option.bind.simps prod.case)
qed

section \<open>The text of a format\<close>

text \<open>The reference output function appends to the text written so far.\<close>

definition text_out :: "bytes outfn" where
  "text_out str text = Some (c_int (length str), text @ str)"

definition format :: "bytes \<Rightarrow> parg list \<Rightarrow> bytes presult" where
  "format fmt args = printf_engine text_out [] fmt args"

text \<open>
  The contract of an output function towards the engine: while the text written so far fits, it
  takes every string, reports its length, and its state stays related to that text. Under this
  contract the engine returns what it returns on the reference, makes the same stores, and leaves
  the output function in the state for the same text, provided that text fits.
\<close>

definition counted :: "bytes pstate \<Rightarrow> bool" where
  "counted p = (length (ps_out p) < 2147483648 \<longrightarrow> ps_written p = of_nat (length (ps_out p)))"

locale printf_sink =
  fixes out :: "'s outfn" and sink :: "bytes \<Rightarrow> 's \<Rightarrow> bool" and fits :: "bytes \<Rightarrow> bool"
  assumes out_sink: "sink text \<sigma> \<Longrightarrow> fits (text @ str) \<Longrightarrow>
      \<exists>\<sigma>'. out str \<sigma> = Some (c_int (length str), \<sigma>') \<and> sink (text @ str) \<sigma>'"
    and fits_prefix: "fits (text @ str) \<Longrightarrow> fits text"
begin

definition same :: "bytes pstate \<Rightarrow> 's pstate \<Rightarrow> bool" where
  "same p q = (ps_args p = ps_args q \<and> ps_written p = ps_written q \<and> ps_stores p = ps_stores q)"

definition rel :: "bytes pstate \<Rightarrow> 's pstate \<Rightarrow> bool" where
  "rel p q = (counted p \<and> same p q \<and> (fits (ps_out p) \<longrightarrow> sink (ps_out p) (ps_out q)))"

definition res :: "bytes \<Rightarrow> bytes presult \<Rightarrow> 's presult \<Rightarrow> bool" where
  "res t P Q = (\<forall>n p. P = Some (n, p) \<longrightarrow> (\<exists>u. ps_out p = t @ u) \<and>
     (length (ps_out p) < 2147483648 \<longrightarrow> n = int (length (ps_out p))) \<and>
     (fits (ps_out p) \<longrightarrow> (\<exists>q. Q = Some (n, q) \<and> sink (ps_out p) (ps_out q) \<and> ps_stores p = ps_stores q)))"

lemma res_unfit: "res t P Q \<Longrightarrow> \<not> fits t \<Longrightarrow> res t P Q'"
  using fits_prefix unfolding res_def by metis

lemma res_shorter: "res (t @ u) P Q \<Longrightarrow> res t P Q"
  unfolding res_def by (metis append.assoc)

lemma res_None [simp]: "res t None Q"
  by (simp add: res_def)

lemma c_int_small: "n < 2147483648 \<Longrightarrow> c_int n = int n"
  by (simp add: c_int_def signed_of_nat signed_take_bit_int_eq_self)

lemma OUTPUT_STRING_res:
  assumes "rel p q" and k: "\<And>e p q. rel p q \<Longrightarrow> res (ps_out p) (k e p) (k' e q)"
  shows "res (ps_out p) (OUTPUT_STRING text_out str p k) (OUTPUT_STRING out str q k')"
proof -
  let ?e = "c_int (length str)"
  let ?p = "p\<lparr>ps_out := ps_out p @ str, ps_written := ps_written p + word_of_int ?e\<rparr>"
  have P: "OUTPUT_STRING text_out str p k =
      (if ?e < 0 then Some (?e, p\<lparr>ps_out := ps_out p @ str\<rparr>) else k ?e ?p)"
    by (simp add: OUTPUT_STRING_def text_out_def Let_def)
  have small: "\<not> ?e < 0" if "length str < 2147483648" using that by (simp add: c_int_small)
  have cnt: "counted ?p" using assms(1) by (auto simp: rel_def counted_def c_int_small)
  show ?thesis
  proof (cases "fits (ps_out p @ str)")
    case True
    then obtain \<sigma>' where "out str (ps_out q) = Some (?e, \<sigma>')" and s: "sink (ps_out p @ str) \<sigma>'"
      using out_sink assms(1) fits_prefix unfolding rel_def by blast
    then have Q: "OUTPUT_STRING out str q k' = (if ?e < 0 then Some (?e, q\<lparr>ps_out := \<sigma>'\<rparr>)
        else k' ?e (q\<lparr>ps_out := \<sigma>', ps_written := ps_written q + word_of_int ?e\<rparr>))"
      by (simp add: OUTPUT_STRING_def Let_def)
    have "rel ?p (q\<lparr>ps_out := \<sigma>', ps_written := ps_written q + word_of_int ?e\<rparr>)"
      using assms(1) s cnt by (simp add: rel_def same_def)
    from k [OF this, of ?e] have "res (ps_out p) (k ?e ?p) (k' ?e (q\<lparr>ps_out := \<sigma>',
        ps_written := ps_written q + word_of_int ?e\<rparr>))" by (auto intro: res_shorter)
    then show ?thesis
      unfolding P Q using assms(1) s small by (auto simp: res_def rel_def same_def)
  next
    case False
    let ?q = "q\<lparr>ps_written := ps_written q + word_of_int ?e\<rparr>"
    have "rel ?p ?q" using assms(1) False cnt by (simp add: rel_def same_def)
    from k [OF this, of ?e] have "res (ps_out p @ str) (k ?e ?p) (k' ?e ?q)" by simp
    then have "res (ps_out p) (k ?e ?p) Q" for Q using False by (blast intro: res_shorter res_unfit)
    then show ?thesis unfolding P using False small by (auto simp: res_def)
  qed
qed

lemma pad_res:
  "rel p q \<Longrightarrow> (\<And>p q. rel p q \<Longrightarrow> res (ps_out p) (k p) (k' q)) \<Longrightarrow>
     res (ps_out p) (pad text_out c n bound p k) (pad out c n bound q k')"
proof (induction n arbitrary: p q)
  case 0
  then show ?case by (simp add: pad.simps [of _ _ 0])
next
  case (Suc n)
  then show ?case by (subst (1 2) pad.simps) (auto intro!: OUTPUT_STRING_res)
qed

lemma output_string_res:
  assumes "rel p q" and "\<And>p q. rel p q \<Longrightarrow> res (ps_out p) (k p) (k' q)"
  shows "res (ps_out p) (output_string text_out s flags num sc p k) (output_string out s flags num sc q k')"
  using assms unfolding output_string_def Let_def
  by (cases "strlen s 0"; simp; cases "rdn 0 (the (strlen s 0)) s"; simp)
     (auto intro!: OUTPUT_STRING_res pad_res)

lemma bind_res: "(\<And>x. m = Some x \<Longrightarrow> res t (f x) (g x)) \<Longrightarrow> res t (m \<bind> f) (m \<bind> g)"
  by (cases m) auto

lemma va_res:
  assumes "rel p q"
  shows "(\<And>w p q. rel p q \<Longrightarrow> res (ps_out p) (f (w, p)) (g (w, q))) \<Longrightarrow>
      res (ps_out p) (va_int p \<bind> f) (va_int q \<bind> g)"
    and "(\<And>w p q. rel p q \<Longrightarrow> res (ps_out p) (f' (w, p)) (g' (w, q))) \<Longrightarrow>
      res (ps_out p) (va_str p \<bind> f') (va_str q \<bind> g')"
    and "(\<And>w p q. rel p q \<Longrightarrow> res (ps_out p) (f (w, p)) (g (w, q))) \<Longrightarrow>
      res (ps_out p) (va_double p \<bind> f) (va_double q \<bind> g)"
proof -
  have r: "rel (p\<lparr>ps_args := a\<rparr>) (q\<lparr>ps_args := a\<rparr>)" for a
    using assms by (auto simp: rel_def counted_def same_def)
  have eq: "ps_args p = ps_args q" using assms by (simp add: rel_def same_def)
  have o: "ps_out p = ps_out (p\<lparr>ps_args := a\<rparr>)" for a by simp
  show "(\<And>w p q. rel p q \<Longrightarrow> res (ps_out p) (f (w, p)) (g (w, q))) \<Longrightarrow>
      res (ps_out p) (va_int p \<bind> f) (va_int q \<bind> g)"
    and "(\<And>w p q. rel p q \<Longrightarrow> res (ps_out p) (f' (w, p)) (g' (w, q))) \<Longrightarrow>
      res (ps_out p) (va_str p \<bind> f') (va_str q \<bind> g')"
    and "(\<And>w p q. rel p q \<Longrightarrow> res (ps_out p) (f (w, p)) (g (w, q))) \<Longrightarrow>
      res (ps_out p) (va_double p \<bind> f) (va_double q \<bind> g)"
    using r by (auto simp: eq split: list.split parg.split, (subst o, blast)+)
qed

lemma conv_hex_res:
  assumes "rel p q" and "\<And>p q. rel p q \<Longrightarrow> res (ps_out p) (k p) (k' q)"
  shows "res (ps_out p) (conv_hex text_out flags num p k) (conv_hex out flags num q k')"
  using assms unfolding conv_hex_def Let_def
  by (auto intro!: va_res(1) bind_res OUTPUT_STRING_res output_string_res simp del: va_int.simps)

lemma conv_res:
  assumes "rel p q" and k: "\<And>p q. rel p q \<Longrightarrow> res (ps_out p) (k p) (k' q)"
  shows "res (ps_out p) (conv text_out c flags num p k) (conv out c flags num q k')"
proof -
  have n: "res (ps_out p) (k (p\<lparr>ps_stores := ps_stores p @ [(w, b, ps_written p)]\<rparr>))
      (k' (q\<lparr>ps_stores := ps_stores q @ [(w, b, ps_written q)]\<rparr>))" if "rel p q" for p q w b
    using k [of "p\<lparr>ps_stores := ps_stores p @ [(w, b, ps_written p)]\<rparr>"
        "q\<lparr>ps_stores := ps_stores q @ [(w, b, ps_written q)]\<rparr>"] that
    by (auto simp: rel_def counted_def same_def)
  with assms show ?thesis unfolding conv_def Let_def
    by (auto intro!: va_res bind_res OUTPUT_STRING_res output_string_res conv_hex_res
          simp del: va_int.simps va_str.simps va_double.simps)
qed

lemma engine_exit_res:
  assumes "rel p q"
  shows "res (ps_out p) (engine_exit p) (engine_exit q)"
proof -
  have "sint (ucast (ps_written p) :: u32) = int (length (ps_out p))"
    if "length (ps_out p) < 2147483648"
    using c_int_small [OF that] that assms
    by (simp add: rel_def counted_def c_int_def unsigned_of_nat take_bit_nat_eq_self)
  with assms show ?thesis by (auto simp: res_def engine_exit_def rel_def same_def)
qed

lemma engine_res:
  "rel p q \<Longrightarrow> res (ps_out p) (engine text_out fmt p) (engine out fmt q)"
  "rel p q \<Longrightarrow> res (ps_out p) (next_format text_out fmt flags num p) (next_format out fmt flags num q)"
proof (induction "length fmt" arbitrary: fmt p q flags num rule: less_induct)
  case less
  { case 1
    show ?case
    proof (cases "scan_lit fmt")
      case None
      then show ?thesis by (simp add: engine.simps)
    next
      case (Some a)
      obtain lit c rest where a: "a = (lit, c, rest)" by (cases a)
      with Some have "length rest < length fmt" using scan_lit_shorter by blast
      with less(2) 1 Some a show ?thesis
        by (simp add: engine.simps) (intro OUTPUT_STRING_res, auto intro: engine_exit_res)
    qed }
  { case 2
    show ?case
    proof (cases fmt)
      case Nil
      then show ?thesis by simp
    next
      case (Cons c rest)
      with less 2 show ?thesis
        by (auto split: option.split intro!: conv_res intro: engine_exit_res)
    qed }
qed

text \<open>The simulation.\<close>

lemma engine_sink:
  assumes "sink [] \<sigma>" and "format fmt args = Some (n, p)"
  shows "length (ps_out p) < 2147483648 \<Longrightarrow> n = int (length (ps_out p))"
    and "fits (ps_out p) \<Longrightarrow> \<exists>q. printf_engine out \<sigma> fmt args = Some (n, q) \<and>
      sink (ps_out p) (ps_out q) \<and> ps_stores p = ps_stores q"
proof -
  have "res [] (format fmt args) (printf_engine out \<sigma> fmt args)"
    using engine_res(1) [of "\<lparr>ps_out = [], ps_args = args, ps_written = 0, ps_stores = []\<rparr>"
        "\<lparr>ps_out = \<sigma>, ps_args = args, ps_written = 0, ps_stores = []\<rparr>" fmt] assms(1)
    by (simp add: format_def printf_engine_def rel_def same_def counted_def)
  with assms(2) show "length (ps_out p) < 2147483648 \<Longrightarrow> n = int (length (ps_out p))"
    "fits (ps_out p) \<Longrightarrow> \<exists>q. printf_engine out \<sigma> fmt args = Some (n, q) \<and>
      sink (ps_out p) (ps_out q) \<and> ps_stores p = ps_stores q"
    by (auto simp: res_def)
qed

end

section \<open>Printing into a buffer\<close>

text \<open>\<open>vsnprintf_output\<close> after the text \<open>t\<close>: as much of it as the length allows is in the buffer.\<close>

definition buf_sink :: "bytes \<Rightarrow> nat \<Rightarrow> nat \<Rightarrow> bytes \<Rightarrow> output_args \<Rightarrow> bool" where
  "buf_sink str base len t a =
     (base \<le> length str \<and> a = \<lparr>outstr = take base str @ take len t @ drop (base + min len (length t)) str,
      oa_base = base, oa_len = len, oa_pos = min len (length t)\<rparr>)"

lemma vsnprintf_loop_sink:
  assumes "buf_sink str base len t a" and "base + min len (length (t @ cs)) \<le> length str"
  shows "\<exists>a'. vsnprintf_loop cs a = Some a' \<and> buf_sink str base len (t @ cs) a'"
  using assms
proof (induction cs arbitrary: t a)
  case Nil
  then show ?case by simp
next
  case (Cons c cs)
  have step: "\<exists>a'. (if oa_pos a < oa_len a then do { d \<leftarrow> wr8 (oa_base a + oa_pos a) c (outstr a);
        Some (a\<lparr>outstr := d, oa_pos := oa_pos a + 1\<rparr>) } else Some a) = Some a' \<and>
      buf_sink str base len (t @ [c]) a'"
  proof (cases "length t < len")
    case True
    with Cons.prems have b: "base + length t < length str" by auto
    let ?d = "take base str @ t @ drop (base + length t) str"
    have "drop (base + length t) str = str ! (base + length t) # drop (base + length t + 1) str"
      using b by (simp add: Cons_nth_drop_Suc)
    then have "?d[base + length t := c] = take base str @ t @ c # drop (base + length t + 1) str"
      using b by (simp add: list_update_append)
    with True Cons.prems(1) b show ?thesis by (auto simp: buf_sink_def wr8_def)
  next
    case False
    with Cons.prems(1) show ?thesis by (auto simp: buf_sink_def)
  qed
  then obtain a' where a': "buf_sink str base len (t @ [c]) a'"
      "(if oa_pos a < oa_len a then do { d \<leftarrow> wr8 (oa_base a + oa_pos a) c (outstr a);
        Some (a\<lparr>outstr := d, oa_pos := oa_pos a + 1\<rparr>) } else Some a) = Some a'" by blast
  obtain a'' where "vsnprintf_loop cs a' = Some a''" "buf_sink str base len ((t @ [c]) @ cs) a''"
    using Cons.IH [OF a'(1)] Cons.prems(2) by auto
  then show ?case using a'(2) by (auto simp: Option.bind_eq_Some_conv split: if_splits)
qed

interpretation buffer: printf_sink vsnprintf_output "buf_sink str base len"
  "\<lambda>t. base + min len (length t) \<le> length str" for str base len
proof
  fix t a cs
  show "buf_sink str base len t a \<Longrightarrow> base + min len (length (t @ cs)) \<le> length str \<Longrightarrow>
      \<exists>a'. vsnprintf_output cs a = Some (c_int (length cs), a') \<and> buf_sink str base len (t @ cs) a'"
    using vsnprintf_loop_sink [of str base len t a cs] by (auto simp: vsnprintf_output_def)
  show "base + min len (length (t @ cs)) \<le> length str \<Longrightarrow> base + min len (length t) \<le> length str"
    by auto
qed

text \<open>The text of the format, cut to \<open>len - 1\<close> characters and terminated; the result is the length
  of the whole text.\<close>

lemma vsnprintf_eq:
  assumes f: "format fmt args = Some (n, p)" and t: "t = ps_out p" "length t < 2147483648"
    and len: "0 < len" and b: "base + min len (length t + 1) \<le> length str"
  shows "vsnprintf str base len fmt args = Some (int (length t),
    take base str @ take (len - 1) t @ 0 # drop (base + min len (length t + 1)) str, ps_stores p)"
proof -
  let ?a = "\<lparr>outstr = str, oa_base = base, oa_len = len, oa_pos = 0\<rparr>"
  have init: "buf_sink str base len [] ?a" using b by (auto simp: buf_sink_def)
  have n: "n = int (length t)" using buffer.engine_sink(1) [OF init f] t by simp
  obtain q where q: "printf_engine vsnprintf_output ?a fmt args = Some (n, q)"
      "buf_sink str base len t (ps_out q)" "ps_stores p = ps_stores q"
    using buffer.engine_sink(2) [OF init f] t b by (fastforce simp: min_def split: if_splits)
  show ?thesis
  proof (cases "len \<le> length t")
    case True
    let ?d = "take base str @ take len t @ drop (base + len) str"
    have "take len t = take (len - 1) t @ [t ! (len - 1)]"
      using True len take_Suc_conv_app_nth [of "len - 1" t] by simp
    then have d: "?d = take base str @ take (len - 1) t @ t ! (len - 1) # drop (base + len) str" by simp
    have "wr8 (base + len - 1) 0 ?d = Some (take base str @ take (len - 1) t @ 0 # drop (base + len) str)"
      unfolding d using True len b by (auto simp: wr8_def list_update_append)
    with True len q n show ?thesis by (simp add: vsnprintf_def buf_sink_def Let_def)
  next
    case False
    then have b': "base + length t < length str" using b by auto
    let ?d = "take base str @ t @ drop (base + length t) str"
    have "drop (base + length t) str = str ! (base + length t) # drop (base + length t + 1) str"
      using b' by (simp add: Cons_nth_drop_Suc)
    then have "wr8 (base + length t) 0 ?d =
        Some (take base str @ t @ 0 # drop (base + length t + 1) str)"
      using b' by (auto simp: wr8_def list_update_append)
    with False q n show ?thesis by (simp add: vsnprintf_def buf_sink_def Let_def)
  qed
qed

lemma sprintf_eq:
  assumes "format (asc fmt @ [0]) args = Some (n, p)" and "t = ps_out p" and "length t < INT_MAX"
    and "base + length t < length str"
  shows "sprintf str base fmt args = Some (int (length t),
    take base str @ t @ 0 # drop (base + length t + 1) str, ps_stores p)"
  using vsnprintf_eq [OF assms(1,2), of INT_MAX base str] assms(3,4)
  by (simp add: sprintf_def vsprintf_def)

section \<open>Simple formats\<close>

lemma text_out_step:
  "length str < 2147483648 \<Longrightarrow> OUTPUT_STRING text_out str p k =
     k (int (length str)) (p\<lparr>ps_out := ps_out p @ str, ps_written := ps_written p + of_nat (length str)\<rparr>)"
  by (simp add: OUTPUT_STRING_def text_out_def buffer.c_int_small)

lemma digit_nonzero: "n < 10 \<Longrightarrow> (of_nat n + 48 :: u8) \<noteq> 0"
proof -
  assume n: "n < 10"
  have "unat (of_nat (n + 48) :: u8) = n + 48" using n by (simp only: unat_of_nat take_bit_nat_eq_self) (simp add: take_bit_nat_eq_self)
  then show ?thesis using n by (metis add_is_0 of_nat_add of_nat_numeral unat_0 zero_neq_numeral)
qed

lemma dec_digits_nonzero: "0 \<notin> set (dec_digits n)"
proof (induction n rule: less_induct)
  case (less n)
  then show ?case using digit_nonzero [of n] digit_nonzero [of "n mod 10"] less [of "n div 10"]
    by (subst dec_digits.simps) auto
qed

lemma hex_digits_caps_nonzero: "0 \<notin> set (hex_digits (if c then hextable_caps else hextable) n)"
proof (induction n rule: less_induct)
  case (less n)
  have t: "(if c then hextable_caps else hextable) ! i \<noteq> 0" if "i < 16" for i
  proof -
    have "list_all (\<lambda>c. c \<noteq> 0) (if c then hextable_caps else hextable)" by (simp add: hextable_def hextable_caps_def)
    then show ?thesis using that unfolding list_all_length by (simp add: hextable_def hextable_caps_def split: if_splits)
  qed
  show ?case
  proof (cases "n < 16")
    case True
    then show ?thesis using t [of n] by (simp add: hex_digits.simps)
  next
    case False
    then show ?thesis using less [of "n div 16"] t [of "n mod 16"] by (subst hex_digits.simps) auto
  qed
qed

lemma hex_digits_nonzero: "0 \<notin> set (hex_digits hextable n)"
  using hex_digits_caps_nonzero [of False n] by simp

lemma pad_text:
  "pad text_out c n b p k =
     k (p\<lparr>ps_out := ps_out p @ replicate (n - b) c, ps_written := ps_written p + of_nat (n - b)\<rparr>)"
proof (induction "n - b" arbitrary: n p)
  case 0
  then show ?case by (subst pad.simps) simp
next
  case (Suc m)
  then have "b < n" "m = n - 1 - b" "replicate (n - b) c = c # replicate (n - Suc b) c"
    by (simp, simp, metis Suc_diff_Suc replicate_Suc zero_less_Suc zero_less_diff)
  then show ?case
    using Suc.hyps(1) [of "n - 1" "p\<lparr>ps_out := ps_out p @ [c], ps_written := ps_written p + 1\<rparr>"] Suc.hyps(2)
    by (subst pad.simps) (simp add: text_out_step add.commute)
qed

text \<open>What the scratch buffer holds from the returned position on.\<close>

lemma num_buffer_hex:
  "\<exists>b pos. longlong_to_hexstring NUM_BUFFER u 32 flag = Some (b, pos) \<and> drop pos b =
     hex_digits (if has flag CAPSFLAG then hextable_caps else hextable) (unat u) @ [0]"
  by (subst longlong_to_hexstring_eq [OF _ _ refl]) (simp_all add: NUM_BUFFER_def)

lemma num_buffer_dec:
  "neg = (has flag SIGNEDFLAG \<and> sint n < 0) \<Longrightarrow>
   \<exists>b pos. longlong_to_string NUM_BUFFER n 32 flag = Some (b, pos, sign_char neg flag) \<and>
     drop pos b = dec_digits (unat (if neg then - n else n)) @ [0]"
  by (subst longlong_to_string_eq [OF _ _ refl refl]) (simp_all add: NUM_BUFFER_def)

section \<open>Fields of numbers\<close>

text \<open>The field of a number as C defines it: sign and digits in at least \<open>w\<close> characters, filled up on
  the right if left-justified, else with zeros behind the sign or with blanks before it.\<close>

definition c_field :: "u32 \<Rightarrow> nat \<Rightarrow> u8 \<Rightarrow> bytes \<Rightarrow> bytes" where
  "c_field flags w sign D =
     (let S = (if sign = 0 then [] else [sign]); n = w - length (S @ D)
      in if has flags LEFTFORMATFLAG then S @ D @ replicate n (chr8 CHR '' '')
      else if has flags LEADZEROFLAG then S @ replicate n (chr8 CHR ''0'') @ D
      else replicate n (chr8 CHR '' '') @ S @ D)"

text \<open>The engine forgets the sign of a left-justified field.\<close>

lemma output_string_field:
  assumes D: "0 \<notin> set D" "length D < 2147483648" and F: "F = c_field flags (unat w) (if has flags LEFTFORMATFLAG then 0 else sign) D"
  shows "output_string text_out (D @ 0 # r) flags w sign p k =
    k (p\<lparr>ps_out := ps_out p @ F, ps_written := ps_written p + of_nat (length F)\<rparr>)"
proof -
  have s: "strlen (D @ 0 # r) 0 = Some (length D)" "rdn 0 (length D) (D @ 0 # r) = Some D"
    using D(1) by (simp_all add: strlen_cstring rdn_def)
  have u: "unat (of_nat (length D) :: u32) = length D" using D(2) by (simp add: unat_of_nat take_bit_nat_eq_self)
  have w: "unat (w - 1) = unat w - 1" if "0 < w" using that by (simp add: unat_minus_one word_neq_0_conv)
  have z: "w = 0" if "\<not> 0 < w" using that by (simp add: word_neq_0_conv [symmetric])
  show ?thesis
    unfolding output_string_def F c_field_def Let_def
    using w z D(2) by (auto simp: s u pad_text text_out_step ac_simps)
qed

lemma has_or: "has (flags OR SIGNEDFLAG) f \<longleftrightarrow> has flags f \<or> has SIGNEDFLAG f"
  by (auto simp: has_def bit_eq_iff bit_simps)

text \<open>\<open>%d\<close> with any flags and width.\<close>

lemma conv_decimal:
  assumes "ps_args p = PInt x # as" and "neg = (sint (arg_signed flags x) < 0)"
    and "D = dec_digits (unat (if neg then - arg_signed flags x else arg_signed flags x))"
    and "F = c_field flags (unat w) (if has flags LEFTFORMATFLAG then 0 else sign_char neg flags) D"
  shows "conv text_out (chr8 CHR ''d'') flags w p k =
    k (p\<lparr>ps_args := as, ps_out := ps_out p @ F, ps_written := ps_written p + of_nat (length F)\<rparr>)"
proof -
  let ?f = "flags OR SIGNEDFLAG"
  have fl: "has ?f LEFTFORMATFLAG = has flags LEFTFORMATFLAG" "has ?f LEADZEROFLAG = has flags LEADZEROFLAG"
      "has ?f SIGNEDFLAG" "sign_char neg ?f = sign_char neg flags"
    unfolding sign_char_def has_or by (simp_all add: has_def)
  obtain b pos where b: "longlong_to_string NUM_BUFFER (arg_signed flags x) 32 ?f = Some (b, pos, sign_char neg flags)"
      "drop pos b = D @ [0]"
    using num_buffer_dec [of neg ?f "arg_signed flags x"] fl assms(2,3) by auto
  have l: "length D < 2147483648" unfolding assms(3) by (rule le_less_trans [OF dec_digits_u64]) simp
  have F: "F = c_field ?f (unat w) (if has ?f LEFTFORMATFLAG then 0 else sign_char neg flags) D"
    unfolding assms(4) by (simp add: c_field_def fl)
  show ?thesis
    using output_string_field [OF _ l F, of "[]" "p\<lparr>ps_args := as\<rparr>" k] b assms(1) dec_digits_nonzero
    by (simp add: conv_def assms(3))
qed

text \<open>\<open>%x\<close> likewise, without the prefix that \<open>#\<close> asks for.\<close>

lemma conv_hexadecimal:
  assumes "ps_args p = PInt x # as" and "\<not> has flags ALTFLAG"
    and "D = hex_digits (if has flags CAPSFLAG then hextable_caps else hextable) (unat (arg_unsigned flags x))"
    and "F = c_field flags (unat w) 0 D"
  shows "conv text_out (chr8 CHR ''x'') flags w p k =
    k (p\<lparr>ps_args := as, ps_out := ps_out p @ F, ps_written := ps_written p + of_nat (length F)\<rparr>)"
proof -
  obtain b pos where b: "longlong_to_hexstring NUM_BUFFER (arg_unsigned flags x) 32 flags = Some (b, pos)" "drop pos b = D @ [0]"
    using num_buffer_hex [of "arg_unsigned flags x" flags] assms(3) by auto
  have l: "length D < 2147483648" unfolding assms(3) by (rule le_less_trans [OF hex_digits_u64]) simp
  have F: "F = c_field flags (unat w) (if has flags LEFTFORMATFLAG then 0 else 0) D" unfolding assms(4) by simp
  show ?thesis
    using output_string_field [OF _ l F, of "[]" "p\<lparr>ps_args := as\<rparr>" k] b assms(1,2) hex_digits_caps_nonzero
    by (simp add: conv_def conv_hex_def assms(3))
qed
lemma conv_x:
  assumes "ps_args p = PInt w # as" and "D = hex_digits hextable (unat (ucast w :: u32))"
  shows "conv text_out 120 0 0 p k =
    k (p\<lparr>ps_args := as, ps_out := ps_out p @ D, ps_written := ps_written p + of_nat (length D)\<rparr>)"
proof -
  have u: "unat (ucast (ucast w :: u32) :: u64) = unat (ucast w :: u32)" by (rule unat_ucast_up) simp
  show ?thesis
    using conv_hexadecimal [OF assms(1), of 0 _ _ 0] by (simp add: has_def arg_unsigned_def u assms(2) c_field_def)
qed

text \<open>The formats of \<open>ip6toa\<close>.\<close>

lemma format_ip6:
  fixes w :: u64
  defines "h \<equiv> hex_digits hextable (unat (ucast w :: u32))"
  shows "\<exists>n p. format (asc '':%x'' @ [0]) [PInt w] = Some (n, p) \<and> ps_out p = asc '':'' @ h"
    and "\<exists>n p. format (asc ''%x:'' @ [0]) [PInt w] = Some (n, p) \<and> ps_out p = h @ asc '':''"
    and "\<exists>n p. format (asc ''%x'' @ [0]) [PInt w] = Some (n, p) \<and> ps_out p = h"
    and "\<exists>n p. format (asc '':'' @ [0]) [] = Some (n, p) \<and> ps_out p = asc '':''"
    and "\<exists>n p. format (asc ''::'' @ [0]) [] = Some (n, p) \<and> ps_out p = asc ''::''"
  by (simp_all add: format_def printf_engine_def engine.simps text_out_step modifier_def
      conv_x [OF _ refl] engine_exit_def h_def)

end
