(* ===== verification/Ip6toa_Spec.thy ===== *)
theory Ip6toa_Spec
  imports Printf_Spec Ip6toa
begin

unbundle bit_operations_syntax

text \<open>
  The text that \<open>ip6toa\<close> of \<^verbatim>\<open>src/inet6.c\<close> produces, as a function of the eight groups
  of the address: the first run of zero groups is written as \<open>::\<close>. It always fits in the 40 bytes
  of \<open>IP6TOAMAX\<close>, and the two bytes behind the address that the code may read do not matter.
\<close>

definition grp16 :: "bytes \<Rightarrow> nat \<Rightarrow> u16" where
  "grp16 a i = push_bit 8 (ucast (a ! (2 * i))) OR ucast (a ! (2 * i + 1))"

definition groups :: "bytes \<Rightarrow> u16 list" where
  "groups a = map (grp16 a) [0..<8]"

definition hex16 :: "u16 \<Rightarrow> bytes" where
  "hex16 g = hex_digits hextable (unat g)"

definition tail_text :: "u16 list \<Rightarrow> bytes" where
  "tail_text gs = concat (map (\<lambda>g. asc '':'' @ hex16 g) gs)"

definition head_text :: "u16 list \<Rightarrow> bytes" where
  "head_text gs = concat (map (\<lambda>g. hex16 g @ asc '':'') gs)"

text \<open>What follows the groups before the first zero group.\<close>

definition middle_text :: "u16 list \<Rightarrow> bytes" where
  "middle_text gs = (let r = dropWhile ((=) 0) gs in if r = [] then asc '':'' else tail_text r)"

text \<open>An address whose first group is not zero.\<close>

definition rest_text :: "u16 list \<Rightarrow> bytes" where
  "rest_text gs =
     (if 0 \<notin> set gs then head_text (butlast gs) @ hex16 (last gs)
      else head_text (takeWhile ((\<noteq>) 0) gs) @ middle_text (dropWhile ((\<noteq>) 0) gs))"

definition ip6_text :: "u16 list \<Rightarrow> bytes" where
  "ip6_text gs = (if hd gs = 0 then asc '':'' @ middle_text gs else rest_text gs)"

section \<open>The loops\<close>

lemma rd_group_eq: "2 * i + 2 \<le> length a \<Longrightarrow> rd_group (2 * i) a = Some (grp16 a i)"
  by (simp add: rd_group_def rd8_def grp16_def)

lemma skip_zeros_eq:
  assumes "18 \<le> length a" and "i \<le> 8"
    and "j = i + length (takeWhile ((=) 0) (map (grp16 a) [i..<8]))"
  shows "skip_zeros a (2 * i) (grp16 a i) = Some (2 * j, grp16 a j)"
  using assms(2,3)
proof (induction "8 - i" arbitrary: i)
  case 0
  then show ?case by (simp add: skip_zeros.simps)
next
  case (Suc k)
  then have i: "i < 8" by simp
  then have up: "[i..<8] = i # [i + 1..<8]" by (simp add: upt_conv_Cons)
  have r: "rd_group (2 * i + 2) a = Some (grp16 a (i + 1))"
    using rd_group_eq [of "i + 1" a] assms(1) i by simp
  show ?case
  proof (cases "grp16 a i = 0")
    case True
    have "skip_zeros a (2 * (i + 1)) (grp16 a (i + 1)) = Some (2 * j, grp16 a j)"
      using Suc i True up by (intro Suc.hyps(1)) simp_all
    with True i r show ?thesis by (subst skip_zeros.simps) simp
  next
    case False
    with Suc.prems up show ?thesis by (subst skip_zeros.simps) simp
  qed
qed

definition written :: "bytes \<Rightarrow> nat \<Rightarrow> bytes \<Rightarrow> bytes" where
  "written buf out t = take out buf @ t @ 0 # drop (out + length t + 1) buf"

lemma length_written [simp]: "out + length t < length buf \<Longrightarrow> length (written buf out t) = length buf"
  by (simp add: written_def)

lemma written_written:
  "out + length t < length buf \<Longrightarrow> written (written buf out t) (out + length t) t' = written buf out (t @ t')"
  by (simp add: written_def ac_simps)

lemma hex16_length: "length (hex16 g) \<le> 4"
proof -
  have "unat g < 16 ^ Suc 3" using unat_bound [of g] by simp
  from digits_length(2) [OF this] show ?thesis by (simp add: hex16_def)
qed

lemma sprintf_written:
  assumes "\<exists>n p. format (asc fmt @ [0]) args = Some (n, p) \<and> ps_out p = t" and "length t < INT_MAX"
    and "out + length t < length buf"
  shows "\<exists>st. sprintf buf out fmt args = Some (int (length t), written buf out t, st)"
  using assms sprintf_eq unfolding written_def by metis

lemma sprintf_ip6:
  fixes g :: u16
  shows "out + 1 + length (hex16 g) < length buf \<Longrightarrow> \<exists>st. sprintf buf out '':%x'' [PInt (ucast g)] =
      Some (int (1 + length (hex16 g)), written buf out (asc '':'' @ hex16 g), st)"
    and "out + 1 + length (hex16 g) < length buf \<Longrightarrow> \<exists>st. sprintf buf out ''%x:'' [PInt (ucast g)] =
      Some (int (1 + length (hex16 g)), written buf out (hex16 g @ asc '':''), st)"
    and "out + length (hex16 g) < length buf \<Longrightarrow> \<exists>st. sprintf buf out ''%x'' [PInt (ucast g)] =
      Some (int (length (hex16 g)), written buf out (hex16 g), st)"
    and "out + 1 < length buf \<Longrightarrow> \<exists>st. sprintf buf out '':'' [] = Some (1, written buf out (asc '':''), st)"
    and "out + 2 < length buf \<Longrightarrow> \<exists>st. sprintf buf out ''::'' [] = Some (2, written buf out (asc ''::''), st)"
proof -
  have "(ucast (ucast g :: u64) :: u32) = ucast g"
    by (rule bit_word_eqI) (auto simp: bit_simps)
  then have "unat (ucast (ucast g :: u64) :: u32) = unat g" by (simp add: unat_ucast_up)
  then have h: "hex_digits hextable (unat (ucast (ucast g :: u64) :: u32)) = hex16 g"
    by (simp add: hex16_def)
  note f = format_ip6(1-3) [of "ucast g", unfolded h]
  note l = hex16_length [of g]
  show "out + 1 + length (hex16 g) < length buf \<Longrightarrow> \<exists>st. sprintf buf out '':%x'' [PInt (ucast g)] =
      Some (int (1 + length (hex16 g)), written buf out (asc '':'' @ hex16 g), st)"
    using sprintf_written [OF f(1), of out buf] l by simp
  show "out + 1 + length (hex16 g) < length buf \<Longrightarrow> \<exists>st. sprintf buf out ''%x:'' [PInt (ucast g)] =
      Some (int (1 + length (hex16 g)), written buf out (hex16 g @ asc '':''), st)"
    using sprintf_written [OF f(2), of out buf] l by simp
  show "out + length (hex16 g) < length buf \<Longrightarrow> \<exists>st. sprintf buf out ''%x'' [PInt (ucast g)] =
      Some (int (length (hex16 g)), written buf out (hex16 g), st)"
    using sprintf_written [OF f(3), of out buf] l by simp
  show "out + 1 < length buf \<Longrightarrow> \<exists>st. sprintf buf out '':'' [] = Some (1, written buf out (asc '':''), st)"
    using sprintf_written [OF format_ip6(4), of out buf] by simp
  show "out + 2 < length buf \<Longrightarrow> \<exists>st. sprintf buf out ''::'' [] = Some (2, written buf out (asc ''::''), st)"
    using sprintf_written [OF format_ip6(5), of out buf] by simp
qed

lemma tail_text_Cons: "tail_text (g # gs) = (asc '':'' @ hex16 g) @ tail_text gs"
  by (simp add: tail_text_def)

lemma tail_text_Nil [simp]: "tail_text [] = []"
  by (simp add: tail_text_def)

lemma tail_loop_eq:
  assumes "18 \<le> length a" and "i < 8" and "out + length (tail_text (map (grp16 a) [i..<8])) < length buf"
  shows "tail_loop a (2 * i) (grp16 a i) buf out = Some (written buf out (tail_text (map (grp16 a) [i..<8])))"
  using assms(2,3)
proof (induction "8 - i" arbitrary: i buf out)
  case 0
  then show ?case by simp
next
  case (Suc k)
  let ?t = "asc '':'' @ hex16 (grp16 a i)" and ?T = "tail_text (map (grp16 a) [i + 1..<8])"
  have "[i..<8] = i # [i + 1..<8]" using Suc.prems by (simp add: upt_conv_Cons)
  then have T: "tail_text (map (grp16 a) [i..<8]) = ?t @ ?T" by (simp add: tail_text_Cons)
  obtain st where sp: "sprintf buf out '':%x'' [PInt (ucast (grp16 a i))] =
      Some (int (1 + length (hex16 (grp16 a i))), written buf out ?t, st)"
    using sprintf_ip6(1) [of out "grp16 a i" buf] Suc.prems T by auto
  have r: "rd_group (2 * i + 2) a = Some (grp16 a (i + 1))"
    using rd_group_eq [of "i + 1" a] assms(1) Suc.prems by simp
  have step: "tail_loop a (2 * i) (grp16 a i) buf out =
      tail_loop a (2 * (i + 1)) (grp16 a (i + 1)) (written buf out ?t) (out + length ?t)"
    using Suc.prems(1) sp r by (subst tail_loop.simps) (simp add: nat_add_distrib)
  show ?case
  proof (cases "i + 1 < 8")
    case True
    have "tail_loop a (2 * (i + 1)) (grp16 a (i + 1)) (written buf out ?t) (out + length ?t) =
        Some (written (written buf out ?t) (out + length ?t) ?T)"
      using Suc.hyps(2) True Suc.prems(2) T by (intro Suc.hyps(1)) simp_all
    then show ?thesis using step Suc.prems(2) T written_written [of out ?t buf ?T] by simp
  next
    case False
    then have "i = 7" using Suc.prems by simp
    then show ?thesis using step T by (simp add: tail_loop.simps)
  qed
qed

lemma middle_eq:
  assumes "18 \<le> length a" and "i \<le> 8" and "gs = map (grp16 a) [i..<8]"
    and "out + length (middle_text gs) < length buf"
  shows "do { (x, n) \<leftarrow> skip_zeros a (2 * i) (grp16 a i);
      if x = 16 then do { (_, buf, _) \<leftarrow> sprintf buf out '':'' []; Some buf }
      else tail_loop a x n buf out } = Some (written buf out (middle_text gs))"
proof -
  let ?j = "i + length (takeWhile ((=) 0) gs)"
  have sk: "skip_zeros a (2 * i) (grp16 a i) = Some (2 * ?j, grp16 a ?j)"
    using assms by (intro skip_zeros_eq) auto
  have dw: "dropWhile ((=) 0) gs = map (grp16 a) [?j..<8]"
    using assms(3) by (simp add: dropWhile_eq_drop drop_map)
  have "length (takeWhile ((=) 0) gs) \<le> length gs" by (rule length_takeWhile_le)
  then have j: "?j \<le> 8" using assms(2,3) by simp
  show ?thesis
  proof (cases "?j = 8")
    case True
    then have m: "middle_text gs = asc '':''" by (simp add: middle_text_def dw)
    then obtain st where "sprintf buf out '':'' [] = Some (1, written buf out (asc '':''), st)"
      using sprintf_ip6(4) [of out buf] assms(4) by auto
    with sk True m show ?thesis by simp
  next
    case False
    with j have j8: "?j < 8" by simp
    then have "dropWhile ((=) 0) gs \<noteq> []" unfolding dw by simp
    then have m: "middle_text gs = tail_text (map (grp16 a) [?j..<8])" by (simp add: middle_text_def dw)
    have "tail_loop a (2 * ?j) (grp16 a ?j) buf out = Some (written buf out (middle_text gs))"
      unfolding m using j8 assms(1,4) m by (intro tail_loop_eq) auto
    with sk False show ?thesis by simp
  qed
qed

lemma rest_text_Cons:
  "gs \<noteq> [] \<Longrightarrow> g \<noteq> 0 \<Longrightarrow> hd gs \<noteq> 0 \<Longrightarrow> rest_text (g # gs) = (hex16 g @ asc '':'') @ rest_text gs"
  by (auto simp: rest_text_def head_text_def)

lemma rest_text_middle:
  "gs \<noteq> [] \<Longrightarrow> g \<noteq> 0 \<Longrightarrow> hd gs = 0 \<Longrightarrow> rest_text (g # gs) = (hex16 g @ asc '':'') @ middle_text gs"
  by (cases gs) (auto simp: rest_text_def head_text_def)

lemma head_loop_eq:
  assumes "18 \<le> length a" and "i < 8" and "grp16 a i \<noteq> 0"
    and "out + length (rest_text (map (grp16 a) [i..<8])) < length buf"
  shows "head_loop a (2 * i) (grp16 a i) buf out = Some (written buf out (rest_text (map (grp16 a) [i..<8])))"
  using assms(2-4)
proof (induction "7 - i" arbitrary: i buf out)
  case 0
  then have i: "i = 7" by simp
  have "[7..<8] = [7 :: nat]" by (simp add: upt_conv_Cons)
  then have t: "rest_text (map (grp16 a) [i..<8]) = hex16 (grp16 a i)"
    using i 0 by (simp add: rest_text_def head_text_def)
  obtain st where "sprintf buf out ''%x'' [PInt (ucast (grp16 a i))] =
      Some (int (length (hex16 (grp16 a i))), written buf out (hex16 (grp16 a i)), st)"
    using sprintf_ip6(3) [of out "grp16 a i" buf] 0 t by auto
  with i t show ?case by (subst head_loop.simps) simp
next
  case (Suc k)
  then have i: "i < 7" by simp
  let ?gs = "map (grp16 a) [i + 1..<8]" and ?t = "hex16 (grp16 a i) @ asc '':''"
  have gs: "map (grp16 a) [i..<8] = grp16 a i # ?gs" using i by (simp add: upt_conv_Cons)
  have ne: "?gs \<noteq> []" and hd: "hd ?gs = grp16 a (i + 1)" using i by (simp_all add: upt_conv_Cons)
  have T: "rest_text (map (grp16 a) [i..<8]) =
      ?t @ (if grp16 a (i + 1) = 0 then middle_text ?gs else rest_text ?gs)"
    unfolding gs using rest_text_Cons [OF ne Suc.prems(2)] rest_text_middle [OF ne Suc.prems(2)] hd by simp
  obtain st where sp: "sprintf buf out ''%x:'' [PInt (ucast (grp16 a i))] =
      Some (int (1 + length (hex16 (grp16 a i))), written buf out ?t, st)"
    using sprintf_ip6(2) [of out "grp16 a i" buf] Suc.prems(3) T by auto
  have lt: "out + length ?t < length buf" using Suc.prems(3) T by simp
  have r: "rd_group (2 * i + 2) a = Some (grp16 a (i + 1))"
    using rd_group_eq [of "i + 1" a] assms(1) i by simp
  show ?case
  proof (cases "grp16 a (i + 1) = 0")
    case True
    have "head_loop a (2 * i) (grp16 a i) buf out =
        do { (x, n) \<leftarrow> skip_zeros a (2 * (i + 1)) (grp16 a (i + 1));
          if x = 16 then do { (_, buf, _) \<leftarrow> sprintf (written buf out ?t) (out + length ?t) '':'' []; Some buf }
          else tail_loop a x n (written buf out ?t) (out + length ?t) }"
      using i sp r True by (subst head_loop.simps) (simp add: nat_add_distrib cong: if_cong)
    also have "\<dots> = Some (written (written buf out ?t) (out + length ?t) (middle_text ?gs))"
      using assms(1) i Suc.prems(3) T True lt by (intro middle_eq) simp_all
    finally show ?thesis using T True written_written [OF lt] by simp
  next
    case False
    have "head_loop a (2 * i) (grp16 a i) buf out =
        head_loop a (2 * (i + 1)) (grp16 a (i + 1)) (written buf out ?t) (out + length ?t)"
      using i sp r False by (subst head_loop.simps) (simp add: nat_add_distrib)
    also have "\<dots> = Some (written (written buf out ?t) (out + length ?t) (rest_text ?gs))"
      using Suc.hyps(2) i Suc.prems(3) T False lt by (intro Suc.hyps(1)) simp_all
    finally show ?thesis using T False written_written [OF lt] by simp
  qed
qed

section \<open>The text fits\<close>

lemma tail_text_length: "length (tail_text gs) \<le> 5 * length gs"
proof (induction gs)
  case (Cons g gs)
  then show ?case using hex16_length [of g] by (simp add: tail_text_Cons)
qed simp

lemma head_text_length: "length (head_text gs) \<le> 5 * length gs"
proof (induction gs)
  case (Cons g gs)
  then show ?case using hex16_length [of g] by (simp add: head_text_def)
qed (simp add: head_text_def)

lemma middle_text_length:
  assumes "gs \<noteq> []" and "hd gs = 0"
  shows "length (middle_text gs) \<le> 5 * (length gs - 1) + 1"
proof -
  have "length (dropWhile ((=) 0) gs) \<le> length gs - 1"
    using assms length_dropWhile_le [of "(=) 0" "tl gs"] by (cases gs) auto
  then show ?thesis using tail_text_length [of "dropWhile ((=) 0) gs"] by (simp add: middle_text_def Let_def)
qed

lemma ip6_text_length:
  assumes "length gs = 8"
  shows "length (ip6_text gs) \<le> 39"
proof (cases "0 \<in> set gs")
  case False
  then have "hd gs \<noteq> 0" using assms by (cases gs) auto
  then show ?thesis
    using False head_text_length [of "butlast gs"] hex16_length [of "last gs"] assms
    by (simp add: ip6_text_def rest_text_def)
next
  case True
  let ?h = "takeWhile ((\<noteq>) 0) gs" and ?r = "dropWhile ((\<noteq>) 0) gs"
  have r: "?r \<noteq> []" using True by (simp add: dropWhile_eq_Nil_conv)
  then have "hd ?r = 0" using hd_dropWhile [OF r] by simp
  note m = middle_text_length [OF r this]
  have "length ?h + length ?r = length gs" by (metis length_append takeWhile_dropWhile_id)
  moreover have "0 < length ?r" using r by simp
  moreover have "length (rest_text gs) = length (head_text ?h) + length (middle_text ?r)"
    using True by (simp add: rest_text_def)
  ultimately have "length (rest_text gs) \<le> 39"
    using m head_text_length [of ?h] assms by linarith
  moreover have "length (asc '':'' @ middle_text gs) \<le> 39" if "hd gs = 0"
    using middle_text_length [OF _ that] assms by (cases gs) auto
  ultimately show ?thesis by (simp add: ip6_text_def)
qed

lemma ip6toa_eq:
  assumes "18 \<le> length a" and "IP6TOAMAX \<le> length buf"
  shows "ip6toa buf a = Some (written buf 0 (ip6_text (groups a)))"
proof -
  have len: "length (ip6_text (groups a)) \<le> 39" by (rule ip6_text_length) (simp add: groups_def)
  have r0: "rd_group 0 a = Some (grp16 a 0)" using rd_group_eq [of 0 a] assms by simp
  have g: "groups a = map (grp16 a) [0..<8]" by (simp add: groups_def)
  have hd: "hd (groups a) = grp16 a 0" by (simp add: groups_def upt_conv_Cons)
  show ?thesis
  proof (cases "grp16 a 0 = 0")
    case True
    define j where "j = length (takeWhile ((=) 0) (groups a))"
    have sk: "skip_zeros a 0 (grp16 a 0) = Some (2 * j, grp16 a j)"
      using skip_zeros_eq [of a 0 j] assms g j_def by simp
    have dw: "dropWhile ((=) 0) (groups a) = map (grp16 a) [j..<8]"
      by (simp add: dropWhile_eq_drop groups_def drop_map j_def)
    have j: "0 < j" "j \<le> 8"
      using True length_takeWhile_le [of "(=) 0" "groups a"]
      by (simp_all add: j_def groups_def upt_conv_Cons)
    show ?thesis
    proof (cases "j = 8")
      case True
      then have t: "ip6_text (groups a) = asc ''::''"
        using hd \<open>grp16 a 0 = 0\<close> dw by (simp add: ip6_text_def middle_text_def)
      obtain st where "sprintf buf 0 ''::'' [] = Some (2, written buf 0 (asc ''::''), st)"
        using sprintf_ip6(5) [of 0 buf] assms(2) by auto
      with sk r0 True t show ?thesis by (simp add: ip6toa_def)
    next
      case False
      with j have j8: "j < 8" by simp
      let ?T = "tail_text (map (grp16 a) [j..<8])"
      have t: "ip6_text (groups a) = asc '':'' @ ?T"
        using hd \<open>grp16 a 0 = 0\<close> j8 dw by (simp add: ip6_text_def middle_text_def)
      obtain st where sp: "sprintf buf 0 '':'' [] = Some (1, written buf 0 (asc '':''), st)"
        using sprintf_ip6(4) [of 0 buf] assms(2) by auto
      have "tail_loop a (2 * j) (grp16 a j) (written buf 0 (asc '':'')) 1 =
          Some (written (written buf 0 (asc '':'')) (0 + length (asc '':'')) ?T)"
        using tail_loop_eq [of a j 1 "written buf 0 (asc '':'')"] assms j8 len t by simp
      also have "written (written buf 0 (asc '':'')) (0 + length (asc '':'')) ?T =
          written buf 0 (ip6_text (groups a))"
        unfolding t using assms(2) by (intro written_written) simp
      finally show ?thesis using sk r0 j False sp by (simp add: ip6toa_def)
    qed
  next
    case False
    then have "skip_zeros a 0 (grp16 a 0) = Some (0, grp16 a 0)" by (simp add: skip_zeros.simps)
    moreover have "head_loop a (2 * 0) (grp16 a 0) buf 0 = Some (written buf 0 (rest_text (groups a)))"
      unfolding g using assms len False hd g by (intro head_loop_eq) (simp_all add: ip6_text_def)
    ultimately show ?thesis using r0 False hd by (simp add: ip6toa_def ip6_text_def)
  qed
qed

end
