(* ===== verification/Netifc_Open.thy ===== *)
theory Netifc_Open
  imports Inet6_Recv Ip6toa_Spec
begin

unbundle bit_operations_syntax

text \<open>
  \<open>netifc_open\<close> and \<open>netifc_poll\<close> of \<^verbatim>\<open>src/netifc.c\<close>, the two functions of the
  driver that call up into the IPv6 stack: bringing the interface up establishes the stack's
  invariant, and every poll keeps it, whatever the interface delivers.
\<close>

section \<open>Opening the interface\<close>

text \<open>The loop that tags the sixteen slots of the allocated pages and puts them on the free list.
  The rest of a slot holds what the memory held.\<close>

fun init_buffers :: "('f, 'x) net_fw_scheme \<Rightarrow> nat \<Rightarrow> u64 \<Rightarrow> ('f, 'a) netifc_scheme \<Rightarrow>
    ('f, 'a) netifc_scheme option" where
  "init_buffers efi 0 ptr s = Some s"
| "init_buffers efi (Suc n) ptr s =
     do { let buf = \<lparr>buf_magic = ETH_BUFFER_MAGIC,
                     buf_next = of_le (phys_bytes efi (fw s) (ptr + 8) 8),
                     buf_data = phys_bytes efi (fw s) (ptr + 16) 2032\<rparr>;
          s \<leftarrow> eth_put_buffer ptr (s\<lparr>buffer_heap := (buffer_heap s)(ptr \<mapsto> buf)\<rparr>);
          init_buffers efi n (ptr + 2048) s }"

text \<open>The inner loop over the filters the interface reports, from \<open>j\<close> on: is filter \<open>i\<close> there?\<close>

function find_filter :: "bytes \<Rightarrow> nat \<Rightarrow> bytes \<Rightarrow> nat \<Rightarrow> nat \<Rightarrow> bool option" where
  "find_filter fs i reported count j =
     (if j < count then do {
        c \<leftarrow> memcmp fs (MAC_STRIDE * i) reported (MAC_STRIDE * j) 6;
        if c = 0 then Some True else find_filter fs i reported count (j + 1) }
      else Some False)"
  by pat_completeness auto
termination
  by (relation "measure (\<lambda>(fs, i, reported, count, j). count - j)") auto

text \<open>The outer loop: the number of the first filter that is missing.\<close>

function missing_filter :: "bytes \<Rightarrow> bytes \<Rightarrow> nat \<Rightarrow> nat \<Rightarrow> nat option option" where
  "missing_filter fs reported count i =
     (if i < count then do {
        b \<leftarrow> find_filter fs i reported count 0;
        if b then missing_filter fs reported count (i + 1) else Some (Some i) }
      else Some None)"
  by pat_completeness auto
termination
  by (relation "measure (\<lambda>(fs, reported, count, i). count - i)") auto

declare find_filter.simps [simp del] missing_filter.simps [simp del]

definition force_promisc :: "('f, 'x) net_fw_scheme \<Rightarrow> ('f, 'a) netifc_scheme \<Rightarrow>
    (int \<times> ('f, 'a) netifc_scheme) option" where
  "force_promisc efi s =
     (let (r, f) = ReceiveFilters efi (EFI_SIMPLE_NETWORK_RECEIVE_UNICAST OR
            EFI_SIMPLE_NETWORK_RECEIVE_PROMISCUOUS OR
            EFI_SIMPLE_NETWORK_RECEIVE_PROMISCUOUS_MULTICAST) 0 0 0 None (fw s);
          s = s\<lparr>fw := f\<rparr>
      in if r \<noteq> 0 then Some (-1, printf ''Failed to set promiscuous mode %lx\<newline>'' [PInt r] s)
         else Some (0, s))"

text \<open>Installing the multicast filters, and the check that the interface took them.\<close>

definition install_filters :: "('f, 'x) net_fw_scheme \<Rightarrow> ('f, 'a) netifc_scheme \<Rightarrow>
    (int \<times> ('f, 'a) netifc_scheme) option" where
  "install_filters efi s =
     do { let (r, f) = ReceiveFilters efi (EFI_SIMPLE_NETWORK_RECEIVE_UNICAST OR
              EFI_SIMPLE_NETWORK_RECEIVE_MULTICAST) 0 0 (ucast (mcast_filter_count s))
              (Some (mcast_filters s)) (fw s);
          let s = s\<lparr>fw := f\<rparr>;
          if r \<noteq> 0 then Some (-1, printf ''Failed to install multicast filters %lx\<newline>'' [PInt r] s)
          else do {
            s \<leftarrow> eth_dump_status efi s;
            let m = Mode efi (fw s);
            if MCastFilterCount m \<noteq> mcast_filter_count s then
              force_promisc efi (printf ''OOPS: expected %d filters, found %d\<newline>''
                [PInt (ucast (mcast_filter_count s)), PInt (ucast (MCastFilterCount m))] s)
            else do {
              miss \<leftarrow> missing_filter (mcast_filters s) (MCastFilter m) (unat (mcast_filter_count s)) 0;
              (case miss of None \<Rightarrow> Some (0, s)
               | Some i \<Rightarrow> force_promisc efi
                   (printf ''OOPS: filter #%d missing\<newline>'' [PInt (of_nat i)] s)) } } }"

text \<open>Starting the interface if it is not started: the error message, or success.\<close>

definition start_snp :: "('f, 'x) net_fw_scheme \<Rightarrow> 'f \<Rightarrow> string option \<times> 'f" where
  "start_snp efi f =
     (if State (Mode efi f) \<noteq> EfiSimpleNetworkStarted then
        let (_, f) = Start efi f in
        if State (Mode efi f) \<noteq> EfiSimpleNetworkStarted
        then (Some ''Failed to start SNP\<newline>'', f)
        else let (r, f) = Initialize efi 32768 32768 f in
             if r \<noteq> 0 then (Some ''Failed to initialize SNP\<newline>'', f) else (None, f)
      else (None, f))"

definition netifc_open :: "('f, 'x) net_fw_scheme \<Rightarrow> ('f, 'a) inet6_scheme \<Rightarrow>
    (int \<times> ('f, 'a) inet6_scheme) option" where
  "netifc_open efi s =
     do { let (_, ev, f) = CreateEvent efi (fw s);
          let s = s\<lparr>net_timer := ev, fw := f\<rparr>;
          let (r, h, f) = LocateHandle efi 256 (fw s);
          let s = s\<lparr>fw := f\<rparr>;
          if r \<noteq> EFI_SUCCESS then Some (-1, printf ''Failed to locate SNP handle(s) %ld\<newline>'' [PInt r] s)
          else do {
            let (r, p, f) = OpenSNP efi (h 0) (fw s);
            let s = s\<lparr>snp := p, fw := f\<rparr>;
            if r \<noteq> 0 then Some (-1, printf ''Failed to open SNP exclusively %ld\<newline>'' [PInt r] s)
            else if snp s = NULL then None
            else do {
              let (e, f) = start_snp efi (fw s);
              let s = s\<lparr>fw := f\<rparr>;
              (case e of Some msg \<Rightarrow> Some (-1, printf msg [] s) | None \<Rightarrow> do {
                let (r, b, f) = AllocatePages efi AllocateAnyPages EfiLoaderData
                      (of_nat NUM_BUFFER_PAGES) (eth_buffers_base s) (fw s);
                let s = s\<lparr>eth_buffers_base := b, fw := f\<rparr>;
                if r \<noteq> 0 then Some (-1, printf ''Failed to allocate net buffers\<newline>'' [] s)
                else do {
                  s \<leftarrow> init_buffers efi (NUM_BUFFER_PAGES * 2) (eth_buffers_base s) s;
                  s \<leftarrow> ip6_init efi (CurrentAddress (Mode efi (fw s))) s;
                  install_filters efi s } }) } } }"

section \<open>Polling\<close>

definition netifc_poll :: "('f, 'x) net_fw_scheme \<Rightarrow> ('f, 'a) inet6_scheme udp_client \<Rightarrow>
    ('f, 'a) inet6_scheme \<Rightarrow> ('f, 'a) inet6_scheme option" where
  "netifc_poll efi udp6_recv s =
     (if snp s = NULL then None
      else do {
        let (r, irq, txdone, f) = GetStatus efi (fw s);
        let s = s\<lparr>fw := f\<rparr>;
        if r \<noteq> 0 then Some s
        else do {
          s \<leftarrow> (if txdone \<noteq> NULL then eth_put_buffer txdone s else Some s);
          if irq AND EFI_SIMPLE_NETWORK_RECEIVE_INTERRUPT \<noteq> 0 then do {
            let (r, data, bsz, f) = Receive efi ETH_MTU (fw s);
            let s = s\<lparr>fw := f\<rparr>;
            if r \<noteq> EFI_SUCCESS then Some s
            else eth_recv efi udp6_recv (map data [0..<ETH_MTU]) bsz s }
          else Some s } })"

section \<open>A fresh interface\<close>

fun slots :: "u64 \<Rightarrow> nat \<Rightarrow> u64 list" where
  "slots ptr 0 = []"
| "slots ptr (Suc n) = ptr # slots (ptr + 2048) n"

lemma length_slots [simp]: "length (slots ptr n) = n"
  by (induction n arbitrary: ptr) auto

lemma slot_aligned: "(ptr :: u64) AND 2047 = 0 \<longleftrightarrow> unat ptr mod 2048 = 0"
proof -
  have "ptr AND 2047 = take_bit 11 ptr" by (simp add: take_bit_eq_mask mask_2047)
  then have "unat (ptr AND 2047) = unat ptr mod 2048" by (simp add: take_bit_eq_mod unat_mod)
  then show ?thesis by (metis unat_eq_0)
qed

lemma next_slot: "(ptr :: u64) AND 2047 = 0 \<Longrightarrow> (ptr + 2048) AND 2047 = 0"
proof -
  assume "ptr AND 2047 = 0"
  then have "unat ptr mod 2048 = 0" by (simp add: slot_aligned)
  moreover have "(unat ptr + 2048) mod 2 ^ 64 mod 2048 = (unat ptr + 2048) mod 2048"
    by (rule mod_mod_cancel) simp
  ultimately show ?thesis by (simp add: slot_aligned unat_word_ariths)
qed

lemma init_buffers_pool:
  assumes "pool s A as" and "ptr AND 2047 = 0" and "ptr \<noteq> 0" and "unat ptr + 2048 * n \<le> 2 ^ 64"
    and "\<forall>a\<in>A. unat a < unat ptr"
  shows "\<exists>s'. init_buffers efi n ptr s = Some s' \<and> untouched s' = untouched s \<and> fw s' = fw s \<and>
    pool s' (A \<union> set (slots ptr n)) (rev (slots ptr n) @ as)"
  using assms
proof (induction n arbitrary: s A as ptr)
  case 0
  then show ?case by simp
next
  case (Suc n)
  let ?b = "\<lparr>buf_magic = ETH_BUFFER_MAGIC, buf_next = of_le (phys_bytes efi (fw s) (ptr + 8) 8),
      buf_data = phys_bytes efi (fw s) (ptr + 16) 2032\<rparr>"
  let ?s = "s\<lparr>buffer_heap := (buffer_heap s)(ptr \<mapsto> ?b)\<rparr>"
  have new: "ptr \<notin> A" using Suc.prems(5) by auto
  have as: "ptr \<notin> set as" using eth.pool_wf [OF Suc.prems(1)] new by auto
  have "pool ?s (insert ptr A) as"
    using Suc.prems(1-3) as unfolding pool_def by (auto simp: chain_update slots_ok_def)
  from eth.put_ok [OF this, of ptr 0] as obtain s1 where
    s1: "eth_put_buffer ptr ?s = Some s1" "pool s1 (insert ptr A) (ptr # as)" by auto
  then have fr: "untouched s1 = untouched s" "fw s1 = fw s"
    by (auto simp: eth_put_buffer_def untouched_def Let_def Option.bind_eq_Some_conv split: if_splits)
  show ?case
  proof (cases n)
    case 0
    with s1 fr show ?thesis by simp
  next
    case (Suc m)
    have u: "unat (ptr + 2048) = unat ptr + 2048"
      using Suc.prems(4) Suc by (simp add: unat_word_ariths)
    have "\<exists>s'. init_buffers efi n (ptr + 2048) s1 = Some s' \<and> untouched s' = untouched s1 \<and> fw s' = fw s1 \<and>
        pool s' (insert ptr A \<union> set (slots (ptr + 2048) n)) (rev (slots (ptr + 2048) n) @ ptr # as)"
    proof (rule Suc.IH [OF s1(2)])
      show "(ptr + 2048) AND 2047 = 0" using Suc.prems(2) by (rule next_slot)
      show "ptr + 2048 \<noteq> 0" using u by (metis add_eq_0_iff_both_eq_0 unat_0 zero_neq_numeral)
      show "unat (ptr + 2048) + 2048 * n \<le> 2 ^ 64" using Suc.prems(4) u by simp
      show "\<forall>a\<in>insert ptr A. unat a < unat (ptr + 2048)" using Suc.prems(5) u by auto
    qed
    with s1 fr show ?thesis by auto
  qed
qed

lemma ip6toa_defined:
  assumes "length ip = 16" and "IP6TOAMAX \<le> length buf"
  shows "\<exists>tmp. ip6toa buf (ip @ [0, 0]) = Some tmp \<and> length tmp = length buf"
proof -
  have "length (ip6_text (groups (ip @ [0, 0]))) \<le> 39"
    by (rule ip6_text_length) (simp add: groups_def)
  then show ?thesis using ip6toa_eq [of "ip @ [0, 0]" buf] assms by simp
qed

section \<open>Addresses and filters\<close>

definition filters_ok :: "('f, 'a) netifc_scheme \<Rightarrow> bool" where
  "filters_ok s = (length (mcast_filters s) = 256 \<and> unat (mcast_filter_count s) \<le> 8)"

lemma add_filter_ok:
  assumes "filters_ok s" and "snp s \<noteq> NULL" and "length addr = 6"
  shows "\<exists>r fs c. eth_add_mcast_filter efi addr s =
      Some (r, s\<lparr>mcast_filters := fs, mcast_filter_count := c\<rparr>) \<and> length fs = 256 \<and> unat c \<le> 8"
proof (cases "mcast_filter_count s \<ge> of_nat MAX_FILTER \<or>
    mcast_filter_count s \<ge> MaxMCastFilterCount (Mode efi (fw s))")
  case True
  with assms show ?thesis
    by (intro exI [of _ "-1"] exI [of _ "mcast_filters s"] exI [of _ "mcast_filter_count s"])
       (auto simp: eth_add_mcast_filter_def filters_ok_def)
next
  case False
  then have c: "unat (mcast_filter_count s) < 8" by (simp add: word_le_nat_alt not_le)
  then have u: "unat (mcast_filter_count s + 1) = unat (mcast_filter_count s) + 1"
    by (simp add: unat_word_ariths)
  have "memcpy (mcast_filters s) (32 * unat (mcast_filter_count s)) addr 0 6 =
      wrn (32 * unat (mcast_filter_count s)) addr (mcast_filters s)"
    using assms(3) by (simp add: memcpy_whole)
  also have "\<dots> \<noteq> None" using assms c by (simp add: wrn_def filters_ok_def)
  finally obtain fs where fs: "memcpy (mcast_filters s) (32 * unat (mcast_filter_count s)) addr 0 6 = Some fs"
    by auto
  moreover have "length fs = 256" using memcpy_length [OF fs] assms(1) by (simp add: filters_ok_def)
  ultimately show ?thesis using False assms(2) c u
    by (intro exI [of _ 0] exI [of _ fs] exI [of _ "mcast_filter_count s + 1"])
       (auto simp: eth_add_mcast_filter_def)
qed

definition ll_addr :: "bytes \<Rightarrow> bytes" where
  "ll_addr mac = [0xFE, 0x80, 0, 0, 0, 0, 0, 0,
     mac ! 0 XOR 2, mac ! 1, mac ! 2, 0xFF, 0xFE, mac ! 3, mac ! 4, mac ! 5]"

definition snm_addr :: "bytes \<Rightarrow> bytes" where
  "snm_addr mac = [0xFF, 0x02, 0, 0, 0, 0, 0, 0, 0, 0, 0, 0x01, 0xFF, mac ! 3, mac ! 4, mac ! 5]"

lemma length_addr [simp]: "length (ll_addr mac) = 16" "length (snm_addr mac) = 16"
  by (simp_all add: ll_addr_def snm_addr_def)

lemma ip6_init_ok:
  assumes "addrs_ok s" and "filters_ok s" and "snp s \<noteq> NULL" and "6 \<le> length macaddr"
  defines "mac \<equiv> take 6 macaddr"
  shows "\<exists>fs c con. ip6_init efi macaddr s = Some (s\<lparr>ll_mac_addr := mac, ll_ip6_addr := ll_addr mac,
      snm_ip6_addr := snm_addr mac, snm_mac_addr := [0x33, 0x33] @ drop 12 (snm_addr mac),
      mcast_filters := fs, mcast_filter_count := c, console := con\<rparr>) \<and> length fs = 256 \<and> unat c \<le> 8"
proof -
  have lm: "length mac = 6" using assms by simp
  have m: "memcpy (ll_mac_addr s) 0 macaddr 0 6 = Some mac"
    using assms(1,4) by (simp add: memcpy_slice mac_def addrs_ok_def wrn_def)
  have a1: "ll6addr_from_mac (ll_ip6_addr s) mac = Some (ll_addr mac)"
    using assms(1) lm by (simp add: ll6addr_from_mac_eq addrs_ok_def ll_addr_def)
  have a2: "snmaddr_from_mac (snm_ip6_addr s) mac = Some (snm_addr mac)"
    using assms(1) lm by (simp add: snmaddr_from_mac_eq addrs_ok_def snm_addr_def)
  let ?sm = "[0x33, 0x33] @ drop 12 (snm_addr mac)"
  have a3: "multicast_from_ip6 (snm_mac_addr s) (snm_addr mac) = Some ?sm"
    using assms(1) by (intro multicast_from_ip6_eq) (simp_all add: addrs_ok_def)
  obtain all where a4: "multicast_from_ip6 (replicate 6 0) ip6_ll_all_nodes = Some all" "length all = 6"
    using multicast_from_ip6_eq [of "replicate 6 0" ip6_ll_all_nodes] by (simp add: ip6_ll_all_nodes_def)
  let ?s1 = "s\<lparr>ll_mac_addr := mac, ll_ip6_addr := ll_addr mac, snm_ip6_addr := snm_addr mac, snm_mac_addr := ?sm\<rparr>"
  obtain r1 fs1 c1 where f1: "eth_add_mcast_filter efi ?sm ?s1 =
      Some (r1, ?s1\<lparr>mcast_filters := fs1, mcast_filter_count := c1\<rparr>)" "length fs1 = 256" "unat c1 \<le> 8"
    using add_filter_ok [of ?s1 ?sm efi] assms(2,3) by (auto simp: filters_ok_def)
  obtain r2 fs2 c2 where f2: "eth_add_mcast_filter efi all
      (?s1\<lparr>mcast_filters := fs1, mcast_filter_count := c1\<rparr>) =
      Some (r2, ?s1\<lparr>mcast_filters := fs2, mcast_filter_count := c2\<rparr>)" "length fs2 = 256" "unat c2 \<le> 8"
    using add_filter_ok [of "?s1\<lparr>mcast_filters := fs1, mcast_filter_count := c1\<rparr>" all efi] f1 a4(2) assms(3)
    by (auto simp: filters_ok_def)
  obtain t1 where t1: "ip6toa (replicate 40 0) (ll_addr mac @ [0, 0]) = Some t1" "length t1 = 40"
    using ip6toa_defined [of "ll_addr mac" "replicate 40 0"] by auto
  obtain t2 where t2: "ip6toa t1 (snm_addr mac @ [0, 0]) = Some t2"
    using ip6toa_defined [of "snm_addr mac" t1] t1 by auto
  have r: "rdn 0 6 mac = Some mac" using lm by (simp add: rdn_def)
  show ?thesis
    unfolding ip6_init_def m a1 a2 a3 a4 Option.bind.simps Let_def f1 prod.case f2 r t1 t2 printf_def
    using f2(2,3) by (auto intro!: exI)
qed

section \<open>What opening relies on and establishes\<close>

text \<open>
  Documented behaviour of the firmware: an interface that was opened is there; allocated pages
  are aligned, not at address zero and inside the address space; the mode structure has its size;
  none of the calls made while opening takes or returns a transmit buffer.
\<close>

definition open_contract :: "('f, 'x) net_fw_scheme \<Rightarrow> ('f \<Rightarrow> u64 set) \<Rightarrow> bool" where
  "open_contract efi inflight \<longleftrightarrow>
     (\<forall>f. length (CurrentAddress (Mode efi f)) = 32 \<and> length (MCastFilter (Mode efi f)) = 512) \<and>
     (\<forall>f r e f'. CreateEvent efi f = (r, e, f') \<longrightarrow> inflight f' = inflight f) \<and>
     (\<forall>n f r h f'. LocateHandle efi n f = (r, h, f') \<longrightarrow> inflight f' = inflight f) \<and>
     (\<forall>h f r p f'. OpenSNP efi h f = (r, p, f') \<longrightarrow> inflight f' = inflight f \<and> (r = 0 \<longrightarrow> p \<noteq> NULL)) \<and>
     (\<forall>f r f'. Start efi f = (r, f') \<longrightarrow> inflight f' = inflight f) \<and>
     (\<forall>a b f r f'. Initialize efi a b f = (r, f') \<longrightarrow> inflight f' = inflight f) \<and>
     (\<forall>a b c d e f r f'. ReceiveFilters efi a b c d e f = (r, f') \<longrightarrow> inflight f' = inflight f) \<and>
     (\<forall>k t n a f r b f'. AllocatePages efi k t n a f = (r, b, f') \<longrightarrow> inflight f' = inflight f \<and>
        (r = 0 \<longrightarrow> b \<noteq> NULL \<and> unat b mod 4096 = 0 \<and> unat b + 4096 * unat n \<le> 2 ^ 64))"

lemma open_contractD:
  assumes "open_contract efi inflight"
  shows "length (CurrentAddress (Mode efi f)) = 32" and "length (MCastFilter (Mode efi f)) = 512"
    and "CreateEvent efi f = (r, e, f') \<Longrightarrow> inflight f' = inflight f"
    and "LocateHandle efi n f = (r, h, f') \<Longrightarrow> inflight f' = inflight f"
    and "OpenSNP efi hnd f = (r, p, f') \<Longrightarrow> inflight f' = inflight f"
    and "OpenSNP efi hnd f = (0, p, f') \<Longrightarrow> p \<noteq> NULL"
    and "Start efi f = (r, f') \<Longrightarrow> inflight f' = inflight f"
    and "Initialize efi a b f = (r, f') \<Longrightarrow> inflight f' = inflight f"
    and "ReceiveFilters efi en dis rst cnt fl f = (r, f') \<Longrightarrow> inflight f' = inflight f"
    and "AllocatePages efi k t pgs ad f = (r, base, f') \<Longrightarrow> inflight f' = inflight f"
    and "AllocatePages efi k t pgs ad f = (0, base, f') \<Longrightarrow>
      base \<noteq> NULL \<and> unat base mod 4096 = 0 \<and> unat base + 4096 * unat pgs \<le> 2 ^ 64"
  using assms unfolding open_contract_def by metis+

lemma find_filter_defined:
  assumes "length fs = 256" and "length rep = 512" and "i < 8" and "count \<le> 8"
  shows "\<exists>b. find_filter fs i rep count j = Some b"
proof (induction "count - j" arbitrary: j)
  case 0
  then show ?case by (subst find_filter.simps) auto
next
  case (Suc k)
  have "j < 8" using Suc.hyps(2) assms(4) by linarith
  then obtain c where "memcmp fs (32 * i) rep (32 * j) 6 = Some c"
    using memcmp_defined [of "32 * i" 6 fs "32 * j" rep] assms by auto
  with Suc.hyps(1) [of "j + 1"] Suc.hyps(2) show ?case by (subst find_filter.simps) auto
qed

lemma missing_filter_defined:
  assumes "length fs = 256" and "length rep = 512" and "count \<le> 8"
  shows "\<exists>r. missing_filter fs rep count i = Some r"
proof (induction "count - i" arbitrary: i)
  case 0
  then show ?case by (subst missing_filter.simps) simp
next
  case (Suc k)
  obtain b where "find_filter fs i rep count 0 = Some b"
    using find_filter_defined [OF assms(1,2) _ assms(3), of i 0] assms(3) Suc.hyps(2) by force
  with Suc.hyps(1) [of "i + 1"] Suc.hyps(2) show ?case by (subst missing_filter.simps) auto
qed

text \<open>Calls that change only the firmware's state and the console.\<close>

definition quiet :: "('f \<Rightarrow> u64 set) \<Rightarrow> ('f, 'a) netifc_scheme \<Rightarrow> ('f, 'a) netifc_scheme \<Rightarrow> bool" where
  "quiet inflight s s' = (s'\<lparr>fw := fw s, console := console s\<rparr> = s \<and> inflight (fw s') = inflight (fw s))"

lemma quiet_intros [simp]:
  "quiet inflight s s"
  "quiet inflight s (printf fmt args s') = quiet inflight s s'"
  "inflight f = inflight (fw s) \<Longrightarrow> quiet inflight s (s\<lparr>fw := f\<rparr>)"
  by (simp_all add: quiet_def printf_def)

lemma quiet_trans: "quiet inflight s s' \<Longrightarrow> quiet inflight s' s'' \<Longrightarrow> quiet inflight s s''"
  unfolding quiet_def by (cases s; cases s'; cases s'') simp

lemma quiet_frame:
  assumes "quiet inflight s s'"
  shows "pool s' A as = pool s A as" and "snp s' = snp s" and "filters_ok s' = filters_ok s"
    and "mcast_filters s' = mcast_filters s" and "mcast_filter_count s' = mcast_filter_count s"
    and "netifc.more s' = netifc.more s" and "inflight (fw s') = inflight (fw s)"
    and "eth_buffers_base s' = eth_buffers_base s"
proof -
  have s: "s = s'\<lparr>fw := fw s, console := console s\<rparr>" and i: "inflight (fw s') = inflight (fw s)"
    using assms by (simp_all add: quiet_def)
  show "inflight (fw s') = inflight (fw s)" by (rule i)
  show "pool s' A as = pool s A as" "snp s' = snp s" "filters_ok s' = filters_ok s"
    "mcast_filters s' = mcast_filters s" "mcast_filter_count s' = mcast_filter_count s"
    "netifc.more s' = netifc.more s" "eth_buffers_base s' = eth_buffers_base s"
    by (subst s, simp add: pool_def filters_ok_def)+
qed

lemma force_promisc_ok:
  assumes "open_contract efi inflight"
  shows "\<exists>r s'. force_promisc efi s = Some (r, s') \<and> r \<in> {0, -1} \<and> quiet inflight s s'"
proof -
  obtain r f where "ReceiveFilters efi (1 OR 8 OR 16) 0 0 0 None (fw s) = (r, f)" by fastforce
  with open_contractD(9) [OF assms this] show ?thesis by (auto simp: force_promisc_def Let_def)
qed

lemma dump_status_ok:
  assumes "snp s \<noteq> NULL" and "length (CurrentAddress (Mode efi (fw s))) = 32"
  shows "\<exists>s'. eth_dump_status efi s = Some s' \<and> quiet inflight s s'"
  using assms by (simp add: eth_dump_status_def rdn_def Let_def)

lemma install_filters_ok:
  assumes c: "open_contract efi inflight" and "snp s \<noteq> NULL" and "filters_ok s"
  shows "\<exists>r s'. install_filters efi s = Some (r, s') \<and> r \<in> {0, -1} \<and> quiet inflight s s'"
proof -
  obtain r f where rf: "ReceiveFilters efi (1 OR 2) 0 0 (ucast (mcast_filter_count s))
      (Some (mcast_filters s)) (fw s) = (r, f)" by fastforce
  let ?s = "s\<lparr>fw := f\<rparr>"
  have q1: "quiet inflight s ?s" using open_contractD(9) [OF c rf] by simp
  obtain s2 where s2: "eth_dump_status efi ?s = Some s2" "quiet inflight ?s s2"
    using dump_status_ok [of ?s efi] open_contractD(1) [OF c] assms(2) by auto
  note q2 = quiet_trans [OF q1 s2(2)]
  have f2: "length (mcast_filters s2) = 256" "unat (mcast_filter_count s2) \<le> 8"
    using quiet_frame(3) [OF q2] assms(3) by (simp_all add: filters_ok_def)
  obtain miss where m: "missing_filter (mcast_filters s2) (MCastFilter (Mode efi (fw s2)))
      (unat (mcast_filter_count s2)) 0 = Some miss"
    using missing_filter_defined [OF f2(1) open_contractD(2) [OF c] f2(2)] by blast
  have fp: "\<exists>r s'. force_promisc efi (printf fmt args s2) = Some (r, s') \<and> r \<in> {0, -1} \<and> quiet inflight s s'"
    for fmt args
    using force_promisc_ok [OF c, of "printf fmt args s2"] q2 quiet_intros(2) quiet_trans by metis
  show ?thesis
    using q1 q2 fp rf unfolding install_filters_def
    by (auto simp: rf s2(1) m Let_def split: option.split)
qed

lemma start_snp_quiet:
  assumes "open_contract efi inflight" and "start_snp efi f = (e, f')"
  shows "inflight f' = inflight f"
  using assms(2) open_contractD(7,8) [OF assms(1)]
  by (auto simp: start_snp_def Let_def split: if_splits prod.splits)

text \<open>The state before the interface is opened, and what has become of it.\<close>

definition pristine :: "('f \<Rightarrow> u64 set) \<Rightarrow> ('f, 'a) inet6_scheme \<Rightarrow> bool" where
  "pristine inflight s = (eth_buffers s = NULL \<and> buffer_heap s = Map.empty \<and> inflight (fw s) = {} \<and>
     addrs_ok s \<and> filters_ok s)"

definition opened :: "('f, 'x) net_fw_scheme \<Rightarrow> ('f \<Rightarrow> u64 set) \<Rightarrow> ('f, 'a) inet6_scheme \<Rightarrow> bool" where
  "opened efi inflight s = (\<exists>mac. stack_ok efi inflight (set (slots (eth_buffers_base s) 16)) s \<and>
     pool s (set (slots (eth_buffers_base s) 16)) (rev (slots (eth_buffers_base s) 16)) \<and> length mac = 6 \<and> ll_mac_addr s = mac \<and> ll_ip6_addr s = ll_addr mac \<and>
     snm_ip6_addr s = snm_addr mac)"

text \<open>From the allocation of the buffers on.\<close>

lemma open_buffers:
  fixes s :: "('f, 'a) inet6_scheme"
  assumes c: "open_contract efi inflight" and tx: "tx_contract efi inflight"
    and s: "pristine inflight s" "snp s \<noteq> NULL"
    and b: "eth_buffers_base s \<noteq> NULL" "unat (eth_buffers_base s) mod 4096 = 0"
      "unat (eth_buffers_base s) + 4096 * 8 \<le> 2 ^ 64"
  shows "\<exists>r s'. do {
      s \<leftarrow> init_buffers efi 16 (eth_buffers_base s) s;
      s \<leftarrow> ip6_init efi (CurrentAddress (Mode efi (fw s))) s;
      install_filters efi s } = Some (r, s') \<and> r \<in> {0, -1} \<and> opened efi inflight s' \<and>
    inet6.more s' = inet6.more s"
proof -
  let ?b = "eth_buffers_base s"
  have "unat ?b mod 2048 = 0" using b(2) mod_mod_cancel [of 2048 4096 "unat ?b"] by simp
  then have al: "?b AND 2047 = 0" by (simp add: slot_aligned)
  have "pool s {} []" using s(1) by (simp add: pool_def pristine_def slots_ok_def)
  from init_buffers_pool [OF this al b(1), of 16 efi] b(3) obtain s1 where
    s1: "init_buffers efi 16 ?b s = Some s1" "untouched s1 = untouched s" "fw s1 = fw s"
      "pool s1 (set (slots ?b 16)) (rev (slots ?b 16))" by auto
  have u1: "snp s1 = snp s" "filters_ok s1 = filters_ok s" "eth_buffers_base s1 = ?b"
    using s1(2) by (auto simp: untouched_def filters_ok_def)
  have m1: "inet6.more s1 = inet6.more s" "addrs_ok s1"
    using untouched_inet6(1,5) [OF s1(2)] s(1) by (simp_all add: pristine_def)
  define mac where "mac = take 6 (CurrentAddress (Mode efi (fw s1)))"
  have lmac: "length mac = 6" using open_contractD(1) [OF c, of "fw s1"] by (simp add: mac_def)
  obtain fs cn con where i: "ip6_init efi (CurrentAddress (Mode efi (fw s1))) s1 =
      Some (s1\<lparr>ll_mac_addr := mac, ll_ip6_addr := ll_addr mac, snm_ip6_addr := snm_addr mac,
        snm_mac_addr := [0x33, 0x33] @ drop 12 (snm_addr mac),
        mcast_filters := fs, mcast_filter_count := cn, console := con\<rparr>)" "length fs = 256" "unat cn \<le> 8"
    using ip6_init_ok [OF m1(2), of "CurrentAddress (Mode efi (fw s1))" efi] u1 s
      open_contractD(1) [OF c, of "fw s1"] unfolding mac_def pristine_def by auto
  define s2 where "s2 = s1\<lparr>ll_mac_addr := mac, ll_ip6_addr := ll_addr mac, snm_ip6_addr := snm_addr mac,
        snm_mac_addr := [0x33, 0x33] @ drop 12 (snm_addr mac),
        mcast_filters := fs, mcast_filter_count := cn, console := con\<rparr>"
  have i2: "ip6_init efi (CurrentAddress (Mode efi (fw s1))) s1 = Some s2" using i(1) by (simp only: s2_def)
  obtain r s3 where s3: "install_filters efi s2 = Some (r, s3)" "r \<in> {0, -1}" "quiet inflight s2 s3"
    using install_filters_ok [OF c, of s2] i(2,3) u1(1) s(2) by (auto simp: s2_def filters_ok_def)
  note q = quiet_frame [OF s3(3)]
  have p3: "pool s3 (set (slots ?b 16)) (rev (slots ?b 16))"
    unfolding q(1) using s1(4) by (simp add: s2_def pool_def)
  have "accounted inflight (set (slots ?b 16)) [] s3"
    unfolding accounted_def using p3 q(2,7) u1(1) s s1(3)
    by (auto simp: s2_def pristine_def intro!: exI [of _ "rev (slots ?b 16)"])
  moreover have "eth_buffers_base s3 = ?b"
    using q(8) u1(3) by (simp add: s2_def)
  moreover have e: "ll_mac_addr s3 = mac" "ll_ip6_addr s3 = ll_addr mac" "snm_ip6_addr s3 = snm_addr mac"
      "snm_mac_addr s3 = [0x33, 0x33] @ drop 12 (snm_addr mac)"
      "rx_mac_addr s3 = rx_mac_addr s1" "rx_ip6_addr s3 = rx_ip6_addr s1" "inet6.more s3 = inet6.more s1"
    using q(6) by (cases s3; cases s1; simp add: s2_def)+
  moreover have "addrs_ok s3" using e lmac m1(2) by (simp add: addrs_ok_def)
  ultimately have "opened efi inflight s3"
    using lmac tx p3 by (auto simp: opened_def stack_ok_def drv_idle_def)
  with s1(1) i2 s3(1,2) e(7) m1(1) show ?thesis by simp
qed

lemma netifc_open_ok:
  assumes c: "open_contract efi inflight" and tx: "tx_contract efi inflight" and s: "pristine inflight s"
  shows "\<exists>r s'. netifc_open efi s = Some (r, s') \<and> r \<in> {0, -1} \<and> (r = 0 \<longrightarrow> opened efi inflight s') \<and>
    inet6.more s' = inet6.more s"
proof -
  obtain r0 ev f0 where e0: "CreateEvent efi (fw s) = (r0, ev, f0)" by (cases "CreateEvent efi (fw s)")
  obtain r1 h f1 where e1: "LocateHandle efi 256 f0 = (r1, h, f1)" by (cases "LocateHandle efi 256 f0")
  obtain r2 p f2 where e2: "OpenSNP efi (h 0) f1 = (r2, p, f2)" by (cases "OpenSNP efi (h 0) f1")
  obtain e f3 where e3: "start_snp efi f2 = (e, f3)" by fastforce
  obtain r4 b f4 where e4: "AllocatePages efi AllocateAnyPages EfiLoaderData 8
      (eth_buffers_base s) f3 = (r4, b, f4)"
    by (cases "AllocatePages efi AllocateAnyPages EfiLoaderData 8 (eth_buffers_base s) f3")
  have inf: "inflight f4 = {}"
    using open_contractD(3) [OF c e0] open_contractD(4) [OF c e1] open_contractD(5) [OF c e2]
      start_snp_quiet [OF c e3] open_contractD(10) [OF c e4] s by (simp add: pristine_def)
  let ?s = "s\<lparr>net_timer := ev, snp := p, eth_buffers_base := b, fw := f4\<rparr>"
  show ?thesis
  proof (cases "r1 = 0 \<and> r2 = 0 \<and> e = None \<and> r4 = 0")
    case False
    then show ?thesis
      using open_contractD(6) [OF c, of "h 0" f1 p f2] e2
      by (auto simp: netifc_open_def e0 e1 e2 e3 e4 Let_def split: option.split)
  next
    case True
    then have p: "p \<noteq> NULL" using open_contractD(6) [OF c] e2 by blast
    have b: "b \<noteq> NULL \<and> unat b mod 4096 = 0 \<and> unat b + 4096 * 8 \<le> 2 ^ 64"
      using open_contractD(11) [OF c] e4 True by force
    have "pristine inflight ?s" using s inf by (simp add: pristine_def addrs_ok_def filters_ok_def)
    from open_buffers [OF c tx this] p b obtain r s' where
      "do { s \<leftarrow> init_buffers efi 16 b ?s; s \<leftarrow> ip6_init efi (CurrentAddress (Mode efi (fw s))) s;
            install_filters efi s } = Some (r, s')" "r \<in> {0, -1}" "opened efi inflight s'"
        "inet6.more s' = inet6.more s" by auto
    then show ?thesis
      using True p by (simp add: netifc_open_def e0 e1 e2 e3 e4 Let_def)
  qed
qed

section \<open>Polling keeps the invariant\<close>

text \<open>A received frame is no longer than the buffer it was asked for.\<close>

definition rx_contract :: "('f, 'x) net_fw_scheme \<Rightarrow> bool" where
  "rx_contract efi \<longleftrightarrow> (\<forall>n f c m f'. Receive efi n f = (0, c, m, f') \<longrightarrow> m \<le> n)"

lemma buf_base_offset: "p - buf_base p < 2048"
proof -
  have "(p AND NOT 2047) AND (p AND 2047) = 0" by (rule bit_word_eqI) (auto simp: bit_simps)
  then have "(p AND NOT 2047) + (p AND 2047) = (p AND NOT 2047) OR (p AND 2047)"
    by (rule disjunctive_add_eq_or)
  also have "\<dots> = p" by (rule bit_word_eqI) (auto simp: bit_simps)
  finally have "p - buf_base p = p AND 2047" unfolding buf_base_def by (metis add_diff_cancel_left')
  then show ?thesis by (simp only: eth.and_2047_less)
qed

lemma poll_status:
  fixes s :: "('f, 'a) inet6_scheme"
  assumes ok: "stack_ok efi inflight A s" and g: "GetStatus efi (fw s) = (0, irq, tx, f)"
  shows "\<exists>s'. (if tx \<noteq> NULL then eth_put_buffer tx (s\<lparr>fw := f\<rparr>) else Some (s\<lparr>fw := f\<rparr>)) = Some s' \<and>
    stack_ok efi inflight A s' \<and> inet6.more s' = inet6.more s \<and> fw s' = f \<and> untouched s' = untouched s"
proof -
  have tx: "tx_contract efi inflight" using ok by (simp add: stack_ok_def drv_idle_def)
  from ok obtain as where as: "pool s A as" "inflight (fw s) \<inter> set as = {}" "inflight (fw s) \<union> set as = A"
      "snp s \<noteq> NULL" "addrs_ok s"
    by (auto simp: stack_ok_def drv_idle_def accounted_def)
  let ?s = "s\<lparr>fw := f\<rparr>"
  have pool: "pool ?s A as" using as(1) by (simp add: pool_def)
  show ?thesis
  proof (cases "tx = NULL")
    case True
    then have "inflight f = inflight (fw s)" using tx_contractD(3) [OF tx g] by simp
    then have "stack_ok efi inflight A ?s"
      using as pool tx by (auto simp: stack_ok_def drv_idle_def accounted_def addrs_ok_def)
    with True show ?thesis by (simp add: untouched_def)
  next
    case False
    let ?a = "buf_base tx"
    have a: "?a \<in> inflight (fw s)" "inflight f = inflight (fw s) - {?a}"
      using tx_contractD(2) [OF tx g refl False] by auto
    then have "accounted inflight A [?a] ?s"
      unfolding accounted_def using as pool by (auto intro!: exI [of _ as])
    moreover have "tx - ?a < 2048" by (rule buf_base_offset)
    ultimately obtain s' where s': "eth_put_buffer tx ?s = Some s'" "accounted inflight A [] s'"
        "untouched s' = untouched ?s" "fw s' = f"
      using accounted_put [of inflight A ?a ?s "tx - ?a"] by auto
    then show ?thesis
      using False tx as(5) untouched_inet6(1,5) [OF s'(3)]
      by (simp add: stack_ok_def drv_idle_def addrs_ok_def untouched_def)
  qed
qed

context udp_service
begin

lemma netifc_poll_good:
  assumes "good s" and "rx_contract efi"
  shows "\<exists>s'. netifc_poll efi recv s = Some s' \<and> good s'"
proof -
  obtain r irq tx f where g: "GetStatus efi (fw s) = (r, irq, tx, f)" by (cases "GetStatus efi (fw s)")
  have ok: "stack_ok efi inflight A s" "extra s" "snp s \<noteq> NULL" "tx_contract efi inflight"
    using assms(1) by (auto simp: good_def stack_ok_def drv_idle_def accounted_def)
  show ?thesis
  proof (cases "r = 0")
    case False
    then have "inflight f = inflight (fw s)" using tx_contractD(3) [OF ok(4) g] by simp
    then have "stack_ok efi inflight A (s\<lparr>fw := f\<rparr>)"
      using ok(1) by (auto simp: stack_ok_def drv_idle_def accounted_def addrs_ok_def pool_def)
    then show ?thesis
      using False ok(2,3) g extra_more [of "s\<lparr>fw := f\<rparr>" s] by (simp add: netifc_poll_def good_def)
  next
    case True
    obtain s1 where s1: "(if tx \<noteq> NULL then eth_put_buffer tx (s\<lparr>fw := f\<rparr>) else Some (s\<lparr>fw := f\<rparr>)) = Some s1"
        "stack_ok efi inflight A s1" "inet6.more s1 = inet6.more s"
      using poll_status [OF ok(1)] g True by blast
    obtain r2 c m f2 where rx: "Receive efi ETH_MTU (fw s1) = (r2, c, m, f2)"
      by (cases "Receive efi ETH_MTU (fw s1)")
    have "inflight f2 = inflight (fw s1)" using tx_contractD(4) [OF ok(4) rx] .
    then have ok2: "stack_ok efi inflight A (s1\<lparr>fw := f2\<rparr>)"
      using s1(2) by (auto simp: stack_ok_def drv_idle_def accounted_def addrs_ok_def pool_def)
    have g1: "good s1" "good (s1\<lparr>fw := f2\<rparr>)"
      using s1 ok2 ok(2) extra_more [of s1 s] extra_more [of "s1\<lparr>fw := f2\<rparr>" s] by (simp_all add: good_def)
    have "m \<le> ETH_MTU" if "r2 = 0" using assms(2) rx that unfolding rx_contract_def by blast
    then have "\<exists>s'. eth_recv efi recv (map c [0..<ETH_MTU]) m (s1\<lparr>fw := f2\<rparr>) = Some s' \<and> good s'" if "r2 = 0"
      using eth_recv_good [OF g1(2), of "map c [0..<ETH_MTU]" m] that by auto
    then show ?thesis
      using True ok(3) g1 unfolding netifc_poll_def g Let_def prod.case s1(1)
      by (auto simp: rx)
  qed
qed

end

end
