(* ===== verification/Netboot.thy ===== *)
theory Netboot
  imports Netifc_Open
begin

unbundle bit_operations_syntax

text \<open>
  \<^verbatim>\<open>src/netboot.c\<close> and \<^verbatim>\<open>src/netboot.h\<close>: the server side of the netboot
  protocol, which receives files into memory over UDP, and \<open>netboot_get_buffer\<close> of
  \<^verbatim>\<open>src/osboot.c\<close>, which names the three files it accepts.
\<close>

section \<open>Messages and files\<close>

abbreviation (input) NB_MAGIC :: u32 where "NB_MAGIC \<equiv> 0xAA774217"
abbreviation (input) NB_SERVER_PORT :: u16 where "NB_SERVER_PORT \<equiv> 33330"
abbreviation (input) NB_ADVERT_PORT :: u16 where "NB_ADVERT_PORT \<equiv> 33331"
abbreviation (input) NB_COMMAND :: u32 where "NB_COMMAND \<equiv> 1"
abbreviation (input) NB_SEND_FILE :: u32 where "NB_SEND_FILE \<equiv> 2"
abbreviation (input) NB_DATA :: u32 where "NB_DATA \<equiv> 3"
abbreviation (input) NB_BOOT :: u32 where "NB_BOOT \<equiv> 4"
abbreviation (input) NB_ACK :: u32 where "NB_ACK \<equiv> 0"
abbreviation (input) NB_ADVERTISE :: u32 where "NB_ADVERTISE \<equiv> 0x77777777"
abbreviation (input) NB_ERROR_BAD_CMD :: u32 where "NB_ERROR_BAD_CMD \<equiv> 0x80000001"
abbreviation (input) NB_ERROR_TOO_LARGE :: u32 where "NB_ERROR_TOO_LARGE \<equiv> 0x80000003"
abbreviation (input) NB_ERROR_BAD_FILE :: u32 where "NB_ERROR_BAD_FILE \<equiv> 0x80000004"

text \<open>The header \<open>nbmsg\<close> as it lies in memory: magic, cookie, command, argument.\<close>

definition nbmsg :: "u32 \<Rightarrow> u32 \<Rightarrow> u32 \<Rightarrow> bytes" where
  "nbmsg cookie cmd arg = to_le 4 NB_MAGIC @ to_le 4 cookie @ to_le 4 cmd @ to_le 4 arg"

text \<open>\<open>nbfile\<close>: the buffer's address, its contents, its size and the write pointer.\<close>

record nbfile =
  nb_addr :: u64
  nb_data :: bytes
  nb_size :: u64
  nb_offset :: u64

datatype nbfile_id = NbKernel | NbRamdisk | NbCmdline

record 'f netboot = "'f inet6" +
  last_cookie :: u32
  last_cmd :: u32
  last_arg :: u32
  last_ack_cmd :: u32
  last_ack_arg :: u32
  nb_boot_now :: int
  nb_active :: int
  item :: "nbfile_id option"
  nb_fastcount :: int
  nb_online :: int
  nb_files :: "nbfile_id \<Rightarrow> nbfile"

definition nb_file_upd :: "nbfile_id \<Rightarrow> nbfile \<Rightarrow> ('f, 'a) netboot_scheme \<Rightarrow> ('f, 'a) netboot_scheme" where
  "nb_file_upd i f s = s\<lparr>nb_files := (nb_files s)(i := f)\<rparr>"

text \<open>The name lies in the object \<open>d\<close> at \<open>off\<close>; the comparisons have fixed lengths.\<close>

definition netboot_get_buffer :: "bytes \<Rightarrow> nat \<Rightarrow> nbfile_id option option" where
  "netboot_get_buffer d off =
     do { c \<leftarrow> memcmp d off (asc ''kernel.bin'' @ [0]) 0 11;
          if c = 0 then Some (Some NbKernel) else do {
          c \<leftarrow> memcmp d off (asc ''ramdisk.bin'' @ [0]) 0 11;
          if c = 0 then Some (Some NbRamdisk) else do {
          c \<leftarrow> memcmp d off (asc ''cmdline'' @ [0]) 0 7;
          if c = 0 then Some (Some NbCmdline) else Some None } } }"

section \<open>Receiving\<close>

text \<open>\<open>for (int i = 0; i < (len - 1); i++)\<close> over the file name.\<close>

function sanitize :: "bytes \<Rightarrow> nat \<Rightarrow> nat \<Rightarrow> nat \<Rightarrow> bytes option" where
  "sanitize d off i n =
     (if i < n then do {
        c \<leftarrow> rd8 (off + i) d;
        d \<leftarrow> (if c < 0x20 \<or> c > 127 then wr8 (off + i) (chr8 CHR ''.'') d else Some d);
        sanitize d off (i + 1) n }
      else Some d)"
  by pat_completeness auto
termination
  by (relation "measure (\<lambda>(d, off, i, n). n - i)") auto

declare sanitize.simps [simp del]

abbreviation (input) quoted :: "string \<Rightarrow> string" where
  "quoted x \<equiv> [CHR 0x27] @ x @ [CHR 0x27]"

text \<open>
  The \<open>switch\<close> on the command: the answer's command and argument, or \<open>None\<close> inside when the
  function returns without an answer. \<open>data\<close> is the offset of the message's data and \<open>len\<close> its
  length.
\<close>

definition nb_command :: "bytes \<Rightarrow> nat \<Rightarrow> nat \<Rightarrow> u32 \<Rightarrow> u32 \<Rightarrow> ('f, 'a) netboot_scheme \<Rightarrow>
    ((u32 \<times> u32) option \<times> ('f, 'a) netboot_scheme) option" where
  "nb_command d data len cmd arg s =
     (if cmd = NB_COMMAND then
        if len = 0 then Some (None, s)
        else do { _ \<leftarrow> wr8 (data + len - 1) 0 d; Some (Some (NB_ACK, 0), s) }
      else if cmd = NB_SEND_FILE then
        if len = 0 then Some (None, s)
        else do {
          d \<leftarrow> wr8 (data + len - 1) 0 d;
          d \<leftarrow> sanitize d data 0 (len - 1);
          it \<leftarrow> netboot_get_buffer d data;
          let s = s\<lparr>item := it\<rparr>;
          (case it of
             Some i \<Rightarrow> Some (Some (NB_ACK, 0),
               printf (''netboot: Receive File '' @ quoted ''%s'' @ ''...\<newline>'') [PStr (Some (drop data d))]
                 (nb_file_upd i ((nb_files s i)\<lparr>nb_offset := 0\<rparr>) s))
           | None \<Rightarrow> Some (Some (NB_ERROR_BAD_FILE, 0),
               printf (''netboot: Rejected File '' @ quoted ''%s'' @ ''...\<newline>'') [PStr (Some (drop data d))] s)) }
      else if cmd = NB_DATA then
        (case item s of None \<Rightarrow> Some (None, s)
         | Some i \<Rightarrow>
             let f = nb_files s i in
             if ucast arg \<noteq> nb_offset f then Some (None, s)
             else if nb_offset f + of_nat len > nb_size f then Some (Some (NB_ERROR_TOO_LARGE, arg), s)
             else do {
               b \<leftarrow> memcpy (nb_data f) (unat (nb_offset f)) d data len;
               Some (Some (NB_ACK, arg),
                 nb_file_upd i (f\<lparr>nb_data := b, nb_offset := nb_offset f + of_nat len\<rparr>) s) })
      else if cmd = NB_BOOT then
        Some (Some (NB_ACK, 0), printf ''netboot: Boot Kernel...\<newline>'' [] (s\<lparr>nb_boot_now := 1\<rparr>))
      else Some (Some (NB_ERROR_BAD_CMD, 0), s))"

text \<open>
  The test for a repeated message assigns to \<open>last_arg\<close>: \<open>(last_arg = msg->arg)\<close> is the
  message's argument, and is stored.
\<close>

definition nb_repeated :: "u32 \<Rightarrow> u32 \<Rightarrow> u32 \<Rightarrow> ('f, 'a) netboot_scheme \<Rightarrow> bool \<times> ('f, 'a) netboot_scheme" where
  "nb_repeated cookie cmd arg s =
     (if last_cookie s = cookie \<and> last_cmd s = cmd then (arg \<noteq> 0, s\<lparr>last_arg := arg\<rparr>)
      else (False, s))"

definition nb_transmit :: "('f, 'x) net_fw_scheme \<Rightarrow> bytes \<Rightarrow> bytes \<Rightarrow> u16 \<Rightarrow>
    ('f, 'a) netboot_scheme \<Rightarrow> ('f, 'a) netboot_scheme option" where
  "nb_transmit efi ack saddr sport s =
     do { (_, s) \<leftarrow> udp6_send efi ack 0 16 saddr sport NB_SERVER_PORT (s\<lparr>nb_active := 1\<rparr>);
          Some s }"

definition udp6_recv :: "('f, 'x) net_fw_scheme \<Rightarrow> ('f, 'a) netboot_scheme udp_client" where
  "udp6_recv efi d off len daddr dport saddr sport s =
     (if dport \<noteq> NB_SERVER_PORT then Some s
      else if len < 16 then Some s
      else do {
        let len = len - 16;
        cookie \<leftarrow> rd32 (off + 4) d;
        cmd \<leftarrow> rd32 (off + 8) d;
        arg \<leftarrow> rd32 (off + 12) d;
        let (rep, s) = nb_repeated cookie cmd arg s;
        if rep then
          nb_transmit efi (nbmsg (last_cookie s) (last_ack_cmd s) (last_ack_arg s)) saddr sport s
        else do {
          (ack, s) \<leftarrow> nb_command d (off + 16) len cmd arg s;
          (case ack of None \<Rightarrow> Some s
           | Some (ack_cmd, ack_arg) \<Rightarrow>
               nb_transmit efi (nbmsg cookie ack_cmd ack_arg) saddr sport
                 (s\<lparr>last_cookie := cookie, last_cmd := cmd, last_arg := arg,
                    last_ack_cmd := ack_cmd, last_ack_arg := ack_arg\<rparr>)) } })"

section \<open>Advertising and polling\<close>

text \<open>Three pairs of strings, each terminated, and the terminator of the literal. In the literal
  \<open>"version\00.1\0"\<close> the escape takes both octal digits, so that the version reads \<open>.1\<close>.\<close>

definition advertise_data :: bytes where
  "advertise_data = asc ''version'' @ [0] @ asc ''.1'' @ [0] @ asc ''serialno'' @ [0] @
     asc ''unknown'' @ [0] @ asc ''board'' @ [0] @ asc ''unknown'' @ [0] @ [0]"

definition advertise :: "('f, 'x) net_fw_scheme \<Rightarrow> ('f, 'a) netboot_scheme \<Rightarrow>
    ('f, 'a) netboot_scheme option" where
  "advertise efi s =
     do { buffer \<leftarrow> wrn 0 (nbmsg 0 NB_ADVERTISE 0) (replicate 256 0);
          buffer \<leftarrow> memcpy buffer 16 advertise_data 0 (length advertise_data);
          (_, s) \<leftarrow> udp6_send efi buffer 0 (16 + length advertise_data) ip6_ll_all_nodes
            NB_ADVERT_PORT NB_SERVER_PORT s;
          Some s }"

abbreviation (input) FAST_TICK :: u32 where "FAST_TICK \<equiv> 100"
abbreviation (input) SLOW_TICK :: u32 where "SLOW_TICK \<equiv> 1000"

definition netboot_init :: "('f, 'x) net_fw_scheme \<Rightarrow> ('f, 'a) netboot_scheme \<Rightarrow>
    (int \<times> ('f, 'a) netboot_scheme) option" where
  "netboot_init efi s =
     do { (r, s) \<leftarrow> netifc_open efi s;
          if r \<noteq> 0 then Some (-1, printf ''netboot: Failed to open network interface\<newline>'' [] s)
          else Some (0, s) }"

text \<open>The part of \<open>netboot_poll\<close> that handles the timer.\<close>

definition netboot_tick :: "('f, 'x) net_fw_scheme \<Rightarrow> ('f, 'a) netboot_scheme \<Rightarrow>
    ('f, 'a) netboot_scheme option" where
  "netboot_tick efi s =
     (let (expired, s) = netifc_timer_expired efi s in
      if expired then do {
        let s = (if nb_fastcount s \<noteq> 0
                 then netifc_set_timer efi FAST_TICK (s\<lparr>nb_fastcount := nb_fastcount s - 1\<rparr>)
                 else netifc_set_timer efi SLOW_TICK s);
        if nb_active s \<noteq> 0 then Some (s\<lparr>nb_active := 0\<rparr>) else advertise efi s }
      else Some s)"

definition netboot_poll :: "('f, 'x) net_fw_scheme \<Rightarrow> ('f, 'a) netboot_scheme \<Rightarrow>
    (int \<times> ('f, 'a) netboot_scheme) option" where
  "netboot_poll efi s =
     (if netifc_active s then do {
        s \<leftarrow> (if nb_online s = 0 then
                advertise efi (netifc_set_timer efi FAST_TICK
                  ((printf ''netboot: interface online\<newline>'' [] s)\<lparr>nb_online := 1, nb_fastcount := 20\<rparr>))
              else Some s);
        s \<leftarrow> netboot_tick efi s;
        s \<leftarrow> netifc_poll efi (udp6_recv efi) s;
        if nb_boot_now s \<noteq> 0 then Some (1, s\<lparr>nb_boot_now := 0\<rparr>) else Some (0, s) }
      else Some (0, if nb_online s = 1
                    then (printf ''netboot: interface offline\<newline>'' [] s)\<lparr>nb_online := 0\<rparr> else s))"

definition netboot_close :: "('f, 'x) net_fw_scheme \<Rightarrow> ('f, 'a) netboot_scheme \<Rightarrow>
    ('f, 'a) netboot_scheme option" where
  "netboot_close efi s = netifc_close efi s"

section \<open>The files\<close>

text \<open>A file's buffer has its size, and the write pointer stays inside; sizes leave room for a
  payload without wrap-around.\<close>

definition file_ok :: "nbfile \<Rightarrow> bool" where
  "file_ok f = (length (nb_data f) = unat (nb_size f) \<and> nb_offset f \<le> nb_size f \<and>
     unat (nb_size f) + 1514 < 2 ^ 64)"

definition files_ok :: "('f, 'a) netboot_scheme \<Rightarrow> bool" where
  "files_ok s = (\<forall>i. file_ok (nb_files s i))"

text \<open>What was received of a file so far: the abstract view of the buffer.\<close>

definition content :: "nbfile \<Rightarrow> bytes" where
  "content f = take (unat (nb_offset f)) (nb_data f)"

lemma length_content: "file_ok f \<Longrightarrow> length (content f) = unat (nb_offset f)"
  by (simp add: file_ok_def content_def word_le_nat_alt)

lemma offset_add:
  assumes "file_ok f" and "len \<le> 1514"
  shows "unat (nb_offset f + of_nat len) = unat (nb_offset f) + len"
    and "nb_offset f + of_nat len > nb_size f \<longleftrightarrow> unat (nb_offset f) + len > unat (nb_size f)"
proof -
  have "unat (nb_offset f) \<le> unat (nb_size f)" using assms(1) by (simp add: file_ok_def word_le_nat_alt)
  then have "unat (nb_offset f) + len < 2 ^ 64" using assms by (simp add: file_ok_def)
  then show u: "unat (nb_offset f + of_nat len) = unat (nb_offset f) + len"
    using assms(2) by (simp add: unat_word_ariths unat_of_nat take_bit_nat_eq_self)
  show "nb_offset f + of_nat len > nb_size f \<longleftrightarrow> unat (nb_offset f) + len > unat (nb_size f)"
    by (simp add: word_less_nat_alt u)
qed

lemma nb_write:
  assumes f: "file_ok f" and d: "data + len \<le> length d" "len \<le> 1514"
    and fits: "unat (nb_offset f) + len \<le> unat (nb_size f)"
  obtains b where "memcpy (nb_data f) (unat (nb_offset f)) d data len = Some b"
    "file_ok (f\<lparr>nb_data := b, nb_offset := nb_offset f + of_nat len\<rparr>)"
    "content (f\<lparr>nb_data := b, nb_offset := nb_offset f + of_nat len\<rparr>) =
       content f @ take len (drop data d)"
    "drop (unat (nb_offset f) + len) b = drop (unat (nb_offset f) + len) (nb_data f)"
proof -
  let ?o = "unat (nb_offset f)" and ?m = "take len (drop data d)"
  have l: "length (nb_data f) = unat (nb_size f)" using f by (simp add: file_ok_def)
  have lm: "length ?m = len" using d by simp
  let ?b = "take ?o (nb_data f) @ ?m @ drop (?o + len) (nb_data f)"
  have "memcpy (nb_data f) ?o d data len = Some ?b"
    using d(1) fits l lm by (simp add: memcpy_slice wrn_def)
  moreover have "file_ok (f\<lparr>nb_data := ?b, nb_offset := nb_offset f + of_nat len\<rparr>)"
    using f fits l lm offset_add(1) [OF f d(2)] by (simp add: file_ok_def word_le_nat_alt)
  moreover have "content (f\<lparr>nb_data := ?b, nb_offset := nb_offset f + of_nat len\<rparr>) = content f @ ?m"
    using l lm fits offset_add(1) [OF f d(2)] by (simp add: content_def)
  moreover have "drop (?o + len) ?b = drop (?o + len) (nb_data f)"
    using l lm fits by simp
  ultimately show ?thesis by (rule that)
qed

section \<open>A command never leaves its buffers\<close>

lemma sanitize_ok: "off + n \<le> length d \<Longrightarrow> \<exists>d'. sanitize d off i n = Some d' \<and> length d' = length d"
proof (induction "n - i" arbitrary: i d)
  case 0
  then show ?case by (subst sanitize.simps) auto
next
  case (Suc k)
  then have i: "i < n" and k: "k = n - (i + 1)" by simp_all
  with Suc.prems have r: "rd8 (off + i) d = Some (d ! (off + i))" by (simp add: rd8_def)
  have "\<exists>d1. (if d ! (off + i) < 0x20 \<or> d ! (off + i) > 127
      then wr8 (off + i) (chr8 CHR ''.'') d else Some d) = Some d1 \<and> length d1 = length d"
    using i Suc.prems by (simp add: wr8_def)
  then obtain d1 where d1: "(if d ! (off + i) < 0x20 \<or> d ! (off + i) > 127
      then wr8 (off + i) (chr8 CHR ''.'') d else Some d) = Some d1" "length d1 = length d" by blast
  obtain d2 where d2: "sanitize d1 off (i + 1) n = Some d2" "length d2 = length d1"
    using Suc.hyps(1) [OF k, of d1] Suc.prems d1(2) by auto
  show ?case
    using i r d1 d2 by (subst sanitize.simps) (simp only: if_True Option.bind.simps, simp)
qed

lemma get_buffer_ok: "off + 11 \<le> length d \<Longrightarrow> \<exists>r. netboot_get_buffer d off = Some r"
  using memcmp_defined [of off 11 d 0 "asc ''kernel.bin'' @ [0]"]
    memcmp_defined [of off 11 d 0 "asc ''ramdisk.bin'' @ [0]"]
    memcmp_defined [of off 7 d 0 "asc ''cmdline'' @ [0]"]
  by (auto simp: netboot_get_buffer_def)

lemma stack_ok_nb [simp]:
  fixes s :: "('f, 'a) netboot_scheme"
  shows "stack_ok efi inflight A (s\<lparr>item := it\<rparr>) = stack_ok efi inflight A s"
    and "stack_ok efi inflight A (s\<lparr>nb_files := fs\<rparr>) = stack_ok efi inflight A s"
    and "stack_ok efi inflight A (s\<lparr>nb_boot_now := b\<rparr>) = stack_ok efi inflight A s"
    and "stack_ok efi inflight A (s\<lparr>nb_active := b\<rparr>) = stack_ok efi inflight A s"
    and "stack_ok efi inflight A (s\<lparr>nb_online := b\<rparr>) = stack_ok efi inflight A s"
    and "stack_ok efi inflight A (s\<lparr>nb_fastcount := b\<rparr>) = stack_ok efi inflight A s"
    and "stack_ok efi inflight A (s\<lparr>last_arg := a\<rparr>) = stack_ok efi inflight A s"
    and "stack_ok efi inflight A (s\<lparr>last_cookie := c, last_cmd := m, last_arg := a,
      last_ack_cmd := ac, last_ack_arg := aa\<rparr>) = stack_ok efi inflight A s"
  by (simp_all add: stack_ok_def drv_idle_def accounted_def pool_def addrs_ok_def)

lemma files_ok_nb [simp]:
  fixes s :: "('f, 'a) netboot_scheme"
  shows "files_ok (s\<lparr>item := it\<rparr>) = files_ok s"
    and "files_ok (s\<lparr>nb_boot_now := b\<rparr>) = files_ok s"
    and "files_ok (s\<lparr>nb_active := b\<rparr>) = files_ok s"
    and "files_ok (s\<lparr>nb_online := b\<rparr>) = files_ok s"
    and "files_ok (s\<lparr>nb_fastcount := b\<rparr>) = files_ok s"
    and "files_ok (s\<lparr>last_arg := a\<rparr>) = files_ok s"
    and "files_ok (s\<lparr>last_cookie := c, last_cmd := m, last_arg := a, last_ack_cmd := ac, last_ack_arg := aa\<rparr>)
      = files_ok s"
    and "files_ok (printf fmt args s) = files_ok s"
  by (simp_all add: files_ok_def printf_def)

lemma files_ok_more:
  fixes s s' :: "('f, 'a) netboot_scheme"
  assumes "inet6.more s' = inet6.more s"
  shows "files_ok s' = files_ok s"
proof -
  have "nb_files s' = nb_files s" using assms by (cases s; cases s') simp
  then show ?thesis by (simp add: files_ok_def)
qed

lemma files_upd_ok:
  fixes s :: "('f, 'a) netboot_scheme"
  assumes "stack_ok efi inflight A s" and "files_ok s" and "file_ok f"
  shows "stack_ok efi inflight A (nb_file_upd i f s)" and "files_ok (nb_file_upd i f s)"
  using assms by (simp_all add: files_ok_def nb_file_upd_def)

lemma nb_send_file_ok:
  fixes s :: "('f, 'a) netboot_scheme"
  assumes ok: "stack_ok efi inflight A s" "files_ok s" and "length d = ETH_MTU" and "78 + len \<le> ETH_MTU"
  shows "\<exists>ack s'. nb_command d 78 len NB_SEND_FILE arg s = Some (ack, s') \<and> stack_ok efi inflight A s' \<and> files_ok s'"
proof (cases "len = 0")
  case True
  with assms show ?thesis by (simp add: nb_command_def)
next
  case False
  have "file_ok ((nb_files s i)\<lparr>nb_offset := 0\<rparr>)" for i using ok(2) by (simp add: files_ok_def file_ok_def)
  note reset = files_upd_ok [OF ok this]
  obtain d1 where d1: "wr8 (78 + len - 1) 0 d = Some d1" "length d1 = ETH_MTU"
    using assms(3,4) False by (auto simp: wr8_def)
  obtain d2 it where d2: "sanitize d1 78 0 (len - 1) = Some d2" "netboot_get_buffer d2 78 = Some it"
    using sanitize_ok [of 78 "len - 1" d1 0] get_buffer_ok [of 78] assms(4) d1(2) by force
  have "nb_file_upd i f (s\<lparr>item := it\<rparr>) = (nb_file_upd i f s)\<lparr>item := it\<rparr>" for i f
    by (simp add: nb_file_upd_def)
  with False d1(1) d2 ok reset show ?thesis by (cases it) (simp_all add: nb_command_def)
qed

lemma nb_data_ok:
  fixes s :: "('f, 'a) netboot_scheme"
  assumes ok: "stack_ok efi inflight A s" "files_ok s" and "length d = ETH_MTU" and "78 + len \<le> ETH_MTU"
  shows "\<exists>ack s'. nb_command d 78 len NB_DATA arg s = Some (ack, s') \<and> stack_ok efi inflight A s' \<and> files_ok s'"
proof (cases "item s")
  case None
  with ok show ?thesis by (simp add: nb_command_def)
next
  case (Some i)
  let ?f = "nb_files s i"
  have f: "file_ok ?f" using ok(2) by (simp add: files_ok_def)
  show ?thesis
  proof (cases "unat (nb_offset ?f) + len > unat (nb_size ?f)")
    case True
    with Some assms offset_add(2) [OF f, of len] show ?thesis by (simp add: nb_command_def Let_def)
  next
    case False
    then obtain b where "memcpy (nb_data ?f) (unat (nb_offset ?f)) d 78 len = Some b"
        "file_ok (?f\<lparr>nb_data := b, nb_offset := nb_offset ?f + of_nat len\<rparr>)"
      using nb_write [OF f, of 78 len d] assms(3,4) by auto
    with False Some assms offset_add(2) [OF f, of len] files_upd_ok [OF ok] show ?thesis
      by (simp add: nb_command_def Let_def)
  qed
qed

lemma nb_command_ok:
  fixes s :: "('f, 'a) netboot_scheme"
  assumes "stack_ok efi inflight A s" and "files_ok s" and "length d = ETH_MTU" and "78 + len \<le> ETH_MTU"
  shows "\<exists>ack s'. nb_command d 78 len cmd arg s = Some (ack, s') \<and> stack_ok efi inflight A s' \<and> files_ok s'"
proof -
  consider "cmd = NB_SEND_FILE" | "cmd = NB_DATA" | "cmd \<noteq> NB_SEND_FILE" "cmd \<noteq> NB_DATA" by blast
  then show ?thesis
  proof cases
    case 3
    have "\<exists>d1. wr8 (78 + len - 1) 0 d = Some d1" if "len \<noteq> 0" using assms(3,4) that by (simp add: wr8_def)
    with 3 assms(1,2) show ?thesis by (auto simp: nb_command_def)
  qed (use nb_send_file_ok [OF assms] nb_data_ok [OF assms] in simp_all)
qed

lemma nb_transmit_ok:
  fixes s :: "('f, 'a) netboot_scheme"
  assumes "stack_ok efi inflight A s" and "length ack = 16" and "length saddr = 16"
  shows "\<exists>s'. nb_transmit efi ack saddr sport s = Some s' \<and> stack_ok efi inflight A s' \<and>
    inet6.more s' = inet6.more (s\<lparr>nb_active := 1\<rparr>)"
proof -
  let ?s = "s\<lparr>nb_active := 1\<rparr>"
  have ok: "stack_ok efi inflight A ?s" using assms(1) by simp
  then have "drv_idle efi inflight A ?s" "addrs_ok ?s" by (simp_all add: stack_ok_def)
  from udp6_send_sent [OF this assms(3), of 0 16 ack sport NB_SERVER_PORT] assms(2)
  obtain r s' where s': "udp6_send efi ack 0 16 saddr sport NB_SERVER_PORT ?s = Some (r, s')"
      "drv_idle efi inflight A s'" "untouched s' = untouched ?s" by auto
  show ?thesis using s'(1) drv_idle_frame [OF s'(3,2) ok] by (simp add: nb_transmit_def)
qed

lemma length_nbmsg [simp]: "length (nbmsg a b c) = 16"
  by (simp add: nbmsg_def)

lemma nb_repeated_ok:
  assumes "nb_repeated cookie cmd arg s = (rep, s')"
  shows "stack_ok efi inflight A s' = stack_ok efi inflight A s" and "files_ok s' = files_ok s"
  using assms by (auto simp: nb_repeated_def split: if_splits)

lemma udp6_recv_ok:
  fixes s :: "('f, 'a) netboot_scheme"
  assumes ok: "stack_ok efi inflight A s" "files_ok s" and d: "length d = ETH_MTU" "62 + n \<le> ETH_MTU"
    and src: "length src = 16"
  shows "\<exists>s'. udp6_recv efi d 62 n dst dport src sport s = Some s' \<and> stack_ok efi inflight A s' \<and> files_ok s'"
proof -
  have r: "rd32 66 d = Some (of_le (take 4 (drop 66 d)))" "rd32 70 d = Some (of_le (take 4 (drop 70 d)))"
      "rd32 74 d = Some (of_le (take 4 (drop 74 d)))"
    using d(1) by (simp_all add: rd32_def rdn_def)
  define cookie :: u32 where "cookie = of_le (take 4 (drop 66 d))"
  define cmd :: u32 where "cmd = of_le (take 4 (drop 70 d))"
  define arg :: u32 where "arg = of_le (take 4 (drop 74 d))"
  obtain rep s1 where s1: "nb_repeated cookie cmd arg s = (rep, s1)" by fastforce
  then have ok1: "stack_ok efi inflight A s1" "files_ok s1" using nb_repeated_ok(1) [OF s1, of efi inflight A]
    nb_repeated_ok(2) [OF s1] ok by simp_all
  have tr: "\<exists>s'. nb_transmit efi (nbmsg a b c) src sport s2 = Some s' \<and> stack_ok efi inflight A s' \<and> files_ok s'"
    if "stack_ok efi inflight A s2" "files_ok s2" for s2 :: "('f, 'a) netboot_scheme" and a b c
    using nb_transmit_ok [OF that(1), of "nbmsg a b c" src sport] that(2) src files_ok_more by fastforce
  have com: "\<exists>ack s2. nb_command d 78 (n - 16) cmd arg s1 = Some (ack, s2) \<and>
      stack_ok efi inflight A s2 \<and> files_ok s2" if "16 \<le> n"
    using nb_command_ok [OF ok1 d(1), of "n - 16"] d(2) that by auto
  consider "dport \<noteq> NB_SERVER_PORT \<or> n < 16" | "dport = NB_SERVER_PORT" "16 \<le> n" rep
    | ack s2 where "dport = NB_SERVER_PORT" "16 \<le> n" "\<not> rep" "nb_command d 78 (n - 16) cmd arg s1 = Some (ack, s2)"
      "stack_ok efi inflight A s2" "files_ok s2"
    using com by fastforce
  then show ?thesis
  proof cases
    case 1
    then show ?thesis using ok by (auto simp: udp6_recv_def)
  next
    case 2
    then show ?thesis using tr [OF ok1] r s1 by (simp add: udp6_recv_def cookie_def cmd_def arg_def)
  next
    case 3
    let ?s = "s2\<lparr>last_cookie := cookie, last_cmd := cmd, last_arg := arg,
      last_ack_cmd := fst (the ack), last_ack_arg := snd (the ack)\<rparr>"
    show ?thesis
      using 3 tr [of ?s cookie "fst (the ack)" "snd (the ack)"] r s1
      by (cases ack) (auto simp: udp6_recv_def cookie_def cmd_def arg_def)
  qed
qed

interpretation nb: udp_service efi inflight A "udp6_recv efi :: ('f, 'a) netboot_scheme udp_client" files_ok
  for efi :: "('f, 'x) net_fw_scheme" and inflight A
proof
  show "\<exists>s'. udp6_recv efi d 62 n dst dport src sport s = Some s' \<and> stack_ok efi inflight A s' \<and> files_ok s'"
    if "stack_ok efi inflight A s" "files_ok s" "length d = ETH_MTU" "62 + n \<le> ETH_MTU"
      "length dst = 16" "length src = 16"
    for s :: "('f, 'a) netboot_scheme" and d n dst dport src sport
    using udp6_recv_ok [OF that(1-4,6)] .
qed (rule files_ok_more)

section \<open>Every poll returns and keeps the invariant\<close>

definition nb_good :: "('f, 'x) net_fw_scheme \<Rightarrow> ('f \<Rightarrow> u64 set) \<Rightarrow> u64 set \<Rightarrow>
    ('f, 'a) netboot_scheme \<Rightarrow> bool" where
  "nb_good efi inflight A s = (stack_ok efi inflight A s \<and> files_ok s)"

lemma good_fw:
  fixes s :: "('f, 'a) netboot_scheme"
  assumes "nb_good efi inflight A s" and "inflight f = inflight (fw s)"
  shows "nb_good efi inflight A (s\<lparr>fw := f\<rparr>)"
  using assms by (auto simp: nb_good_def stack_ok_def drv_idle_def accounted_def pool_def addrs_ok_def files_ok_def)

lemma good_nb [simp]:
  fixes s :: "('f, 'a) netboot_scheme"
  shows "nb_good efi inflight A (s\<lparr>nb_boot_now := b\<rparr>) = nb_good efi inflight A s"
    and "nb_good efi inflight A (s\<lparr>nb_active := b\<rparr>) = nb_good efi inflight A s"
    and "nb_good efi inflight A (s\<lparr>nb_online := b\<rparr>) = nb_good efi inflight A s"
    and "nb_good efi inflight A (s\<lparr>nb_fastcount := b\<rparr>) = nb_good efi inflight A s"
    and "nb_good efi inflight A (printf fmt args s) = nb_good efi inflight A s"
  by (simp_all add: nb_good_def)

lemma set_timer_good:
  assumes "nb_good efi inflight A s"
  shows "nb_good efi inflight A (netifc_set_timer efi ms s)"
proof -
  have tx: "tx_contract efi inflight" using assms by (simp add: nb_good_def stack_ok_def drv_idle_def)
  obtain r f where sf: "SetTimer efi (net_timer s) TimerRelative (TIMER_MS ms) (fw s) = (r, f)" by fastforce
  with good_fw [OF assms tx_contractD(5) [OF tx sf]] assms show ?thesis by (simp add: netifc_set_timer_def)
qed

lemma timer_expired_good:
  assumes "nb_good efi inflight A s" and "netifc_timer_expired efi s = (e, s')"
  shows "nb_good efi inflight A s'"
proof -
  have tx: "tx_contract efi inflight" using assms by (simp add: nb_good_def stack_ok_def drv_idle_def)
  obtain r f where cf: "CheckEvent efi (net_timer s) (fw s) = (r, f)" by fastforce
  with good_fw [OF assms(1) tx_contractD(6) [OF tx cf]] assms show ?thesis
    by (auto simp: netifc_timer_expired_def split: if_splits)
qed

lemma length_advertise_data: "length advertise_data = 43"
  by (simp add: advertise_data_def)

lemma advertise_good:
  fixes s :: "('f, 'a) netboot_scheme"
  assumes "nb_good efi inflight A s"
  shows "\<exists>s'. advertise efi s = Some s' \<and> nb_good efi inflight A s'"
proof -
  have ok: "stack_ok efi inflight A s" "files_ok s" using assms by (simp_all add: nb_good_def)
  obtain b where b: "(wrn 0 (nbmsg 0 NB_ADVERTISE 0) (replicate 256 0) \<bind>
      (\<lambda>x. memcpy x 16 advertise_data 0 43)) = Some b" "length b = 256"
    using wrn_memcpy [of 16 0 "nbmsg 0 NB_ADVERTISE 0" 0 43 advertise_data "replicate 256 0" Some]
    by (simp add: length_advertise_data wrn_def)
  have "drv_idle efi inflight A s" "addrs_ok s" using ok(1) by (simp_all add: stack_ok_def)
  moreover have "length ip6_ll_all_nodes = 16" by (simp add: ip6_ll_all_nodes_def)
  ultimately obtain r s' where s': "udp6_send efi b 0 (16 + 43) ip6_ll_all_nodes NB_ADVERT_PORT NB_SERVER_PORT s
      = Some (r, s')" "drv_idle efi inflight A s'" "untouched s' = untouched s"
    using udp6_send_sent [of efi inflight A s ip6_ll_all_nodes 0 "16 + 43" b NB_ADVERT_PORT NB_SERVER_PORT] b(2)
    by auto
  note fr = drv_idle_frame [OF s'(3,2) ok(1)]
  have "advertise efi s = Some s'"
    using b(1) s'(1) by (auto simp: advertise_def length_advertise_data Option.bind_eq_Some_conv)
  then show ?thesis using fr files_ok_more [OF fr(2)] ok(2) by (simp add: nb_good_def)
qed

lemma netboot_tick_good:
  assumes "nb_good efi inflight A s"
  shows "\<exists>s'. netboot_tick efi s = Some s' \<and> nb_good efi inflight A s'"
proof -
  obtain e s1 where s1: "netifc_timer_expired efi s = (e, s1)" by fastforce
  note g1 = timer_expired_good [OF assms s1]
  define s2 where "s2 = (if nb_fastcount s1 \<noteq> 0
      then netifc_set_timer efi FAST_TICK (s1\<lparr>nb_fastcount := nb_fastcount s1 - 1\<rparr>)
      else netifc_set_timer efi SLOW_TICK s1)"
  have g2: "nb_good efi inflight A s2" using g1 by (auto simp: s2_def intro!: set_timer_good)
  show ?thesis
    using g1 g2 advertise_good [OF g2] unfolding netboot_tick_def s1 prod.case Let_def s2_def [symmetric]
    by auto
qed

lemma netboot_poll_good:
  fixes s :: "('f, 'a) netboot_scheme"
  assumes good: "nb_good efi inflight A s" and rx: "rx_contract efi"
  shows "\<exists>r s'. netboot_poll efi s = Some (r, s') \<and> r \<in> {0, 1} \<and> nb_good efi inflight A s'"
proof (cases "netifc_active s")
  case False
  with good show ?thesis by (auto simp: netboot_poll_def)
next
  case True
  define s0 where "s0 = netifc_set_timer efi FAST_TICK
    ((printf ''netboot: interface online\<newline>'' [] s)\<lparr>nb_online := 1, nb_fastcount := 20\<rparr>)"
  have "nb_good efi inflight A s0" unfolding s0_def using good by (intro set_timer_good) simp
  from advertise_good [OF this] good
  have "\<exists>s1. (if nb_online s = 0 then advertise efi s0 else Some s) = Some s1 \<and> nb_good efi inflight A s1"
    by simp
  then obtain s1 where
    s1: "(if nb_online s = 0 then advertise efi s0 else Some s) = Some s1" "nb_good efi inflight A s1" by blast
  obtain s2 where s2: "netboot_tick efi s1 = Some s2" "nb_good efi inflight A s2"
    using netboot_tick_good [OF s1(2)] by blast
  obtain s3 where s3: "netifc_poll efi (udp6_recv efi) s2 = Some s3" "nb_good efi inflight A s3"
    using nb.netifc_poll_good [of efi inflight A s2, OF _ rx] s2(2) unfolding nb.good_def nb_good_def by blast
  show ?thesis
    using True s3(2) unfolding netboot_poll_def s0_def [symmetric] s1(1) by (simp add: s2(1) s3(1))
qed

end
