(* ===== verification/Netboot_Spec.thy ===== *)
theory Netboot_Spec
  imports Netboot
begin

unbundle bit_operations_syntax

text \<open>
  What the netboot server promises: the abstract view of its state is the file being received
  and the contents received so far; a message changes that view the way the protocol says, and a
  transfer that is delivered in order ends with exactly the bytes sent.
\<close>

section \<open>Messages in the receive buffer\<close>

text \<open>A datagram in the receive buffer: headers, message header, data, and what is behind.\<close>

definition nb_packet :: "bytes \<Rightarrow> u32 \<Rightarrow> u32 \<Rightarrow> u32 \<Rightarrow> bytes \<Rightarrow> bytes \<Rightarrow> bytes" where
  "nb_packet pre cookie cmd arg payload rest = pre @ nbmsg cookie cmd arg @ payload @ rest"

lemma rd32_field: "length a = off \<Longrightarrow> rd32 off (a @ to_le 4 w @ b) = Some w"
  by (simp add: rd32_def rdn_def of_le_to_le)

lemma nb_packet_reads:
  assumes "length pre = 62"
  shows "rd32 66 (nb_packet pre cookie cmd arg payload rest) = Some cookie"
    and "rd32 70 (nb_packet pre cookie cmd arg payload rest) = Some cmd"
    and "rd32 74 (nb_packet pre cookie cmd arg payload rest) = Some arg"
    and "take (length payload) (drop 78 (nb_packet pre cookie cmd arg payload rest)) = payload"
proof -
  let ?m = "to_le 4 NB_MAGIC"
  show "rd32 66 (nb_packet pre cookie cmd arg payload rest) = Some cookie"
    using rd32_field [of "pre @ ?m" 66 cookie "to_le 4 cmd @ to_le 4 arg @ payload @ rest"] assms
    by (simp add: nb_packet_def nbmsg_def)
  show "rd32 70 (nb_packet pre cookie cmd arg payload rest) = Some cmd"
    using rd32_field [of "pre @ ?m @ to_le 4 cookie" 70 cmd "to_le 4 arg @ payload @ rest"] assms
    by (simp add: nb_packet_def nbmsg_def)
  show "rd32 74 (nb_packet pre cookie cmd arg payload rest) = Some arg"
    using rd32_field [of "pre @ ?m @ to_le 4 cookie @ to_le 4 cmd" 74 arg "payload @ rest"] assms
    by (simp add: nb_packet_def nbmsg_def)
  show "take (length payload) (drop 78 (nb_packet pre cookie cmd arg payload rest)) = payload"
    using slice_append [of "pre @ nbmsg cookie cmd arg" 78 payload "length payload" rest] assms
    by (simp add: nb_packet_def)
qed

section \<open>The abstract server\<close>

record nb_view =
  v_item :: "nbfile_id option"
  v_content :: "nbfile_id \<Rightarrow> bytes"

definition view :: "('f, 'a) netboot_scheme \<Rightarrow> nb_view" where
  "view s = \<lparr>v_item = item s, v_content = (\<lambda>i. content (nb_files s i))\<rparr>"

text \<open>What a data message does: it is appended if it continues the file and fits.\<close>

definition abs_data :: "(nbfile_id \<Rightarrow> nat) \<Rightarrow> nat \<Rightarrow> bytes \<Rightarrow> nb_view \<Rightarrow> nb_view" where
  "abs_data cap arg payload v =
     (case v_item v of None \<Rightarrow> v
      | Some i \<Rightarrow> if arg = length (v_content v i) \<and> arg + length payload \<le> cap i
                  then v\<lparr>v_content := (v_content v)(i := v_content v i @ payload)\<rparr> else v)"

definition abs_open :: "nbfile_id option \<Rightarrow> nb_view \<Rightarrow> nb_view" where
  "abs_open it v = v\<lparr>v_item := it, v_content := (case it of None \<Rightarrow> v_content v
     | Some i \<Rightarrow> (v_content v)(i := []))\<rparr>"

definition caps :: "('f, 'a) netboot_scheme \<Rightarrow> nbfile_id \<Rightarrow> nat" where
  "caps s i = unat (nb_size (nb_files s i))"

lemma printf_nb [simp]:
  fixes s :: "('f, 'a) netboot_scheme"
  shows "view (printf fmt args s) = view s" and "caps (printf fmt args s) = caps s"
  by (simp_all add: printf_def view_def caps_def fun_eq_iff)

lemma unat_u32_u64: "(ucast (arg :: u32) :: u64) = w \<longleftrightarrow> unat arg = unat w"
proof -
  have "unat (ucast arg :: u64) = unat arg" by (simp add: unat_ucast_up)
  then show ?thesis by (metis word_unat_eq_iff)
qed

text \<open>The refinement: \<open>nb_command\<close> on a data message is \<open>abs_data\<close> on the view.\<close>

lemma nb_data_refines:
  fixes s :: "('f, 'a) netboot_scheme"
  assumes ok: "files_ok s" and d: "data + length payload \<le> length d" "length payload \<le> 1514"
    and p: "take (length payload) (drop data d) = payload"
  shows "\<exists>ack s'. nb_command d data (length payload) NB_DATA arg s = Some (ack, s') \<and>
    view s' = abs_data (caps s) (unat arg) payload (view s) \<and> files_ok s' \<and> caps s' = caps s \<and>
    fw s' = fw s \<and> (\<exists>fs. s' = s\<lparr>nb_files := fs\<rparr>) \<and>
    ack = (case item s of None \<Rightarrow> None | Some i \<Rightarrow>
      if unat arg \<noteq> length (content (nb_files s i)) then None
      else if unat arg + length payload > caps s i then Some (NB_ERROR_TOO_LARGE, arg)
      else Some (NB_ACK, arg))"
proof (cases "item s")
  case None
  then show ?thesis using ok by (auto simp: nb_command_def view_def abs_data_def intro!: exI [of _ "nb_files s"])
next
  case (Some i)
  let ?f = "nb_files s i"
  have f: "file_ok ?f" using ok by (simp add: files_ok_def)
  note lc = length_content [OF f] and add = offset_add [OF f d(2)]
  show ?thesis
  proof (cases "unat arg \<noteq> unat (nb_offset ?f) \<or> unat (nb_offset ?f) + length payload > unat (nb_size ?f)")
    case True
    then have "(unat arg \<noteq> length (content ?f)) \<or> unat arg + length payload > caps s i"
      using lc by (auto simp: caps_def)
    then show ?thesis
      using True Some ok lc add
      by (auto simp: nb_command_def Let_def view_def abs_data_def unat_u32_u64 caps_def
          intro!: exI [of _ "nb_files s"])
  next
    case False
    then obtain b where b: "memcpy (nb_data ?f) (unat (nb_offset ?f)) d data (length payload) = Some b"
        "file_ok (?f\<lparr>nb_data := b, nb_offset := nb_offset ?f + of_nat (length payload)\<rparr>)"
        "content (?f\<lparr>nb_data := b, nb_offset := nb_offset ?f + of_nat (length payload)\<rparr>) = content ?f @ payload"
      using nb_write [OF f d] p by (metis not_le_imp_less)
    let ?s = "nb_file_upd i (?f\<lparr>nb_data := b, nb_offset := nb_offset ?f + of_nat (length payload)\<rparr>) s"
    have "nb_command d data (length payload) NB_DATA arg s = Some (Some (NB_ACK, arg), ?s)"
      using False Some b(1) add by (auto simp: nb_command_def Let_def unat_u32_u64)
    moreover have "view ?s = abs_data (caps s) (unat arg) payload (view s)"
      using False Some b(3) lc by (auto simp: view_def abs_data_def nb_file_upd_def caps_def)
    moreover have "files_ok ?s" "caps ?s = caps s" "fw ?s = fw s" "\<exists>fs. ?s = s\<lparr>nb_files := fs\<rparr>"
      using b(2) ok by (auto simp: files_ok_def nb_file_upd_def caps_def)
    ultimately show ?thesis using False Some lc by (auto simp: caps_def)
  qed
qed

section \<open>Opening a file\<close>

lemma memcmp_slice:
  assumes "off + n \<le> length d" and "n \<le> length a"
  shows "\<exists>c. memcmp d off a 0 n = Some c \<and> (c = 0 \<longleftrightarrow> take n (drop off d) = take n a)"
proof -
  obtain c where "memcmp d off a 0 n = Some c" using memcmp_defined [of off n d 0 a] assms by auto
  then show ?thesis using memcmp_zero_iff [of off n d 0 a] assms by auto
qed

text \<open>The three names, of which the last two are compared without their terminator.\<close>

definition file_named :: "bytes \<Rightarrow> nbfile_id option" where
  "file_named x = (if take 11 x = asc ''kernel.bin'' @ [0] then Some NbKernel
     else if take 11 x = asc ''ramdisk.bin'' then Some NbRamdisk
     else if take 7 x = asc ''cmdline'' then Some NbCmdline else None)"

lemma get_buffer_eq:
  assumes "off + 11 \<le> length d"
  shows "netboot_get_buffer d off = Some (file_named (drop off d))"
proof -
  obtain c1 c2 c3 where c: "memcmp d off (asc ''kernel.bin'' @ [0]) 0 11 = Some c1"
      "c1 = 0 \<longleftrightarrow> take 11 (drop off d) = take 11 (asc ''kernel.bin'' @ [0])"
      "memcmp d off (asc ''ramdisk.bin'' @ [0]) 0 11 = Some c2"
      "c2 = 0 \<longleftrightarrow> take 11 (drop off d) = take 11 (asc ''ramdisk.bin'' @ [0])"
      "memcmp d off (asc ''cmdline'' @ [0]) 0 7 = Some c3"
      "c3 = 0 \<longleftrightarrow> take 7 (drop off d) = take 7 (asc ''cmdline'' @ [0])"
    using memcmp_slice [of off 11 d "asc ''kernel.bin'' @ [0]"]
      memcmp_slice [of off 11 d "asc ''ramdisk.bin'' @ [0]"]
      memcmp_slice [of off 7 d "asc ''cmdline'' @ [0]"] assms by auto
  show ?thesis using c(2,4,6) unfolding netboot_get_buffer_def c(1,3,5) Option.bind.simps file_named_def
    by simp
qed

lemma sanitize_printable:
  assumes "\<forall>j<n. 0x20 \<le> d ! (off + j) \<and> d ! (off + j) \<le> 127" and "off + n \<le> length d"
  shows "sanitize d off i n = Some d"
proof (induction "n - i" arbitrary: i)
  case 0
  then show ?case by (subst sanitize.simps) simp
next
  case (Suc k)
  then have "i < n" "k = n - (i + 1)" by simp_all
  with assms Suc.hyps(1) [of "i + 1"] show ?case
    by (subst sanitize.simps) (auto simp: rd8_def not_less not_le)
qed

text \<open>A request for a printable, terminated name opens the file it names and forgets what the file
  held.\<close>

lemma nb_open_refines:
  fixes s :: "('f, 'a) netboot_scheme"
  assumes ok: "files_ok s" and pre: "length pre = 78" and d: "d = pre @ (name @ [0]) @ rest"
    and name: "\<forall>c\<in>set name. 0x20 \<le> c \<and> c \<le> 127" and len: "89 \<le> length d"
  defines "it \<equiv> file_named ((name @ [0]) @ rest)"
  shows "\<exists>s'. nb_command d 78 (length name + 1) NB_SEND_FILE arg s =
      Some (Some (if it = None then NB_ERROR_BAD_FILE else NB_ACK, 0), s') \<and>
    view s' = abs_open it (view s) \<and> files_ok s' \<and> caps s' = caps s \<and>
    stack_ok efi inflight A s' = stack_ok efi inflight A s"
proof -
  have last: "d ! (78 + length name) = 0" using pre by (simp add: d nth_append)
  have w: "wr8 (78 + (length name + 1) - 1) 0 d = Some d"
    using pre last by (simp add: wr8_def d list_update_append)
  have "\<forall>j<length name. 0x20 \<le> d ! (78 + j) \<and> d ! (78 + j) \<le> 127"
    using name pre by (auto simp: d nth_append)
  then have sn: "sanitize d 78 0 (length name) = Some d"
    using pre by (intro sanitize_printable) (simp_all add: d)
  have gb: "netboot_get_buffer d 78 = Some it"
    using get_buffer_eq [of 78 d] len pre by (simp add: it_def d)
  show ?thesis
  proof (cases it)
    case None
    then show ?thesis using w sn gb ok
      by (simp add: nb_command_def) (simp add: view_def abs_open_def caps_def fun_eq_iff)
  next
    case (Some i)
    let ?s = "nb_file_upd i ((nb_files s i)\<lparr>nb_offset := 0\<rparr>) (s\<lparr>item := Some i\<rparr>)"
    have "file_ok ((nb_files s i)\<lparr>nb_offset := 0\<rparr>)" using ok by (auto simp: files_ok_def file_ok_def)
    then have "files_ok ?s" using ok by (simp add: files_ok_def nb_file_upd_def)
    moreover have "view ?s = abs_open it (view s)"
      using Some by (auto simp: view_def abs_open_def nb_file_upd_def content_def)
    moreover have "caps ?s = caps s" by (auto simp: caps_def nb_file_upd_def)
    moreover have "stack_ok efi inflight A ?s = stack_ok efi inflight A s"
      by (simp add: nb_file_upd_def)
    ultimately show ?thesis using w sn gb Some by (simp add: nb_command_def)
  qed
qed

section \<open>A whole transfer\<close>

text \<open>A message that is not a repetition of the last one.\<close>

lemma udp6_recv_fresh:
  assumes "length pre = 62" and "d = nb_packet pre cookie cmd arg payload rest"
    and "cookie \<noteq> last_cookie s \<or> cmd \<noteq> last_cmd s"
  shows "udp6_recv efi d 62 (16 + length payload) dst NB_SERVER_PORT src sport s =
    do { (ack, s) \<leftarrow> nb_command d 78 (length payload) cmd arg s;
         (case ack of None \<Rightarrow> Some s
          | Some (ack_cmd, ack_arg) \<Rightarrow> nb_transmit efi (nbmsg cookie ack_cmd ack_arg) src sport
              (s\<lparr>last_cookie := cookie, last_cmd := cmd, last_arg := arg,
                 last_ack_cmd := ack_cmd, last_ack_arg := ack_arg\<rparr>)) }"
  using assms(3) by (auto simp: udp6_recv_def assms(2) nb_packet_reads [OF assms(1)] nb_repeated_def)

lemma nb_transmit_view:
  fixes s :: "('f, 'a) netboot_scheme"
  assumes "stack_ok efi inflight A s" and "length src = 16"
  obtains s' where "nb_transmit efi (nbmsg a b c) src sport s = Some s'" "stack_ok efi inflight A s'"
    "view s' = view s" "caps s' = caps s" "files_ok s' = files_ok s"
    "last_cookie s' = last_cookie s" "last_cmd s' = last_cmd s"
proof -
  obtain s' where s': "nb_transmit efi (nbmsg a b c) src sport s = Some s'" "stack_ok efi inflight A s'"
      "inet6.more s' = inet6.more (s\<lparr>nb_active := 1\<rparr>)"
    using nb_transmit_ok [OF assms(1), of "nbmsg a b c" src sport] assms(2) by auto
  have "item s' = item s" "nb_files s' = nb_files s" "last_cookie s' = last_cookie s" "last_cmd s' = last_cmd s"
    using s'(3) by (cases s; cases s'; simp)+
  then show ?thesis using that s' by (simp add: view_def caps_def files_ok_def fun_eq_iff)
qed

text \<open>One block that continues the open file.\<close>

lemma nb_block:
  fixes s :: "('f, 'a) netboot_scheme"
  assumes ok: "stack_ok efi inflight A s" "files_ok s" and it: "item s = Some i"
    and off: "off = length (content (nb_files s i))" "off + length b \<le> caps s i" "caps s i < 2 ^ 32"
    and new: "cookie \<noteq> last_cookie s \<or> last_cmd s \<noteq> NB_DATA"
    and b: "length b \<le> 1436" and pre: "length pre = 62" and src: "length src = 16"
  obtains s' where "udp6_recv efi (nb_packet pre cookie NB_DATA (of_nat off) b rest) 62 (16 + length b)
      dst NB_SERVER_PORT src sport s = Some s'"
    "stack_ok efi inflight A s'" "files_ok s'" "item s' = Some i" "caps s' = caps s"
    "content (nb_files s' i) = content (nb_files s i) @ b" "last_cookie s' = cookie"
proof -
  let ?d = "nb_packet pre cookie NB_DATA (of_nat off) b rest"
  have "78 + length b \<le> length ?d" using pre by (simp add: nb_packet_def)
  moreover have u: "unat (of_nat off :: u32) = off"
    using off(2,3) by (simp add: unat_of_nat take_bit_nat_eq_self)
  ultimately obtain s1 fs where s1: "nb_command ?d 78 (length b) NB_DATA (of_nat off) s = Some (Some (NB_ACK, of_nat off), s1)"
      "view s1 = abs_data (caps s) off b (view s)" "files_ok s1" "caps s1 = caps s" "s1 = s\<lparr>nb_files := fs\<rparr>"
    using nb_data_refines [OF ok(2), of 78 b ?d "of_nat off"] b nb_packet_reads(4) [OF pre] it off(1,2)
    by auto
  let ?s = "s1\<lparr>last_cookie := cookie, last_cmd := NB_DATA, last_arg := of_nat off,
      last_ack_cmd := NB_ACK, last_ack_arg := of_nat off\<rparr>"
  have "stack_ok efi inflight A ?s" using ok(1) s1(5) by simp
  then obtain s' where s': "nb_transmit efi (nbmsg cookie NB_ACK (of_nat off)) src sport ?s = Some s'"
      "stack_ok efi inflight A s'" "view s' = view ?s" "caps s' = caps ?s" "files_ok s' = files_ok ?s"
      "last_cookie s' = cookie"
    using nb_transmit_view [of efi inflight A ?s src cookie NB_ACK "of_nat off" sport] src by auto
  have v: "view ?s = view s1" "caps ?s = caps s1" by (simp_all add: view_def caps_def fun_eq_iff)
  have a: "abs_data (caps s) off b (view s) = (view s)\<lparr>v_content := (v_content (view s))
      (i := content (nb_files s i) @ b)\<rparr>"
    using it off(1,2) by (simp add: abs_data_def view_def)
  have vs: "v_item (view s') = item s'" "v_content (view s') i = content (nb_files s' i)"
    by (simp_all add: view_def)
  have "view s' = (view s)\<lparr>v_content := (v_content (view s))(i := content (nb_files s i) @ b)\<rparr>"
    using s'(3) v(1) s1(2) a by simp
  then have "item s' = Some i" "content (nb_files s' i) = content (nb_files s i) @ b"
    using vs it by (simp_all add: view_def)
  moreover have "udp6_recv efi ?d 62 (16 + length b) dst NB_SERVER_PORT src sport s = Some s'"
    using new s1(1) s'(1) by (subst udp6_recv_fresh [OF pre refl]) auto
  ultimately show ?thesis using that s' v(2) s1(3,4) by simp
qed

text \<open>The blocks of a file, delivered in order with consecutive cookies. The frame around a message
  (\<open>hdr\<close>, \<open>tail\<close>) may be any.\<close>

fun deliver :: "('f, 'x) net_fw_scheme \<Rightarrow> (u32 \<Rightarrow> bytes) \<Rightarrow> (u32 \<Rightarrow> bytes) \<Rightarrow> bytes \<Rightarrow> bytes \<Rightarrow> u16 \<Rightarrow>
    u32 \<Rightarrow> nat \<Rightarrow> bytes list \<Rightarrow> ('f, 'a) netboot_scheme \<Rightarrow> ('f, 'a) netboot_scheme option" where
  "deliver efi hdr tail dst src sport cookie off [] s = Some s"
| "deliver efi hdr tail dst src sport cookie off (b # bs) s =
     do { s \<leftarrow> udp6_recv efi (nb_packet (hdr cookie) cookie NB_DATA (of_nat off) b (tail cookie)) 62
            (16 + length b) dst NB_SERVER_PORT src sport s;
          deliver efi hdr tail dst src sport (cookie + 1) (off + length b) bs s }"

lemma deliver_content:
  fixes s :: "('f, 'a) netboot_scheme"
  assumes ok: "stack_ok efi inflight A s" "files_ok s" and it: "item s = Some i"
    and off: "off = length (content (nb_files s i))" "off + length (concat bs) \<le> caps s i" "caps s i < 2 ^ 32"
    and new: "cookie \<noteq> last_cookie s \<or> last_cmd s \<noteq> NB_DATA"
    and b: "\<forall>b\<in>set bs. length b \<le> 1436" and hdr: "\<And>k. length (hdr k) = 62" and src: "length src = 16"
  shows "\<exists>s'. deliver efi hdr tail dst src sport cookie off bs s = Some s' \<and>
    stack_ok efi inflight A s' \<and> files_ok s' \<and> item s' = Some i \<and>
    content (nb_files s' i) = content (nb_files s i) @ concat bs"
  using ok it off new b
proof (induction bs arbitrary: s off cookie)
  case Nil
  then show ?case by simp
next
  case (Cons b bs)
  have "off + length b \<le> caps s i" "length b \<le> 1436" using Cons.prems(5,8) by auto
  from nb_block [OF Cons.prems(1-4) this(1) Cons.prems(6,7) this(2) hdr src]
  obtain s1 where s1: "udp6_recv efi (nb_packet (hdr cookie) cookie NB_DATA (of_nat off) b (tail cookie)) 62
      (16 + length b) dst NB_SERVER_PORT src sport s = Some s1"
      "stack_ok efi inflight A s1" "files_ok s1" "item s1 = Some i" "caps s1 = caps s"
      "content (nb_files s1 i) = content (nb_files s i) @ b" "last_cookie s1 = cookie" .
  have "cookie + 1 \<noteq> cookie" by simp
  then have "\<exists>s'. deliver efi hdr tail dst src sport (cookie + 1) (off + length b) bs s1 = Some s' \<and>
      stack_ok efi inflight A s' \<and> files_ok s' \<and> item s' = Some i \<and>
      content (nb_files s' i) = content (nb_files s1 i) @ concat bs"
    using s1 Cons.prems by (intro Cons.IH) auto
  with s1(1,6) show ?case by simp
qed

end
