(* ===== verification/Examples.thy ===== *)
theory Examples
  imports Netboot_Spec
begin

unbundle bit_operations_syntax

text \<open>
  A small firmware that meets the contracts the theorems assume, and a machine that runs on it:
  transmitted frames are logged and their buffers handed back one per \<open>GetStatus\<close>, received
  frames come from an inbox. The example states show that the hypotheses of the theorems can be
  met.
\<close>

record ex_st =
  sent :: "bytes list"
  owned :: "u64 list"
  inbox :: "bytes list"

definition ex_inflight :: "ex_st \<Rightarrow> u64 set" where
  "ex_inflight f = buf_base ` set (owned f)"

definition ex_mode :: snp_mode where
  "ex_mode = \<lparr>State = 1, HwAddressSize = 6, MediaHeaderSize = 14, MaxPacketSize = 1500,
     ReceiveFilterMask = 3, ReceiveFilterSetting = 3, MaxMCastFilterCount = 8, MCastFilterCount = 2,
     MCastFilter = replicate 512 0,
     CurrentAddress = [0x52, 0x54, 0, 0x12, 0x34, 0x56] @ replicate 26 0,
     MacAddressChangeable = 0, MultipleTxSupported = 0, MediaPresentSupported = 1, MediaPresent = 1\<rparr>"

definition ex_fw :: "ex_st net_fw" where
  "ex_fw = \<lparr>
     Transmit = (\<lambda>p d f. (0, f\<lparr>sent := sent f @ [d], owned := owned f @ [p]\<rparr>)),
     GetStatus = (\<lambda>f. case owned f of [] \<Rightarrow> (0, 1, 0, f)
       | p # ps \<Rightarrow> if p = 0 then (0, 1, 0, f)
                   else (0, 1, p, f\<lparr>owned := filter (\<lambda>q. buf_base q \<noteq> buf_base p) ps\<rparr>)),
     Receive = (\<lambda>n f. case inbox f of [] \<Rightarrow> (6, \<lambda>_. 0, 0, f)
       | d # ds \<Rightarrow> (0, \<lambda>i. if i < length d then d ! i else 0, min n (length d), f\<lparr>inbox := ds\<rparr>)),
     Mode = (\<lambda>f. ex_mode),
     Start = (\<lambda>f. (0, f)),
     Initialize = (\<lambda>a b f. (0, f)),
     ReceiveFilters = (\<lambda>a b c n fs f. (0, f)),
     Shutdown = (\<lambda>f. (0, f)),
     Stop = (\<lambda>f. (0, f)),
     CreateEvent = (\<lambda>f. (0, 77, f)),
     SetTimer = (\<lambda>e k t f. (0, f)),
     CheckEvent = (\<lambda>e f. (0, f)),
     CloseEvent = (\<lambda>e f. (0, f)),
     LocateHandle = (\<lambda>n f. (0, \<lambda>i. 5, f)),
     OpenSNP = (\<lambda>h f. (0, 0x9000, f)),
     AllocatePages = (\<lambda>k t n a f. if unat n \<le> 65536 then (0, 0x1000000, f) else (9, 0, f)),
     phys_byte = (\<lambda>f a. 0)\<rparr>"

lemma ex_tx: "tx_contract ex_fw ex_inflight"
  unfolding tx_contract_def by (auto simp: ex_fw_def ex_inflight_def split: list.splits if_splits)

lemma ex_rx: "rx_contract ex_fw"
  unfolding rx_contract_def by (auto simp: ex_fw_def split: list.splits)

lemma ex_open: "open_contract ex_fw ex_inflight"
  unfolding open_contract_def by (auto simp: ex_fw_def ex_mode_def split: if_splits)

text \<open>A machine with one free transmit buffer at \<open>0x1000\<close>.\<close>

definition ex_file :: "nat \<Rightarrow> nbfile" where
  "ex_file n = \<lparr>nb_addr = 0x200000, nb_data = replicate n 0, nb_size = of_nat n, nb_offset = 0\<rparr>"

definition ex_mac :: bytes where "ex_mac = [0x52, 0x54, 0, 0x12, 0x34, 0x56]"
definition ex_peer_mac :: bytes where "ex_peer_mac = [2, 0, 0, 0, 0, 9]"
definition ex_peer :: bytes where "ex_peer = ll_addr ex_peer_mac"

definition ex_s :: "ex_st netboot" where
  "ex_s = \<lparr>fw = \<lparr>sent = [], owned = [], inbox = []\<rparr>, console = [], gSys = 0x8000, gImg = 0x8800,
     snp = 0x9000, mcast_filters = replicate 256 0, mcast_filter_count = 2,
     eth_buffers_base = 0x1000, eth_buffers = 0x1000,
     buffer_heap = [0x1000 \<mapsto> \<lparr>buf_magic = ETH_BUFFER_MAGIC, buf_next = 0, buf_data = replicate 2032 0\<rparr>],
     net_timer = 77,
     ll_mac_addr = ex_mac, ll_ip6_addr = ll_addr ex_mac,
     snm_mac_addr = [0x33, 0x33] @ drop 12 (snm_addr ex_mac), snm_ip6_addr = snm_addr ex_mac,
     rx_mac_addr = ex_peer_mac, rx_ip6_addr = ex_peer,
     last_cookie = 0, last_cmd = 0, last_arg = 0, last_ack_cmd = 0, last_ack_arg = 0,
     nb_boot_now = 0, nb_active = 0, item = None, nb_fastcount = 0, nb_online = 0,
     nb_files = (\<lambda>i. ex_file 4096)\<rparr>"

lemma ex_addrs: "addrs_ok ex_s"
  by (simp add: addrs_ok_def ex_s_def ex_mac_def ex_peer_mac_def ex_peer_def)

lemma ex_idle: "drv_idle ex_fw ex_inflight {0x1000} ex_s"
  unfolding drv_idle_def accounted_def
  by (auto simp: ex_tx ex_s_def pool_def slots_ok_def ex_inflight_def intro!: exI [of _ "[0x1000]"])

lemma ex_files: "files_ok ex_s"
  by (simp add: files_ok_def file_ok_def ex_s_def ex_file_def)

lemma ex_stack: "stack_ok ex_fw ex_inflight {0x1000} ex_s"
  by (simp add: stack_ok_def ex_idle ex_addrs)

lemma ex_hop: "next_hop ex_s ex_peer = Some ex_peer_mac" "length ex_peer = 16"
  by (simp_all add: next_hop_def ex_s_def ex_peer_def ll_addr_def)

text \<open>The other host of the examples.\<close>

definition ex_t :: "ex_st netboot" where
  "ex_t = ex_s\<lparr>ll_mac_addr := ex_peer_mac, ll_ip6_addr := ex_peer, snm_ip6_addr := snm_addr ex_peer_mac\<rparr>"

lemma ex_t_addrs: "addrs_ok ex_t" "ll_ip6_addr ex_t = ex_peer"
  by (simp_all add: ex_t_def addrs_ok_def ex_s_def ex_mac_def ex_peer_mac_def ex_peer_def)

lemma ex_lens: "length ex_mac = 6" "length ex_peer_mac = 6" "length (ll_addr ex_mac) = 16"
  by (simp_all add: ex_mac_def ex_peer_mac_def)

lemma ex_ll: "ll_ip6_addr ex_s = ll_addr ex_mac" "ll_mac_addr ex_s = ex_mac"
    "eth_buffers ex_s = 0x1000" "item ex_s = None" "last_cookie ex_s = 0" "snm_ip6_addr ex_s = snm_addr ex_mac"
  by (simp_all add: ex_s_def)

lemma ex_caps: "caps ex_s i = 4096"
  by (simp add: caps_def ex_s_def ex_file_def)

text \<open>A solicitation and an echo request with the right checksums.\<close>

definition ex_solicit :: bytes where
  "ex_solicit = [135, 0, 0x76, 0xA8, 0, 0, 0, 0] @ ll_addr ex_mac"

definition ex_echo :: bytes where
  "ex_echo = [128, 0, 0xFB, 0xEF, 1, 2, 3, 4]"

lemmas ex_sum_defs = icmp6_valid_def ll_addr_def ex_mac_def ex_peer_def ex_peer_mac_def ck_total_def
  swap16_def be16_def oc16_def to_le_2

lemma ex_valid:
  "icmp6_valid ex_peer (ll_addr ex_mac) ex_solicit" "icmp6_valid ex_peer (ll_addr ex_mac) ex_echo"
  by (simp_all add: ex_sum_defs ex_solicit_def ex_echo_def)

end
