(* ===== verification/Console.thy ===== *)
theory Console
  imports Printf_Spec
begin

unbundle bit_operations_syntax

text \<open>
  Printing on the console, \<^verbatim>\<open>lib/console-printf.c\<close>: the output function of \<open>printf\<close>
  collects wide characters in a buffer on the stack, writes a carriage return before every line
  feed, and hands the buffer to the firmware's \<open>OutputString\<close> whenever it is full. The rest
  of the development records calls of \<open>printf\<close> by format and arguments; here is what such a
  call shows.
\<close>

abbreviation (input) PCBUFMAX :: nat where "PCBUFMAX \<equiv> 126"

text \<open>\<open>_pcstate\<close>, and the strings given to \<open>OutputString\<close> so far.\<close>

record pcstate =
  pc_off :: nat
  pc_buf :: "u16 list"
  pc_out :: "u16 list list"

text \<open>\<open>buf[i] = c\<close>, checked.\<close>

definition pc_store :: "nat \<Rightarrow> u16 \<Rightarrow> pcstate \<Rightarrow> pcstate option" where
  "pc_store i c st =
     (if i < length (pc_buf st) then Some (st\<lparr>pc_buf := (pc_buf st)[i := c]\<rparr>) else None)"

definition pc_append :: "u16 \<Rightarrow> pcstate \<Rightarrow> pcstate option" where
  "pc_append c st = do { st \<leftarrow> pc_store (pc_off st) c st; Some (st\<lparr>pc_off := pc_off st + 1\<rparr>) }"

text \<open>\<open>OutputString\<close> reads the buffer up to its terminator.\<close>

definition OutputString :: "pcstate \<Rightarrow> pcstate option" where
  "OutputString st =
     (if 0 \<in> set (pc_buf st) then Some (st\<lparr>pc_out := pc_out st @ [takeWhile (\<lambda>c. c \<noteq> 0) (pc_buf st)]\<rparr>)
      else None)"

text \<open>Plain \<open>char\<close> is signed.\<close>

fun console_loop :: "bytes \<Rightarrow> pcstate \<Rightarrow> pcstate option" where
  "console_loop [] st = Some st"
| "console_loop (c # cs) st =
     do { st \<leftarrow> (if c = 10 then pc_append 13 st else Some st);
          st \<leftarrow> pc_append (scast c) st;
          st \<leftarrow> (if pc_off st \<ge> PCBUFMAX
                 then do { st \<leftarrow> pc_store (pc_off st) 0 st; st \<leftarrow> OutputString st; Some (st\<lparr>pc_off := 0\<rparr>) }
                 else Some st);
          console_loop cs st }"

text \<open>\<open>_printf_console_out\<close>: a length that is negative as an \<open>int\<close> writes nothing.\<close>

definition printf_console_out :: "pcstate outfn" where
  "printf_console_out str st =
     do { st \<leftarrow> (if c_int (length str) > 0 then console_loop str st else Some st);
          Some (c_int (length str), st) }"

text \<open>\<open>_printf\<close>: the result, the strings that were output and the stores of \<open>%n\<close>. \<open>stack\<close> is what
  the buffer, a local variable, holds at first.\<close>

definition console_printf :: "u16 list \<Rightarrow> bytes \<Rightarrow> parg list \<Rightarrow> (int \<times> u16 list list \<times> (u64 \<times> nat \<times> u64) list) option" where
  "console_printf stack fmt args =
     do { (r, ps) \<leftarrow> printf_engine printf_console_out
            \<lparr>pc_off = 0, pc_buf = stack, pc_out = []\<rparr> fmt args;
          let st = ps_out ps;
          st \<leftarrow> (if pc_off st \<noteq> 0 then do { st \<leftarrow> pc_store (pc_off st) 0 st; OutputString st } else Some st);
          Some (r, pc_out st, ps_stores ps) }"

text \<open>The program \<^verbatim>\<open>src/hello.c\<close>, which calls \<open>OutputString\<close> itself, on the strings output so
  far.\<close>

definition hello_main :: "u16 list list \<Rightarrow> u64 \<times> u16 list list" where
  "hello_main outs = (0, outs @ [map of_char (''Hello, EFI World!'' @ [CHR 0x0D, CHR 0x0A])])"

section \<open>What is shown\<close>

definition crlf :: "bytes \<Rightarrow> u16 list" where
  "crlf t = concat (map (\<lambda>c. if c = 10 then [13, 10] else [scast c]) t)"

lemma crlf_simps [simp]: "crlf [] = []" "crlf (a @ b) = crlf a @ crlf b"
  by (simp_all add: crlf_def)

lemma scast_nonzero: "scast (c :: u8) = (0 :: u16) \<longleftrightarrow> c = 0"
proof
  assume z: "scast c = (0 :: u16)"
  have "bit c n = bit (scast c :: u16) n" if "n < 8" for n
    using that by (cases "n = 7") (auto simp: bit_signed_iff min_def)
  with z show "c = 0" by (intro bit_word_eqI) simp
qed simp

text \<open>After the text \<open>t\<close>: what was output and what is in the buffer are \<open>t\<close>, and the buffer has
  room for two more characters and a terminator.\<close>

definition console_sink :: "bytes \<Rightarrow> pcstate \<Rightarrow> bool" where
  "console_sink t st \<longleftrightarrow> length (pc_buf st) = PCBUFMAX + 2 \<and> pc_off st < PCBUFMAX \<and>
     concat (pc_out st) @ take (pc_off st) (pc_buf st) = crlf t \<and> 0 \<notin> set (take (pc_off st) (pc_buf st)) \<and>
     (\<forall>o'\<in>set (pc_out st). o' \<noteq> [] \<and> length o' \<le> PCBUFMAX + 1)"

lemma pc_append_eq:
  "pc_off st < length (pc_buf st) \<Longrightarrow>
     pc_append c st = Some (st\<lparr>pc_off := pc_off st + 1, pc_buf := (pc_buf st)[pc_off st := c]\<rparr>)"
  by (simp add: pc_append_def pc_store_def)

lemma take_update_last: "i < length b \<Longrightarrow> take (Suc i) (b[i := c]) = take i b @ [c]"
  by (simp add: take_Suc_conv_app_nth)

lemma takeWhile_terminated:
  assumes "i < length b" and "0 \<notin> set (take i b)"
  shows "takeWhile (\<lambda>c. c \<noteq> 0) (b[i := 0]) = take i b"
proof -
  have "b[i := 0] = take i b @ 0 # drop (Suc i) b" using assms(1) by (rule upd_conv_take_nth_drop)
  then show ?thesis using assms(2) by (metis (mono_tags, lifting) takeWhile_tail takeWhile_eq_all_conv)
qed

text \<open>Terminating and handing over the collected characters.\<close>

lemma flush_eq:
  assumes "pc_off st < length (pc_buf st)" and "0 \<notin> set (take (pc_off st) (pc_buf st))"
  shows "do { st \<leftarrow> pc_store (pc_off st) 0 st; OutputString st } =
    Some (st\<lparr>pc_buf := (pc_buf st)[pc_off st := 0], pc_out := pc_out st @ [take (pc_off st) (pc_buf st)]\<rparr>)"
  using assms takeWhile_terminated [OF assms] by (simp add: pc_store_def OutputString_def set_update_memI)

text \<open>One character: at most two places are filled, then the buffer is handed over if it is full.\<close>

lemma console_step:
  assumes s: "console_sink t st" and c: "c \<noteq> 0"
  shows "\<exists>st'. console_loop [c] st = Some st' \<and> console_sink (t @ [c]) st'"
proof -
  let ?st = "if c = 10 then st\<lparr>pc_off := pc_off st + 1, pc_buf := (pc_buf st)[pc_off st := 13]\<rparr> else st"
  let ?w = "scast c :: u16"
  let ?st2 = "?st\<lparr>pc_off := pc_off ?st + 1, pc_buf := (pc_buf ?st)[pc_off ?st := ?w]\<rparr>"
  note d = s [unfolded console_sink_def]
  have off: "pc_off ?st \<le> 126" "length (pc_buf ?st) = 128" using d by auto
  have w: "?w \<noteq> 0" using c scast_nonzero by simp
  have t1: "take (pc_off ?st) (pc_buf ?st) = take (pc_off st) (pc_buf st) @ (if c = 10 then [13] else [])"
    using d by (auto simp: take_update_last)
  have t2: "take (pc_off ?st2) (pc_buf ?st2) = take (pc_off st) (pc_buf st) @ crlf [c]"
    using t1 off take_update_last [of "pc_off ?st" "pc_buf ?st" ?w] by (auto simp: crlf_def)
  have z: "0 \<notin> set (take (pc_off ?st2) (pc_buf ?st2))" unfolding t2 using d w by (auto simp: crlf_def)
  have eq: "concat (pc_out ?st2) @ take (pc_off ?st2) (pc_buf ?st2) = crlf (t @ [c])" using d t2 by auto
  have len: "pc_off ?st2 < length (pc_buf ?st2)" using off by auto
  have "(if c = 10 then pc_append 13 st else Some st) = Some ?st" using d by (simp add: pc_append_eq)
  moreover have "pc_append ?w ?st = Some ?st2" using off by (subst pc_append_eq) auto
  ultimately have run: "console_loop [c] st =
      (if pc_off ?st2 \<ge> 126
       then do { st \<leftarrow> pc_store (pc_off ?st2) 0 ?st2; st \<leftarrow> OutputString st; Some (st\<lparr>pc_off := 0\<rparr>) }
       else Some ?st2)"
    by (simp only: console_loop.simps Option.bind.simps) (simp cong: if_cong)
  show ?thesis
  proof (cases "pc_off ?st2 \<ge> 126")
    case True
    have "console_loop [c] st = Some (?st2\<lparr>pc_buf := (pc_buf ?st2)[pc_off ?st2 := 0],
        pc_out := pc_out ?st2 @ [take (pc_off ?st2) (pc_buf ?st2)], pc_off := 0\<rparr>)"
      unfolding run using True flush_eq [OF len z] by (simp only: if_True flip: Option.bind_assoc) simp
    moreover have "console_sink (t @ [c]) (?st2\<lparr>pc_buf := (pc_buf ?st2)[pc_off ?st2 := 0],
        pc_out := pc_out ?st2 @ [take (pc_off ?st2) (pc_buf ?st2)], pc_off := 0\<rparr>)"
      using True d eq len unfolding console_sink_def by (auto split: if_splits)
    ultimately show ?thesis by blast
  next
    case False
    then have "console_sink (t @ [c]) ?st2" using d eq z off unfolding console_sink_def by (auto split: if_splits)
    with False show ?thesis unfolding run by auto
  qed
qed

lemma console_loop_append:
  "console_loop (a @ b) st = (console_loop a st \<bind> console_loop b)"
  by (induction a st rule: console_loop.induct) (simp_all split: bind_splits)

lemma console_loop_sink:
  "console_sink t st \<Longrightarrow> 0 \<notin> set str \<Longrightarrow> \<exists>st'. console_loop str st = Some st' \<and> console_sink (t @ str) st'"
proof (induction str arbitrary: t st)
  case Nil
  then show ?case by simp
next
  case (Cons c cs)
  then obtain st1 where "console_loop [c] st = Some st1" "console_sink (t @ [c]) st1"
    using console_step [of t st c] by auto
  with Cons.IH [of "t @ [c]" st1] Cons.prems(2) console_loop_append [of "[c]" cs st]
  show ?case by (auto simp del: console_loop.simps)
qed

interpretation console_out: printf_sink printf_console_out console_sink
  "\<lambda>t. 0 \<notin> set t \<and> length t < 2147483648"
proof
  fix t st str
  assume s: "console_sink t st" and f: "0 \<notin> set (t @ str) \<and> length (t @ str) < 2147483648"
  then have "c_int (length str) = int (length str)" using buffer.c_int_small [of "length str"] by simp
  with s f console_loop_sink [OF s, of str]
  show "\<exists>st'. printf_console_out str st = Some (c_int (length str), st') \<and> console_sink (t @ str) st'"
    by (auto simp: printf_console_out_def)
qed auto

text \<open>The strings shown are the text, with carriage returns; none is empty or longer than the buffer.\<close>

lemma console_printf_eq:
  assumes f: "format fmt args = Some (n, p)" and t: "0 \<notin> set (ps_out p)" "length (ps_out p) < 2147483648"
    and stk: "length stack = PCBUFMAX + 2"
  shows "\<exists>outs. console_printf stack fmt args = Some (int (length (ps_out p)), outs, ps_stores p) \<and>
    concat outs = crlf (ps_out p) \<and> (\<forall>o'\<in>set outs. o' \<noteq> [] \<and> length o' \<le> PCBUFMAX + 1)"
proof -
  let ?st = "\<lparr>pc_off = 0, pc_buf = stack, pc_out = []\<rparr>"
  have init: "console_sink [] ?st" using stk by (simp add: console_sink_def)
  have n: "n = int (length (ps_out p))" using console_out.engine_sink(1) [OF init f] t by simp
  obtain q where q: "printf_engine printf_console_out ?st fmt args = Some (n, q)"
      "console_sink (ps_out p) (ps_out q)" "ps_stores p = ps_stores q"
    using console_out.engine_sink(2) [OF init f] t by blast
  note d = q(2) [unfolded console_sink_def]
  show ?thesis
  proof (cases "pc_off (ps_out q) = 0")
    case True
    with q(1,3) n d show ?thesis by (auto simp: console_printf_def)
  next
    case False
    have "do { st \<leftarrow> pc_store (pc_off (ps_out q)) 0 (ps_out q); OutputString st } =
      Some ((ps_out q)\<lparr>pc_buf := (pc_buf (ps_out q))[pc_off (ps_out q) := 0],
        pc_out := pc_out (ps_out q) @ [take (pc_off (ps_out q)) (pc_buf (ps_out q))]\<rparr>)"
      using d by (intro flush_eq) auto
    then have "console_printf stack fmt args = Some (n, pc_out (ps_out q) @ [take (pc_off (ps_out q)) (pc_buf (ps_out q))],
        ps_stores q)"
      unfolding console_printf_def q(1) using False by (simp add: Let_def cong: if_cong)
    with False q(3) n d show ?thesis by (cases "pc_buf (ps_out q)") auto
  qed
qed

end
