(* ===== verification/Memmap.thy ===== *)
theory Memmap
  imports Netboot
begin

unbundle bit_operations_syntax

text \<open>
  The memory map of \<^verbatim>\<open>src/osboot.c\<close>: \<open>process_memory_map\<close> turns the firmware's list of
  memory descriptors into the E820 table of the kernel, merging neighbours of one type. The
  table it builds covers exactly the memory the descriptors cover, with the same types.
\<close>

section \<open>The code\<close>

abbreviation (input) E820_IGNORE :: u32 where "E820_IGNORE \<equiv> 0"
abbreviation (input) E820_RAM :: u32 where "E820_RAM \<equiv> 1"
abbreviation (input) E820_RESERVED :: u32 where "E820_RESERVED \<equiv> 2"
abbreviation (input) E820_ACPI :: u32 where "E820_ACPI \<equiv> 3"
abbreviation (input) E820_NVS :: u32 where "E820_NVS \<equiv> 4"
abbreviation (input) E820_UNUSABLE :: u32 where "E820_UNUSABLE \<equiv> 5"

definition e820name :: "string list" where
  "e820name = [''IGNORE'', ''RAM'', ''RESERVED'', ''ACPI'', ''NVS'', ''UNUSABLE'']"

record e820entry =
  e_addr :: u64
  e_size :: u64
  e_type :: u32

text \<open>The types of \<open>EFI_MEMORY_TYPE\<close>, by number; \<open>WITH_RUNTIME_SERVICES\<close> is not defined by the
  build.\<close>

definition e820type :: "u32 \<Rightarrow> u32" where
  "e820type t =
     (if t \<in> {0, 13} then E820_RESERVED
      else if t \<in> {5, 6} then E820_RAM
      else if t = 9 then E820_ACPI
      else if t = 10 then E820_NVS
      else if t \<in> {1, 2, 3, 4, 7} then E820_RAM
      else if t \<in> {11, 12} then E820_IGNORE
      else if t \<ge> 0x80000000 then E820_RAM
      else E820_UNUSABLE)"

text \<open>The boot loader's own state: the table, and the graphics protocol.\<close>

record 'f osboot = "'f netboot" +
  e820table :: "e820entry list"
  gop :: u64

text \<open>
  The loop over the descriptors, from offset \<open>off\<close> with \<open>n\<close> entries in the table. It ends with
  128 entries when the table is full. A descriptor size of 0 makes it run forever.
\<close>

partial_function (option) memmap_loop :: "bytes \<Rightarrow> u64 \<Rightarrow> u64 \<Rightarrow> u64 \<Rightarrow> nat \<Rightarrow> e820entry list \<Rightarrow>
    (nat \<times> e820entry list) option" where
  "memmap_loop scratch msize dsize off n entry =
     (if off < msize then do {
        t \<leftarrow> rd32 (unat off) scratch;
        let type = e820type t;
        if type = E820_IGNORE then memmap_loop scratch msize dsize (off + dsize) n entry
        else do {
          start \<leftarrow> rd64 (unat off + 8) scratch;
          pages \<leftarrow> rd64 (unat off + 24) scratch;
          if length entry \<le> n then None
          else if n > 0 \<and> e_type (entry ! (n - 1)) = type \<and>
             e_addr (entry ! (n - 1)) + e_size (entry ! (n - 1)) = start
          then memmap_loop scratch msize dsize (off + dsize) n
            (entry[n - 1 := (entry ! (n - 1))\<lparr>e_size := e_size (entry ! (n - 1)) + pages * 4096\<rparr>])
          else do {
            let entry = entry[n := \<lparr>e_addr = start, e_size = pages * 4096, e_type = type\<rparr>];
            if n + 1 = 128 then Some (128, entry)
            else memmap_loop scratch msize dsize (off + dsize) (n + 1) entry } } }
      else Some (n, entry))"

text \<open>The result, and the key if \<open>*_key\<close> was written. Dividing by a descriptor size of 0 is undefined.\<close>

definition process_memory_map :: "('f, 'x) boot_fw_scheme \<Rightarrow> int \<Rightarrow> ('f, 'a) osboot_scheme \<Rightarrow>
    (int \<times> u64 option \<times> ('f, 'a) osboot_scheme) option" where
  "process_memory_map efi silent s =
     (let (r, msize, c, mkey, dsize, dversion, f) = GetMemoryMap efi 32768 (fw s);
          s = s\<lparr>fw := f\<rparr>;
          s = (if silent = 0 then printf ''r=%lx msz=%lx key=%lx dsz=%lx dvn=%x\<newline>''
                 [PInt r, PInt msize, PInt mkey, PInt dsize, PInt (ucast dversion)] s else s)
      in if r \<noteq> EFI_SUCCESS then Some (-1, None, s)
      else if msize > 32768 then
        if silent = 0 then
          if dsize = 0 then None
          else Some (-1, None, printf ''Memory Table Too Large (%ld entries)\<newline>'' [PInt (msize div dsize)] s)
        else Some (-1, None, s)
      else do {
        (n, table) \<leftarrow> memmap_loop (map c [0..<32768]) msize dsize 0 0 (e820table s);
        let s = s\<lparr>e820table := table\<rparr>;
        if n = 128 then
          if silent = 0 then
            if dsize = 0 then None
            else Some (-1, None, printf ''E820 Table Too Large (%ld raw entries)\<newline>'' [PInt (msize div dsize)] s)
          else Some (-1, None, s)
        else Some (int n, Some mkey, s) })"

section \<open>The table as a list\<close>

text \<open>A descriptor: type, first address, number of pages.\<close>

type_synonym mdesc = "u32 \<times> u64 \<times> u64"

text \<open>What the loop does with one descriptor, on the list of entries made so far.\<close>

fun absorb :: "mdesc \<Rightarrow> e820entry list \<Rightarrow> e820entry list" where
  "absorb (t, start, pages) es =
     (if e820type t = E820_IGNORE then es
      else if es \<noteq> [] \<and> e_type (last es) = e820type t \<and> e_addr (last es) + e_size (last es) = start
      then butlast es @ [(last es)\<lparr>e_size := e_size (last es) + pages * 4096\<rparr>]
      else es @ [\<lparr>e_addr = start, e_size = pages * 4096, e_type = e820type t\<rparr>])"

definition e820_of :: "mdesc list \<Rightarrow> e820entry list" where
  "e820_of ds = fold absorb ds []"

text \<open>The descriptors lie in the buffer one every \<open>dsize\<close> bytes.\<close>

definition descs_at :: "bytes \<Rightarrow> nat \<Rightarrow> nat \<Rightarrow> mdesc list \<Rightarrow> bool" where
  "descs_at d off dsize ds \<longleftrightarrow> (\<forall>i<length ds. case ds ! i of (t, start, pages) \<Rightarrow>
     rd32 (off + i * dsize) d = Some t \<and> rd64 (off + i * dsize + 8) d = Some start \<and>
     rd64 (off + i * dsize + 24) d = Some pages)"

lemma descs_at_Cons:
  "descs_at d off dsize ((t, start, pages) # ds) \<longleftrightarrow>
     rd32 off d = Some t \<and> rd64 (off + 8) d = Some start \<and> rd64 (off + 24) d = Some pages \<and>
     descs_at d (off + dsize) dsize ds"
  unfolding descs_at_def by (auto simp: less_Suc_eq_0_disj ac_simps)

lemma absorb_length: "length es \<le> length (absorb x es)" "length (absorb x es) \<le> length es + 1"
  by (cases x; auto)+

lemma fold_absorb_length: "length es \<le> length (fold absorb ds es)"
  by (induction ds arbitrary: es) (auto intro: le_trans absorb_length)

text \<open>One step of the loop in terms of \<open>absorb\<close>.\<close>

lemma absorb_entry:
  assumes "length entry = 128" and "n < 128" and "n > 0"
  shows "take n (entry[n - 1 := e]) = butlast (take n entry) @ [e]" and "last (take n entry) = entry ! (n - 1)"
proof -
  have n: "take n entry = take (n - 1) entry @ [entry ! (n - 1)]"
    using assms take_Suc_conv_app_nth [of "n - 1" entry] by simp
  then show "last (take n entry) = entry ! (n - 1)" by simp
  have "take n (entry[n - 1 := e]) = (take n entry)[n - 1 := e]" by (simp add: take_update_swap)
  then show "take n (entry[n - 1 := e]) = butlast (take n entry) @ [e]" using n assms by (simp add: list_update_append)
qed

lemma take_snoc_update: "n < length entry \<Longrightarrow> take (Suc n) (entry[n := e]) = take n entry @ [e]"
  by (simp add: take_Suc_conv_app_nth)

definition loop_done :: "nat \<times> e820entry list \<Rightarrow> e820entry list \<Rightarrow> bool" where
  "loop_done r es \<longleftrightarrow> length (snd r) = 128 \<and>
     (if length es < 128 then fst r = length es \<and> take (fst r) (snd r) = es else fst r = 128)"

lemma memmap_loop_eq:
  assumes "length entry = 128" and "n < 128" and "descs_at d (unat off) (unat dsize) ds"
    and "unat off + length ds * unat dsize = unat msize" and "dsize \<noteq> 0"
  shows "\<exists>r. memmap_loop d msize dsize off n entry = Some r \<and> loop_done r (fold absorb ds (take n entry))"
  using assms(1-4)
proof (induction ds arbitrary: off n entry)
  case Nil
  then show ?case by (subst memmap_loop.simps) (simp add: word_less_nat_alt loop_done_def)
next
  case (Cons x ds)
  obtain t start pages where x: "x = (t, start, pages)" by (cases x)
  have pos: "0 < unat dsize" using assms(5) by (simp add: unat_gt_0)
  have lt: "off < msize" using Cons.prems(4) pos by (simp add: word_less_nat_alt)
  have le: "unat off + unat dsize \<le> unat msize" using Cons.prems(4) by simp
  then have off: "unat (off + dsize) = unat off + unat dsize"
    using unat_bound [of msize] by (simp add: unat_word_ariths)
  have rd: "rd32 (unat off) d = Some t" "rd64 (unat off + 8) d = Some start" "rd64 (unat off + 24) d = Some pages"
      and ds: "descs_at d (unat (off + dsize)) (unat dsize) ds"
    using Cons.prems(3) unfolding x descs_at_Cons off by auto
  have ms: "unat (off + dsize) + length ds * unat dsize = unat msize" using Cons.prems(4) unfolding off by simp
  note IH = Cons.IH [OF _ _ ds ms]
  let ?n = "n - 1"
  consider (ignore) "e820type t = 0"
    | (merge) "e820type t \<noteq> 0" "n > 0" "e_type (entry ! ?n) = e820type t"
        "e_addr (entry ! ?n) + e_size (entry ! ?n) = start"
    | (new) "e820type t \<noteq> 0" "\<not> (n > 0 \<and> e_type (entry ! ?n) = e820type t \<and>
        e_addr (entry ! ?n) + e_size (entry ! ?n) = start)" by blast
  then show ?case
  proof cases
    case ignore
    then have "memmap_loop d msize dsize off n entry = memmap_loop d msize dsize (off + dsize) n entry"
      by (subst memmap_loop.simps) (simp add: lt rd)
    with IH [of entry n] Cons.prems(1,2) ignore show ?thesis by (simp add: x)
  next
    case merge
    let ?e = "(entry ! ?n)\<lparr>e_size := e_size (entry ! ?n) + pages * 4096\<rparr>"
    have "memmap_loop d msize dsize off n entry = memmap_loop d msize dsize (off + dsize) n (entry[?n := ?e])"
      using merge Cons.prems(1,2) by (subst memmap_loop.simps) (simp add: lt rd)
    moreover have "absorb x (take n entry) = take n (entry[?n := ?e])"
      using merge absorb_entry [OF Cons.prems(1,2) merge(2)] Cons.prems(1,2) by (auto simp: x)
    ultimately show ?thesis using IH [of "entry[?n := ?e]" n] Cons.prems(1,2) by (simp del: absorb.simps)
  next
    case new
    let ?e = "\<lparr>e_addr = start, e_size = pages * 4096, e_type = e820type t\<rparr>"
    have step: "memmap_loop d msize dsize off n entry =
        (if n + 1 = 128 then Some (128, entry[n := ?e])
         else memmap_loop d msize dsize (off + dsize) (n + 1) (entry[n := ?e]))"
      using new Cons.prems(1,2) by (subst memmap_loop.simps) (auto simp: lt rd Let_def)
    have "take n entry \<noteq> [] \<Longrightarrow> last (take n entry) = entry ! ?n"
      using absorb_entry(2) [OF Cons.prems(1,2)] by auto
    then have ab: "absorb x (take n entry) = take (Suc n) (entry[n := ?e])"
      using new Cons.prems(1,2) take_snoc_update [of n entry ?e] by (auto simp: x)
    have "128 \<le> length (fold absorb ds (absorb x (take n entry)))" if "n + 1 = 128"
      using that Cons.prems(1) fold_absorb_length [of "absorb x (take n entry)" ds] unfolding ab by simp
    then show ?thesis
      using step IH [of "entry[n := ?e]" "n + 1"] Cons.prems(1,2) ab
      by (cases "n + 1 = 128") (auto simp: loop_done_def simp del: absorb.simps)
  qed
qed

section \<open>What the table covers\<close>

definition covers :: "e820entry list \<Rightarrow> nat \<Rightarrow> u32 \<Rightarrow> bool" where
  "covers es a t \<longleftrightarrow> (\<exists>e\<in>set es. e_type e = t \<and> unat (e_addr e) \<le> a \<and> a < unat (e_addr e) + unat (e_size e))"

fun desc_covers :: "mdesc \<Rightarrow> nat \<Rightarrow> u32 \<Rightarrow> bool" where
  "desc_covers (ty, start, pages) a t \<longleftrightarrow> e820type ty \<noteq> E820_IGNORE \<and> e820type ty = t \<and>
     unat start \<le> a \<and> a < unat start + 4096 * unat pages"

text \<open>A descriptor that ends inside the address space.\<close>

fun desc_ok :: "mdesc \<Rightarrow> bool" where
  "desc_ok (ty, start, pages) \<longleftrightarrow> unat start + 4096 * unat pages < 2 ^ 64"

definition entries_ok :: "e820entry list \<Rightarrow> bool" where
  "entries_ok es \<longleftrightarrow> (\<forall>e\<in>set es. unat (e_addr e) + unat (e_size e) < 2 ^ 64 \<and> e_type e \<noteq> E820_IGNORE)"

lemma unat_pages: "unat start + 4096 * unat pages < 2 ^ 64 \<Longrightarrow> unat (pages * 4096 :: u64) = 4096 * unat pages"
  by (simp add: unat_word_ariths)

lemma covers_append: "covers (es @ fs) a t \<longleftrightarrow> covers es a t \<or> covers fs a t"
  by (auto simp: covers_def)

lemma absorb_covers:
  assumes es: "entries_ok es" and x: "desc_ok x"
  shows "entries_ok (absorb x es)" and "covers (absorb x es) a t \<longleftrightarrow> covers es a t \<or> desc_covers x a t"
proof -
  obtain ty start pages where x': "x = (ty, start, pages)" by (cases x)
  have lt: "unat start + 4096 * unat pages < 2 ^ 64" using x by (simp add: x')
  note u = unat_pages [OF lt]
  have "entries_ok (absorb x es) \<and> (covers (absorb x es) a t \<longleftrightarrow> covers es a t \<or> desc_covers x a t)"
  proof (cases "e820type ty = 0 \<or> \<not> (es \<noteq> [] \<and> e_type (last es) = e820type ty \<and>
      e_addr (last es) + e_size (last es) = start)")
    case True
    then show ?thesis using es lt u by (auto simp: x' entries_ok_def covers_def)
  next
    case False
    let ?l = "last es" and ?e = "(last es)\<lparr>e_size := e_size (last es) + pages * 4096\<rparr>"
    have split: "es = butlast es @ [?l]" using False by simp
    have l: "unat (e_addr ?l) + unat (e_size ?l) < 2 ^ 64" using es False by (auto simp: entries_ok_def)
    then have st: "unat (e_addr ?l) + unat (e_size ?l) = unat start"
      using False by (auto simp: unat_word_ariths)
    have sz: "unat (e_size ?e) = unat (e_size ?l) + 4096 * unat pages"
      using st lt u by (simp add: unat_word_ariths)
    have ok: "entries_ok (butlast es)" "e_type ?l \<noteq> 0"
      using es False by (auto simp: entries_ok_def dest: in_set_butlastD)
    have "covers [?e] a t \<longleftrightarrow> covers [?l] a t \<or> desc_covers x a t"
      using False st sz by (auto simp: covers_def x')
    moreover have "covers es a t \<longleftrightarrow> covers (butlast es) a t \<or> covers [?l] a t"
      by (subst split) (rule covers_append)
    moreover have "absorb x es = butlast es @ [?e]" using False by (simp add: x')
    moreover have "entries_ok (butlast es @ [?e])" using ok st sz lt by (auto simp: entries_ok_def)
    ultimately show ?thesis by (simp add: covers_append)
  qed
  then show "entries_ok (absorb x es)" "covers (absorb x es) a t \<longleftrightarrow> covers es a t \<or> desc_covers x a t" by auto
qed

lemma fold_absorb_covers:
  assumes "\<forall>x\<in>set ds. desc_ok x" and "entries_ok es"
  shows "entries_ok (fold absorb ds es)"
    and "covers (fold absorb ds es) a t \<longleftrightarrow> covers es a t \<or> (\<exists>x\<in>set ds. desc_covers x a t)"
  using assms by (induction ds arbitrary: es) (auto simp: absorb_covers simp del: absorb.simps)

lemma e820_of_covers:
  assumes "\<forall>x\<in>set ds. desc_ok x"
  shows "entries_ok (e820_of ds)" and "covers (e820_of ds) a t \<longleftrightarrow> (\<exists>x\<in>set ds. desc_covers x a t)"
  using fold_absorb_covers [OF assms, of "[]"] by (simp_all add: e820_of_def entries_ok_def covers_def)

text \<open>No two neighbours of the table could be one entry.\<close>

definition merged :: "e820entry list \<Rightarrow> bool" where
  "merged es \<longleftrightarrow> (\<forall>i. Suc i < length es \<longrightarrow>
     \<not> (e_type (es ! i) = e_type (es ! Suc i) \<and> e_addr (es ! i) + e_size (es ! i) = e_addr (es ! Suc i)))"

lemma merged_snoc:
  assumes "merged es" and "es = [] \<or> \<not> (e_type (last es) = e_type e \<and> e_addr (last es) + e_size (last es) = e_addr e)"
  shows "merged (es @ [e])"
proof -
  have "es ! i = last es" if "Suc i = length es" for i using that by (metis diff_Suc_1 last_conv_nth length_0_conv nat.distinct(1))
  then show ?thesis using assms unfolding merged_def by (auto simp: nth_append less_Suc_eq split: if_splits)
qed

lemma merged_grow: "merged (es @ [e]) \<Longrightarrow> e_type e' = e_type e \<Longrightarrow> e_addr e' = e_addr e \<Longrightarrow> merged (es @ [e'])"
  unfolding merged_def by (auto simp: nth_append less_Suc_eq split: if_splits)

lemma absorb_merged: "merged es \<Longrightarrow> merged (absorb x es)"
proof (cases x)
  case (fields ty start pages)
  assume es: "merged es"
  show ?thesis
  proof (cases "es = []")
    case True
    then show ?thesis using fields by (simp add: merged_def)
  next
    case False
    then have "merged (butlast es @ [last es])" using es by simp
    then show ?thesis
      using es merged_grow [of "butlast es" "last es"] by (auto simp: fields intro!: merged_snoc)
  qed
qed

lemma e820_of_merged: "merged (e820_of ds)"
proof -
  have "merged es \<Longrightarrow> merged (fold absorb ds es)" for es
    by (induction ds arbitrary: es) (auto simp: absorb_merged simp del: absorb.simps)
  then show ?thesis by (simp add: e820_of_def merged_def)
qed

section \<open>The whole function\<close>

text \<open>
  Documented behaviour of \<open>GetMemoryMap\<close>: when it succeeds, the buffer holds whole descriptors.
\<close>

definition memmap_result :: "('f, 'x) boot_fw_scheme \<Rightarrow> 'f \<Rightarrow> mdesc list \<Rightarrow> u64 \<Rightarrow> 'f \<Rightarrow> bool" where
  "memmap_result efi f ds key f' \<longleftrightarrow> (\<exists>c dsize dversion.
     GetMemoryMap efi 32768 f = (0, of_nat (length ds * unat dsize), c, key, dsize, dversion, f') \<and>
     dsize \<noteq> 0 \<and> length ds * unat dsize \<le> 32768 \<and> descs_at (map c [0..<32768]) 0 (unat dsize) ds)"

lemma osboot_swap:
  "s\<lparr>e820table := t, console := c\<rparr> = s\<lparr>console := c, e820table := t\<rparr>"
  "s\<lparr>e820table := t, fw := f\<rparr> = s\<lparr>fw := f, e820table := t\<rparr>"
  "s\<lparr>console := c, fw := f\<rparr> = s\<lparr>fw := f, console := c\<rparr>"
  by (cases s; simp)+

lemma printf_table: "printf fmt args (s\<lparr>e820table := t\<rparr>) = (printf fmt args s)\<lparr>e820table := t\<rparr>"
  by (cases s) (simp add: printf_def)

lemma process_memory_map_eq:
  assumes "memmap_result efi (fw s) ds key f'" and "length (e820table s) = 128"
  shows "\<exists>r k con tab. process_memory_map efi silent s =
      Some (r, k, s\<lparr>fw := f', console := con, e820table := tab\<rparr>) \<and> length tab = 128 \<and>
    (if length (e820_of ds) < 128
     then r = int (length (e820_of ds)) \<and> k = Some key \<and> take (length (e820_of ds)) tab = e820_of ds
     else r = -1 \<and> k = None)"
proof -
  obtain c dsize dv where m: "GetMemoryMap efi 32768 (fw s) = (0, of_nat (length ds * unat dsize), c, key, dsize, dv, f')"
      "dsize \<noteq> 0" "length ds * unat dsize \<le> 32768" "descs_at (map c [0..<32768]) 0 (unat dsize) ds"
    using assms(1) unfolding memmap_result_def by blast
  let ?m = "of_nat (length ds * unat dsize) :: u64" and ?d = "map c [0..<32768]"
  have um: "unat ?m = length ds * unat dsize" using m(3) by (simp add: unat_of_nat del: of_nat_mult)
  have le: "\<not> ?m > 32768" using m(3) by (simp only: word_less_nat_alt um) simp
  obtain n tab where l: "memmap_loop ?d ?m dsize 0 0 (e820table s) = Some (n, tab)"
      "loop_done (n, tab) (e820_of ds)"
    using memmap_loop_eq [OF assms(2), of 0 ?d 0 dsize ds ?m] m(2,4) um by (auto simp: e820_of_def)
  have n: "n = 128 \<longleftrightarrow> \<not> length (e820_of ds) < 128" using l(2) by (auto simp: loop_done_def split: if_splits)
  define s1 where "s1 = (if silent = 0 then printf ''r=%lx msz=%lx key=%lx dsz=%lx dvn=%x\<newline>''
    [PInt 0, PInt ?m, PInt key, PInt dsize, PInt (ucast dv)] (s\<lparr>fw := f'\<rparr>) else s\<lparr>fw := f'\<rparr>)"
  obtain con where s1: "s1 = s\<lparr>fw := f', console := con\<rparr>" "e820table s1 = e820table s"
    by (rule that [of "console s1"]) (simp_all add: s1_def printf_def)
  have run: "process_memory_map efi silent s =
     (if n = 128 then
        if silent = 0 then Some (-1, None, printf ''E820 Table Too Large (%ld raw entries)\<newline>''
          [PInt (?m div dsize)] (s1\<lparr>e820table := tab\<rparr>))
        else Some (-1, None, s1\<lparr>e820table := tab\<rparr>)
      else Some (int n, Some key, s1\<lparr>e820table := tab\<rparr>))"
    unfolding process_memory_map_def m(1) Let_def prod.case s1_def [symmetric]
    using m(2) l(1) le s1(2) by (simp del: of_nat_mult)
  show ?thesis
    unfolding run s1(1) using n l(2)
    by (cases "n = 128"; cases "silent = 0") (auto simp: loop_done_def printf_table, auto simp: printf_def)
qed

end
