(* ===== verification/Goodies.thy ===== *)
theory Goodies
  imports Efi "HOL-Library.Multiset"
begin

text \<open>
  The helpers of \<^verbatim>\<open>lib/goodies.c\<close> and \<^verbatim>\<open>lib/loadfile.c\<close>: waiting for a key,
  ending the program, opening and closing protocols, and loading a whole file from the volume
  the program was started from. \<open>gBS\<close> and \<open>gConOut\<close> are fields of the system table, whose
  services are the firmware record. Shown are when a wait ends, what \<open>LoadFile\<close> returns on a volume with
  given files, and what it holds on to.
\<close>

section \<open>lib/goodies.c\<close>

definition SimpleFileSystemProtocol :: bytes where
  "SimpleFileSystemProtocol = guid 0x964E5B22 0x6459 0x11D2 [0x8E, 0x39, 0, 0xA0, 0xC9, 0x69, 0x72, 0x3B]"

definition FileInfoGUID :: bytes where
  "FileInfoGUID = guid 0x9576E92 0x6D3F 0x11D2 [0x8E, 0x39, 0, 0xA0, 0xC9, 0x69, 0x72, 0x3B]"

text \<open>Of gnu-efi's \<^verbatim>\<open>lib/data.c\<close>.\<close>

definition LoadedImageProtocol :: bytes where
  "LoadedImageProtocol = guid 0x5B1B31A1 0x9562 0x11D2 [0x8E, 0x3F, 0, 0xA0, 0xC9, 0x69, 0x72, 0x3B]"

definition InitGoodies :: "u64 \<Rightarrow> u64 \<Rightarrow> ('f, 'a) machine_scheme \<Rightarrow> ('f, 'a) machine_scheme" where
  "InitGoodies img sys s = s\<lparr>gSys := sys, gImg := img\<rparr>"

partial_function (option) WaitAnyKey :: "('f, 'x) boot_fw_scheme \<Rightarrow> ('f, 'a) machine_scheme \<Rightarrow>
    ('f, 'a) machine_scheme option" where
  "WaitAnyKey efi s =
     (case ReadKeyStroke efi (fw s) of (r, f) \<Rightarrow>
        if r \<noteq> EFI_SUCCESS then WaitAnyKey efi (s\<lparr>fw := f\<rparr>) else Some (s\<lparr>fw := f\<rparr>))"

text \<open>\<open>Fatal\<close>: \<open>Inl\<close> when the program ended, \<open>Inr\<close> when the call of \<open>Exit\<close> came back.\<close>

definition Fatal :: "('f, 'x) boot_fw_scheme \<Rightarrow> bytes \<Rightarrow> efi_status \<Rightarrow> ('f, 'a) machine_scheme \<Rightarrow>
    (('f, 'a) machine_scheme + ('f, 'a) machine_scheme) option" where
  "Fatal efi msg status s =
     do { s \<leftarrow> WaitAnyKey efi (printf ''\<newline>ERROR: %s (%ld)\<newline>'' [PStr (Some msg), PInt status] s);
          let (ended, f) = Exit efi (gImg s) 1 (fw s);
          Some (if ended then Inl (s\<lparr>fw := f\<rparr>) else Inr (s\<lparr>fw := f\<rparr>)) }"

definition OpenProtocol :: "('f, 'x) boot_fw_scheme \<Rightarrow> u64 \<Rightarrow> bytes \<Rightarrow> ('f, 'a) machine_scheme \<Rightarrow>
    efi_status \<times> u64 \<times> ('f, 'a) machine_scheme" where
  "OpenProtocol efi h g s =
     (let (r, ifc, f) = BS_OpenProtocol efi h g (gImg s) NULL 1 (fw s) in (r, ifc, s\<lparr>fw := f\<rparr>))"

definition CloseProtocol :: "('f, 'x) boot_fw_scheme \<Rightarrow> u64 \<Rightarrow> bytes \<Rightarrow> ('f, 'a) machine_scheme \<Rightarrow>
    efi_status \<times> ('f, 'a) machine_scheme" where
  "CloseProtocol efi h g s =
     (let (r, f) = BS_CloseProtocol efi h g (gImg s) NULL (fw s) in (r, s\<lparr>fw := f\<rparr>))"

section \<open>lib/loadfile.c\<close>

text \<open>
  The result of \<open>LoadFile\<close>: the address of the data or \<open>NULL\<close>, the data, and the size if
  \<open>*_sz\<close> was written.
\<close>

type_synonym loaded = "u64 \<times> bytes \<times> u64 option"

abbreviation (input) not_loaded :: loaded where "not_loaded \<equiv> (NULL, [], None)"

text \<open>The field \<open>FileSize\<close> of the \<open>EFI_FILE_INFO\<close> in the buffer.\<close>

definition file_size :: "(nat \<Rightarrow> u8) \<Rightarrow> u64" where
  "file_size buf = of_le (map buf [8..<16])"

text \<open>From \<open>AllocatePool\<close> to label \<open>exit4\<close>.\<close>

definition read_whole :: "('f, 'x) boot_fw_scheme \<Rightarrow> u64 \<Rightarrow> u64 \<Rightarrow> ('f, 'a) machine_scheme \<Rightarrow>
    loaded \<times> ('f, 'a) machine_scheme" where
  "read_whole efi fileh fsz s =
     (let (r, data, f) = AllocatePool efi EfiLoaderData fsz (fw s); s = s\<lparr>fw := f\<rparr>
      in if r \<noteq> 0 then (not_loaded, printf ''LoadFile: Cannot allocate buffer (%ld)\<newline>'' [PInt r] s)
      else let (r, sz, buf, f) = Read efi fileh fsz (fw s); s = s\<lparr>fw := f\<rparr>
      in if r \<noteq> 0 then
           let s = printf ''LoadFile: Error reading file (%ld)\<newline>'' [PInt r] s;
               (_, f) = FreePool efi data (fw s)
           in (not_loaded, s\<lparr>fw := f\<rparr>)
      else if sz \<noteq> fsz then
           let s = printf ''LoadFile: Short read\<newline>'' [] s;
               (_, f) = FreePool efi data (fw s)
           in (not_loaded, s\<lparr>fw := f\<rparr>)
      else ((data, map buf [0..<unat fsz], Some fsz), s))"

text \<open>From opening the file to label \<open>exit3\<close>; a file whose information cannot be read is not
  closed.\<close>

definition load_from_root :: "('f, 'x) boot_fw_scheme \<Rightarrow> u64 \<Rightarrow> string \<Rightarrow> ('f, 'a) machine_scheme \<Rightarrow>
    loaded \<times> ('f, 'a) machine_scheme" where
  "load_from_root efi root filename s =
     (let (r, fileh, f) = FOpen efi root filename 1 0 (fw s); s = s\<lparr>fw := f\<rparr>
      in if r \<noteq> 0 then (not_loaded, printf ''LoadFile: Cannot open file (%ld)\<newline>'' [PInt r] s)
      else let (r, buf, f) = GetInfo efi fileh FileInfoGUID 512 (fw s); s = s\<lparr>fw := f\<rparr>
      in if r \<noteq> 0 then (not_loaded, printf ''LoadFile: Cannot get FileInfo (%ld)\<newline>'' [PInt r] s)
      else let (res, s) = read_whole efi fileh (file_size buf) s;
               (_, f) = Close efi fileh (fw s)
           in (res, s\<lparr>fw := f\<rparr>))"

text \<open>From opening the volume to label \<open>exit2\<close>.\<close>

definition load_from_volume :: "('f, 'x) boot_fw_scheme \<Rightarrow> u64 \<Rightarrow> string \<Rightarrow> ('f, 'a) machine_scheme \<Rightarrow>
    loaded \<times> ('f, 'a) machine_scheme" where
  "load_from_volume efi fioi filename s =
     (let (r, root, f) = OpenVolume efi fioi (fw s); s = s\<lparr>fw := f\<rparr>
      in if r \<noteq> 0 then (not_loaded, printf ''LoadFile: Cannot open root volume (%ld)\<newline>'' [PInt r] s)
      else let (res, s) = load_from_root efi root filename s;
               (_, f) = Close efi root (fw s)
           in (res, s\<lparr>fw := f\<rparr>))"

definition LoadFile :: "('f, 'x) boot_fw_scheme \<Rightarrow> string \<Rightarrow> ('f, 'a) machine_scheme \<Rightarrow>
    loaded \<times> ('f, 'a) machine_scheme" where
  "LoadFile efi filename s =
     (let (r, loaded, s) = OpenProtocol efi (gImg s) LoadedImageProtocol s
      in if r \<noteq> 0 then (not_loaded, printf ''LoadFile: Cannot open LoadedImageProtocol (%ld)\<newline>'' [PInt r] s)
      else let dev = DeviceHandle efi loaded (fw s);
               (r, fioi, s) = OpenProtocol efi dev SimpleFileSystemProtocol s
      in if r \<noteq> 0 then
           let s = printf ''LoadFile: Cannot open SimpleFileSystemProtocol (%ld)\<newline>'' [PInt r] s
           in (not_loaded, snd (CloseProtocol efi (gImg s) LoadedImageProtocol s))
      else let (res, s) = load_from_volume efi fioi filename s;
               (_, s) = CloseProtocol efi (DeviceHandle efi loaded (fw s)) SimpleFileSystemProtocol s;
               (_, s) = CloseProtocol efi (gImg s) LoadedImageProtocol s
           in (res, s))"

section \<open>Waiting for a key\<close>

text \<open>The firmware's state after \<open>n\<close> polls of the keyboard.\<close>

fun polled :: "('f, 'x) boot_fw_scheme \<Rightarrow> nat \<Rightarrow> 'f \<Rightarrow> 'f" where
  "polled efi 0 f = f"
| "polled efi (Suc n) f = polled efi n (snd (ReadKeyStroke efi f))"

text \<open>The wait ends with the first key.\<close>

lemma WaitAnyKey_returns:
  assumes "fst (ReadKeyStroke efi (polled efi n (fw s))) = EFI_SUCCESS"
    and "\<forall>m<n. fst (ReadKeyStroke efi (polled efi m (fw s))) \<noteq> EFI_SUCCESS"
  shows "WaitAnyKey efi s = Some (s\<lparr>fw := polled efi (Suc n) (fw s)\<rparr>)"
  using assms
proof (induction n arbitrary: s)
  case 0
  then show ?case by (subst WaitAnyKey.simps) (auto split: prod.splits)
next
  case (Suc n)
  obtain r f where k: "ReadKeyStroke efi (fw s) = (r, f)" by force
  then have "r \<noteq> EFI_SUCCESS" using Suc.prems(2) by force
  moreover have "WaitAnyKey efi (s\<lparr>fw := f\<rparr>) = Some (s\<lparr>fw := f, fw := polled efi (Suc n) f\<rparr>)"
    using Suc.IH [of "s\<lparr>fw := f\<rparr>"] Suc.prems k by force
  ultimately show ?case using k by (subst WaitAnyKey.simps) simp
qed

text \<open>A key is pressed sooner or later, whatever the firmware's state is: then every wait ends.\<close>

definition keys_come :: "('f, 'x) boot_fw_scheme \<Rightarrow> bool" where
  "keys_come efi \<longleftrightarrow> (\<forall>f. \<exists>n. fst (ReadKeyStroke efi (polled efi n f)) = EFI_SUCCESS)"

lemma WaitAnyKey_ends:
  assumes "keys_come efi"
  shows "\<exists>f. WaitAnyKey efi s = Some (s\<lparr>fw := f\<rparr>)"
proof -
  define P where "P n \<longleftrightarrow> fst (ReadKeyStroke efi (polled efi n (fw s))) = EFI_SUCCESS" for n
  obtain m where "P m" using assms by (auto simp: keys_come_def P_def)
  then have "P (LEAST n. P n)" by (rule LeastI)
  moreover have "\<forall>n<LEAST n. P n. \<not> P n" by (intro allI impI) (rule not_less_Least)
  ultimately have "WaitAnyKey efi s = Some (s\<lparr>fw := polled efi (Suc (LEAST n. P n)) (fw s)\<rparr>)"
    unfolding P_def by (rule WaitAnyKey_returns)
  then show ?thesis by (rule exI)
qed

text \<open>Waiting changes nothing but what reading the keyboard changes.\<close>

lemma WaitAnyKey_frame:
  fixes efi :: "('f, 'x) boot_fw_scheme" and s :: "('f, 'a) machine_scheme"
  assumes "\<And>f. acct (snd (ReadKeyStroke efi f)) = acct f" and "WaitAnyKey efi s = Some s'"
  shows "acct (fw s') = acct (fw s)"
proof -
  have "(\<forall>f. acct (snd (ReadKeyStroke efi f)) = acct f) \<longrightarrow> acct (fw s') = acct (fw s)"
    by (rule WaitAnyKey.raw_induct [OF _ assms(2)]) (auto split: prod.splits if_splits, (metis snd_conv)+)
  then show ?thesis using assms(1) by blast
qed

section \<open>What LoadFile returns\<close>

text \<open>
  A volume with the given files, whatever the firmware's state is: the image's device can be opened
  down to its root directory; a file that is there is opened, its size and its bytes are reported as
  they are, and there is memory for it; a file that is not there cannot be opened.
\<close>

definition serves_file :: "('f, 'x) boot_fw_scheme \<Rightarrow> u64 \<Rightarrow> string \<Rightarrow> 'f \<Rightarrow> bytes option \<Rightarrow> bool" where
  "serves_file efi root name f file \<longleftrightarrow> (case file of None \<Rightarrow> fst (FOpen efi root name 1 0 f) \<noteq> 0
     | Some c \<Rightarrow> \<exists>h f4 info f5 a f6 buf f7. FOpen efi root name 1 0 f = (0, h, f4) \<and>
         GetInfo efi h FileInfoGUID 512 f4 = (0, info, f5) \<and> file_size info = of_nat (length c) \<and> length c < 2 ^ 64 \<and>
         AllocatePool efi EfiLoaderData (of_nat (length c)) f5 = (0, a, f6) \<and> a \<noteq> NULL \<and>
         Read efi h (of_nat (length c)) f6 = (0, of_nat (length c), buf, f7) \<and> (\<forall>i<length c. buf i = c ! i))"

definition volume :: "('f, 'x) boot_fw_scheme \<Rightarrow> u64 \<Rightarrow> (string \<Rightarrow> bytes option) \<Rightarrow> bool" where
  "volume efi img files \<longleftrightarrow> (\<forall>f. \<exists>l f1 v f2 root f3.
     BS_OpenProtocol efi img LoadedImageProtocol img NULL 1 f = (0, l, f1) \<and>
     BS_OpenProtocol efi (DeviceHandle efi l f1) SimpleFileSystemProtocol img NULL 1 f1 = (0, v, f2) \<and>
     OpenVolume efi v f2 = (0, root, f3) \<and> (\<forall>name. serves_file efi root name f3 (files name)))"

text \<open>The result: the whole file, or nothing.\<close>

definition loads :: "bytes option \<Rightarrow> loaded \<Rightarrow> bool" where
  "loads file res \<longleftrightarrow> (case file of None \<Rightarrow> res = not_loaded
     | Some c \<Rightarrow> length c < 2 ^ 64 \<and> (\<exists>a. a \<noteq> NULL \<and> res = (a, c, Some (of_nat (length c)))))"

lemma map_nth_eq: "(\<forall>i<length c. buf i = c ! i) \<Longrightarrow> map buf [0..<length c] = c"
  by (rule nth_equalityI) simp_all

lemma read_whole_file:
  assumes "AllocatePool efi EfiLoaderData (of_nat (length c)) (fw s) = (0, a, f6)" and "a \<noteq> NULL" and "length c < 2 ^ 64"
    and "Read efi h (of_nat (length c)) f6 = (0, of_nat (length c), buf, f7)" and "\<forall>i<length c. buf i = c ! i"
  shows "read_whole efi h (of_nat (length c)) s = ((a, c, Some (of_nat (length c))), s\<lparr>fw := f7\<rparr>)"
proof -
  have "unat (of_nat (length c) :: u64) = length c" using assms(3) by (simp add: unat_of_nat take_bit_nat_eq_self)
  then show ?thesis using assms(1,4) map_nth_eq [OF assms(5)] by (simp add: read_whole_def)
qed

lemma load_from_root_file:
  assumes n: "serves_file efi root name (fw s) file" and r: "load_from_root efi root name s = (res, s')"
  shows "loads file res \<and> (\<exists>f con. s' = s\<lparr>fw := f, console := con\<rparr>)"
proof (cases "file :: bytes option")
  case None
  then show ?thesis using n r
    by (auto simp: load_from_root_def loads_def serves_file_def Let_def printf_def split: prod.splits)
next
  case (Some c)
  from n [unfolded Some serves_file_def] obtain h f4 info f5 a f6 buf f7 where
    c: "FOpen efi root name 1 0 (fw s) = (0, h, f4)" "GetInfo efi h FileInfoGUID 512 f4 = (0, info, f5)"
      "file_size info = of_nat (length c)" "length c < 2 ^ 64"
      "AllocatePool efi EfiLoaderData (of_nat (length c)) f5 = (0, a, f6)" "a \<noteq> NULL"
      "Read efi h (of_nat (length c)) f6 = (0, of_nat (length c), buf, f7)" "\<forall>i<length c. buf i = c ! i" by auto
  have "read_whole efi h (of_nat (length c)) (s\<lparr>fw := f5\<rparr>) = ((a, c, Some (of_nat (length c))), s\<lparr>fw := f7\<rparr>)"
    using read_whole_file [of efi c "s\<lparr>fw := f5\<rparr>"] c by simp
  then have "res = (a, c, Some (of_nat (length c)))" "s' = s\<lparr>fw := snd (Close efi h f7), console := console s\<rparr>"
    using r c(1-3) by (auto simp: load_from_root_def Let_def split: prod.splits)
  then show ?thesis unfolding Some loads_def option.case using c(4,6) by blast
qed

lemma LoadFile_volume:
  assumes "volume efi (gImg s) files" and "LoadFile efi name s = (res, s')"
  shows "loads (files name) res \<and> (\<exists>f con. s' = s\<lparr>fw := f, console := con\<rparr>)"
proof -
  from assms(1) [unfolded volume_def, THEN spec, of "fw s"] obtain l f1 v f2 root f3 where
    o: "BS_OpenProtocol efi (gImg s) LoadedImageProtocol (gImg s) NULL 1 (fw s) = (0, l, f1)"
      "BS_OpenProtocol efi (DeviceHandle efi l f1) SimpleFileSystemProtocol (gImg s) NULL 1 f1 = (0, v, f2)"
      "OpenVolume efi v f2 = (0, root, f3)"
    and n: "serves_file efi root name f3 (files name)" by blast
  obtain res2 s2 where r: "load_from_root efi root name (s\<lparr>fw := f3\<rparr>) = (res2, s2)" by (metis prod.collapse)
  obtain f con where s2: "loads (files name) res2" "s2 = s\<lparr>fw := f, console := con\<rparr>"
    using load_from_root_file [OF _ r, of "files name"] n by auto
  obtain r4 f4 where e: "Close efi root f = (r4, f4)" by force
  obtain r5 f5 where g: "BS_CloseProtocol efi (DeviceHandle efi l f4) SimpleFileSystemProtocol (gImg s) NULL f4 = (r5, f5)" by force
  obtain r6 f6 where h: "BS_CloseProtocol efi (gImg s) LoadedImageProtocol (gImg s) NULL f5 = (r6, f6)" by force
  have "LoadFile efi name s = (res2, s\<lparr>fw := f6, console := con\<rparr>)"
    using o r s2(2) e g h by (simp add: LoadFile_def OpenProtocol_def CloseProtocol_def load_from_volume_def)
  then show ?thesis using s2(1) assms(2) by auto
qed

section \<open>What LoadFile holds on to\<close>

text \<open>
  What the firmware has handed out: open file handles, open protocols and pool memory. The
  contract says which call changes what; it is the documented behaviour of the services.
\<close>

record handed_out =
  handles :: "u64 multiset"
  protos :: "(u64 \<times> bytes) multiset"
  pool_mem :: "u64 multiset"

definition fs_contract :: "('f, 'x) boot_fw_scheme \<Rightarrow> ('f \<Rightarrow> handed_out) \<Rightarrow> bool" where
  "fs_contract efi acct \<longleftrightarrow>
     (\<forall>l f f'. DeviceHandle efi l f = DeviceHandle efi l f') \<and>
     (\<forall>h g a c k f r i f'. BS_OpenProtocol efi h g a c k f = (r, i, f') \<longrightarrow>
        acct f' = (if r = 0 then (acct f)\<lparr>protos := add_mset (h, g) (protos (acct f))\<rparr> else acct f)) \<and>
     (\<forall>h g a c f r f'. BS_CloseProtocol efi h g a c f = (r, f') \<longrightarrow>
        acct f' = (acct f)\<lparr>protos := protos (acct f) - {#(h, g)#}\<rparr>) \<and>
     (\<forall>v f r h f'. OpenVolume efi v f = (r, h, f') \<longrightarrow>
        acct f' = (if r = 0 then (acct f)\<lparr>handles := add_mset h (handles (acct f))\<rparr> else acct f)) \<and>
     (\<forall>d n m a f r h f'. FOpen efi d n m a f = (r, h, f') \<longrightarrow>
        acct f' = (if r = 0 then (acct f)\<lparr>handles := add_mset h (handles (acct f))\<rparr> else acct f)) \<and>
     (\<forall>h f r f'. Close efi h f = (r, f') \<longrightarrow> acct f' = (acct f)\<lparr>handles := handles (acct f) - {#h#}\<rparr>) \<and>
     (\<forall>h g n f r b f'. GetInfo efi h g n f = (r, b, f') \<longrightarrow> acct f' = acct f) \<and>
     (\<forall>h n f r k b f'. Read efi h n f = (r, k, b, f') \<longrightarrow> acct f' = acct f) \<and>
     (\<forall>t n f r a f'. AllocatePool efi t n f = (r, a, f') \<longrightarrow>
        acct f' = (if r = 0 then (acct f)\<lparr>pool_mem := add_mset a (pool_mem (acct f))\<rparr> else acct f) \<and>
        (r = 0 \<longrightarrow> a \<noteq> NULL)) \<and>
     (\<forall>a f r f'. FreePool efi a f = (r, f') \<longrightarrow> acct f' = (acct f)\<lparr>pool_mem := pool_mem (acct f) - {#a#}\<rparr>)"

lemma fs_contractD:
  assumes "fs_contract efi acct"
  shows "DeviceHandle efi l f = DeviceHandle efi l f'"
    and "BS_OpenProtocol efi h g a c k f = (r, i, f') \<Longrightarrow>
      acct f' = (if r = 0 then (acct f)\<lparr>protos := add_mset (h, g) (protos (acct f))\<rparr> else acct f)"
    and "BS_CloseProtocol efi h g a c f = (r, f') \<Longrightarrow>
      acct f' = (acct f)\<lparr>protos := protos (acct f) - {#(h, g)#}\<rparr>"
    and "OpenVolume efi v f = (r, h, f') \<Longrightarrow>
      acct f' = (if r = 0 then (acct f)\<lparr>handles := add_mset h (handles (acct f))\<rparr> else acct f)"
    and "FOpen efi v n m at f = (r, h, f') \<Longrightarrow>
      acct f' = (if r = 0 then (acct f)\<lparr>handles := add_mset h (handles (acct f))\<rparr> else acct f)"
    and "Close efi h f = (r, f') \<Longrightarrow> acct f' = (acct f)\<lparr>handles := handles (acct f) - {#h#}\<rparr>"
    and "GetInfo efi h g bn f = (r, b, f') \<Longrightarrow> acct f' = acct f"
    and "Read efi h rn f = (r, rk, b, f') \<Longrightarrow> acct f' = acct f"
    and "AllocatePool efi t pn f = (r, pa, f') \<Longrightarrow>
      acct f' = (if r = 0 then (acct f)\<lparr>pool_mem := add_mset pa (pool_mem (acct f))\<rparr> else acct f) \<and>
      (r = 0 \<longrightarrow> pa \<noteq> NULL)"
    and "FreePool efi pa f = (r, f') \<Longrightarrow> acct f' = (acct f)\<lparr>pool_mem := pool_mem (acct f) - {#pa#}\<rparr>"
  using assms unfolding fs_contract_def by metis+

text \<open>The memory of a result.\<close>

definition result_mem :: "loaded \<Rightarrow> u64 multiset" where
  "result_mem res = (if fst res = NULL then {#} else {#fst res#})"

lemma read_whole_acct:
  assumes "fs_contract efi acct" and "read_whole efi fileh fsz s = (res, s')"
  shows "acct (fw s') = (acct (fw s))\<lparr>pool_mem := pool_mem (acct (fw s)) + result_mem res\<rparr>" and "gImg s' = gImg s"
proof -
  obtain r1 data f1 where a: "AllocatePool efi EfiLoaderData fsz (fw s) = (r1, data, f1)" by (metis prod_cases3)
  obtain r2 sz buf f2 where b: "Read efi fileh fsz f1 = (r2, sz, buf, f2)" by (metis prod_cases4)
  obtain r3 f3 where c: "FreePool efi data f2 = (r3, f3)" by force
  note d = fs_contractD(9) [OF assms(1) a] fs_contractD(8) [OF assms(1) b] fs_contractD(10) [OF assms(1) c]
  show "acct (fw s') = (acct (fw s))\<lparr>pool_mem := pool_mem (acct (fw s)) + result_mem res\<rparr>"
    using assms(2) d a b c
    by (auto simp: read_whole_def Let_def result_mem_def printf_def split: if_splits)
  show "gImg s' = gImg s"
    using assms(2) a b c by (auto simp: read_whole_def Let_def printf_def split: if_splits)
qed

text \<open>Everything but the result's memory is given back, unless \<open>GetInfo\<close> fails: then the file stays
  open.\<close>

definition kept_open :: "handed_out \<Rightarrow> loaded \<Rightarrow> handed_out \<Rightarrow> bool \<Rightarrow> bool" where
  "kept_open a res a' info \<longleftrightarrow> protos a' = protos a \<and> pool_mem a' = pool_mem a + result_mem res \<and>
     (\<exists>leak. handles a' = handles a + leak \<and> size leak \<le> 1 \<and> (leak \<noteq> {#} \<longrightarrow> \<not> info \<and> fst res = NULL))"

lemma load_from_root_acct:
  assumes "fs_contract efi acct" and "load_from_root efi root filename s = (res, s')"
    and "info \<longrightarrow> (\<forall>h n f. fst (GetInfo efi h FileInfoGUID n f) = 0)"
  shows "kept_open (acct (fw s)) res (acct (fw s')) info" and "gImg s' = gImg s"
proof -
  obtain r1 fileh f1 where a: "FOpen efi root filename 1 0 (fw s) = (r1, fileh, f1)" by (metis prod_cases3)
  obtain r2 buf f2 where b: "GetInfo efi fileh FileInfoGUID 512 f1 = (r2, buf, f2)" by (metis prod_cases3)
  obtain res3 s3 where c: "read_whole efi fileh (file_size buf) (s\<lparr>fw := f2\<rparr>) = (res3, s3)" by (metis prod.collapse)
  obtain r4 f4 where e: "Close efi fileh (fw s3) = (r4, f4)" by force
  note d = fs_contractD(5) [OF assms(1) a] fs_contractD(7) [OF assms(1) b] read_whole_acct [OF assms(1) c]
    fs_contractD(6) [OF assms(1) e]
  have i: "info \<longrightarrow> r2 = 0" using assms(3) b by (metis fst_conv)
  show "kept_open (acct (fw s)) res (acct (fw s')) info"
    using assms(2) d a b c e i
    by (auto simp: load_from_root_def Let_def kept_open_def printf_def result_mem_def split: if_splits)
  show "gImg s' = gImg s"
    using assms(2) d(4) a b c e by (auto simp: load_from_root_def Let_def printf_def split: if_splits)
qed

lemma load_from_volume_acct:
  assumes "fs_contract efi acct" and "load_from_volume efi fioi filename s = (res, s')"
    and "info \<longrightarrow> (\<forall>h n f. fst (GetInfo efi h FileInfoGUID n f) = 0)"
  shows "kept_open (acct (fw s)) res (acct (fw s')) info" and "gImg s' = gImg s"
proof -
  obtain r1 root f1 where a: "OpenVolume efi fioi (fw s) = (r1, root, f1)" by (metis prod_cases3)
  obtain res2 s2 where b: "load_from_root efi root filename (s\<lparr>fw := f1\<rparr>) = (res2, s2)" by (metis prod.collapse)
  obtain r3 f3 where c: "Close efi root (fw s2) = (r3, f3)" by force
  note d = fs_contractD(4) [OF assms(1) a] load_from_root_acct [OF assms(1) b assms(3)] fs_contractD(6) [OF assms(1) c]
  show "kept_open (acct (fw s)) res (acct (fw s')) info"
    using assms(2) d a b c
    by (auto simp: load_from_volume_def Let_def kept_open_def printf_def result_mem_def split: if_splits)
  show "gImg s' = gImg s"
    using assms(2) d(3) a b c by (auto simp: load_from_volume_def Let_def printf_def split: if_splits)
qed

lemma LoadFile_acct:
  assumes "fs_contract efi acct" and "LoadFile efi filename s = (res, s')"
    and "info \<longrightarrow> (\<forall>h n f. fst (GetInfo efi h FileInfoGUID n f) = 0)"
  shows "kept_open (acct (fw s)) res (acct (fw s')) info"
proof -
  let ?L = "LoadedImageProtocol" and ?V = "SimpleFileSystemProtocol" and ?i = "gImg s"
  obtain r1 l f1 where a: "BS_OpenProtocol efi ?i ?L ?i NULL 1 (fw s) = (r1, l, f1)" by (metis prod_cases3)
  define dev where "dev = DeviceHandle efi l f1"
  have dev: "DeviceHandle efi l f = dev" for f unfolding dev_def by (rule fs_contractD(1) [OF assms(1)])
  obtain r2 v f2 where b: "BS_OpenProtocol efi dev ?V ?i NULL 1 f1 = (r2, v, f2)" by (metis prod_cases3)
  obtain res3 s3 where c: "load_from_volume efi v filename (s\<lparr>fw := f2\<rparr>) = (res3, s3)" by (metis prod.collapse)
  obtain r4 f4 where e: "BS_CloseProtocol efi dev ?V ?i NULL (fw s3) = (r4, f4)" by force
  obtain r5 f5 where g: "BS_CloseProtocol efi ?i ?L ?i NULL f4 = (r5, f5)" by force
  obtain r6 f6 where h: "BS_CloseProtocol efi ?i ?L ?i NULL f2 = (r6, f6)" by force
  note d = fs_contractD(2) [OF assms(1) a] fs_contractD(2) [OF assms(1) b] load_from_volume_acct [OF assms(1) c assms(3)]
    fs_contractD(3) [OF assms(1) e] fs_contractD(3) [OF assms(1) g] fs_contractD(3) [OF assms(1) h]
  show ?thesis
    using assms(2) d a b c e g h dev
    by (auto simp: LoadFile_def OpenProtocol_def CloseProtocol_def Let_def kept_open_def printf_def result_mem_def
        split: if_splits)
qed

end
