(* ===== verification/Osboot.thy ===== *)
theory Osboot
  imports Memmap Goodies
begin

unbundle bit_operations_syntax

text \<open>
  The boot loader, \<^verbatim>\<open>src/osboot.c\<close>: checking and placing a kernel image, filling in the
  zero page the kernel starts with, leaving the firmware, and the main program that boots from
  the local disk or from the network.
\<close>

section \<open>Loading a kernel\<close>

abbreviation (input) ZP_E820_COUNT :: nat where "ZP_E820_COUNT \<equiv> 0x1E8"
abbreviation (input) ZP_SETUP :: nat where "ZP_SETUP \<equiv> 0x1F1"
abbreviation (input) ZP_SETUP_SECTS :: nat where "ZP_SETUP_SECTS \<equiv> 0x1F1"
abbreviation (input) ZP_SYSSIZE :: nat where "ZP_SYSSIZE \<equiv> 0x1F4"
abbreviation (input) ZP_JUMP :: nat where "ZP_JUMP \<equiv> 0x200"
abbreviation (input) ZP_HEADER :: nat where "ZP_HEADER \<equiv> 0x202"
abbreviation (input) ZP_VERSION :: nat where "ZP_VERSION \<equiv> 0x206"
abbreviation (input) ZP_LOADER_TYPE :: nat where "ZP_LOADER_TYPE \<equiv> 0x210"
abbreviation (input) ZP_RAMDISK_BASE :: nat where "ZP_RAMDISK_BASE \<equiv> 0x218"
abbreviation (input) ZP_RAMDISK_SIZE :: nat where "ZP_RAMDISK_SIZE \<equiv> 0x21C"
abbreviation (input) ZP_EXTRA_MAGIC :: nat where "ZP_EXTRA_MAGIC \<equiv> 0x220"
abbreviation (input) ZP_CMDLINE :: nat where "ZP_CMDLINE \<equiv> 0x228"
abbreviation (input) ZP_E820_TABLE :: nat where "ZP_E820_TABLE \<equiv> 0x2D0"
abbreviation (input) ZP_ACPI_RSD :: nat where "ZP_ACPI_RSD \<equiv> 0x080"
abbreviation (input) ZP_FB_BASE :: nat where "ZP_FB_BASE \<equiv> 0x090"
abbreviation (input) ZP_FB_WIDTH :: nat where "ZP_FB_WIDTH \<equiv> 0x094"
abbreviation (input) ZP_FB_HEIGHT :: nat where "ZP_FB_HEIGHT \<equiv> 0x098"
abbreviation (input) ZP_FB_STRIDE :: nat where "ZP_FB_STRIDE \<equiv> 0x09C"
abbreviation (input) ZP_FB_FORMAT :: nat where "ZP_FB_FORMAT \<equiv> 0x0A0"
abbreviation (input) ZP_FB_REGBASE :: nat where "ZP_FB_REGBASE \<equiv> 0x0A4"
abbreviation (input) ZP_FB_SIZE :: nat where "ZP_FB_SIZE \<equiv> 0x0A8"
abbreviation (input) ZP_MAGIC_VALUE :: u32 where "ZP_MAGIC_VALUE \<equiv> 0xDBC64323"

text \<open>\<open>kernel_t\<close>: the three allocated areas by address, and what they hold.\<close>

record kernel_t =
  zeropage :: u64
  zero_mem :: bytes
  kcmdline :: u64
  cmd_mem :: bytes
  kimage :: u64
  image_mem :: bytes
  pages :: u32

definition no_kernel :: kernel_t where
  "no_kernel = \<lparr>zeropage = NULL, zero_mem = [], kcmdline = NULL, cmd_mem = [], kimage = NULL, image_mem = [], pages = 0\<rparr>"

text \<open>Label \<open>fail\<close> of \<open>load_kernel\<close>.\<close>

definition free_kernel :: "('f, 'x) boot_fw_scheme \<Rightarrow> kernel_t \<Rightarrow> 'f \<Rightarrow> 'f" where
  "free_kernel efi k f =
     (let f = (if kimage k \<noteq> NULL then snd (FreePages efi (kimage k) (ucast (pages k)) f) else f);
          f = (if kcmdline k \<noteq> NULL then snd (FreePages efi (kcmdline k) 1 f) else f)
      in if zeropage k \<noteq> NULL then snd (FreePages efi (zeropage k) 1 f) else f)"

text \<open>The three allocations: an error message, or success. An area holds what the memory held.\<close>

definition alloc_kernel :: "('f, 'x) boot_fw_scheme \<Rightarrow> u32 \<Rightarrow> 'f \<Rightarrow> string option \<times> kernel_t \<times> 'f" where
  "alloc_kernel efi image_sz f =
     (let (r, mem, f) = AllocatePages efi AllocateMaxAddress EfiLoaderData 1 0xFF000 f
      in if r \<noteq> 0 then (Some (''kernel: cannot allocate '' @ quoted ''zero page'' @ ''\<newline>''), no_kernel, f)
      else let k = no_kernel\<lparr>zeropage := mem, zero_mem := phys_bytes efi f mem 4096\<rparr>;
               (r, mem, f) = AllocatePages efi AllocateMaxAddress EfiLoaderData 1 0xFF000 f
      in if r \<noteq> 0 then (Some ''kernel: cannot allocate commandline\<newline>'', k, f)
      else let k = k\<lparr>kcmdline := mem, cmd_mem := phys_bytes efi f mem 4096,
                     pages := (image_sz + 4095) div 4096\<rparr>;
               (r, mem, f) = AllocatePages efi AllocateAddress EfiLoaderData (ucast (pages k + 1)) 0x100000 f
      in if r \<noteq> 0 then (Some ''kernel: cannot allocate kernel\<newline>'', k, f)
      else (None, k\<lparr>kimage := mem, image_mem := phys_bytes efi f mem (4096 * unat (pages k + 1))\<rparr>, f))"

text \<open>Filling the areas from the image file.\<close>

definition fill_kernel :: "bytes \<Rightarrow> u32 \<Rightarrow> u32 \<Rightarrow> u32 \<Rightarrow> kernel_t \<Rightarrow> kernel_t option" where
  "fill_kernel kimg setup_sz image_sz setup_end k =
     do { z \<leftarrow> RtZeroMem (zero_mem k) 0 4096;
          z \<leftarrow> RtCopyMem z ZP_SETUP kimg ZP_SETUP (unat (setup_end - of_nat ZP_SETUP));
          m \<leftarrow> RtCopyMem (image_mem k) 0 kimg (unat setup_sz) (unat image_sz);
          z \<leftarrow> wr32 ZP_CMDLINE (ucast (kcmdline k)) z;
          c \<leftarrow> wr8 0 0 (cmd_mem k);
          z \<leftarrow> wr32 ZP_RAMDISK_BASE 0 z;
          z \<leftarrow> wr32 ZP_RAMDISK_SIZE 0 z;
          z \<leftarrow> wr8 ZP_LOADER_TYPE 0xFF z;
          Some (k\<lparr>zero_mem := z, cmd_mem := c, image_mem := m\<rparr>) }"

text \<open>The file lies in the object \<open>kimg\<close>, which may be larger than its size \<open>sz\<close>.\<close>

definition load_kernel :: "('f, 'x) boot_fw_scheme \<Rightarrow> bytes \<Rightarrow> u64 \<Rightarrow> ('f, 'a) machine_scheme \<Rightarrow>
    (int \<times> kernel_t \<times> ('f, 'a) machine_scheme) option" where
  "load_kernel efi kimg sz s =
     (let fail = (\<lambda>k s. Some (-1, k, s\<lparr>fw := free_kernel efi k (fw s)\<rparr>)) in
      if sz < 1024 then fail no_kernel s
      else do {
        magic \<leftarrow> rd32 ZP_HEADER kimg;
        if magic \<noteq> 0x53726448 then
          fail no_kernel (printf ''kernel: invalid setup magic %08x\<newline>'' [PInt (ucast magic)] s)
        else do {
          version \<leftarrow> rd16 ZP_VERSION kimg;
          if version < 0x020B then
            fail no_kernel (printf ''kernel: unsupported setup version %04x\<newline>'' [PInt (ucast version)] s)
          else do {
            sects \<leftarrow> rd8 ZP_SETUP_SECTS kimg;
            syssize \<leftarrow> rd32 ZP_SYSSIZE kimg;
            jump \<leftarrow> rd8 (ZP_JUMP + 1) kimg;
            let setup_sz = (ucast sects + 1) * 512;
            let image_sz = syssize * 16;
            let setup_end = of_nat ZP_JUMP + ucast jump;
            let s = printf ''setup %d image %d  hdr %04x-%04x\<newline>'' [PInt (ucast setup_sz),
              PInt (ucast image_sz), PInt (of_nat ZP_SETUP), PInt (ucast setup_end)] s;
            if setup_sz < 1024 \<or> ucast (setup_sz + image_sz) > sz + 15 then
              fail no_kernel (printf ''kernel: invalid image size\<newline>'' [] s)
            else do {
              let (e, k, f) = alloc_kernel efi image_sz (fw s);
              let s = s\<lparr>fw := f\<rparr>;
              (case e of Some msg \<Rightarrow> fail k (printf msg [] s)
               | None \<Rightarrow> do {
                   k \<leftarrow> fill_kernel kimg setup_sz image_sz setup_end k;
                   Some (0, k, printf ''kernel @%p, zeropage @%p, cmdline @%p\<newline>''
                     [PInt (kimage k), PInt (zeropage k), PInt (kcmdline k)] s) }) } } } })"

section \<open>Booting a kernel\<close>

definition e820_bytes :: "e820entry list \<Rightarrow> bytes" where
  "e820_bytes es = concat (map (\<lambda>e. to_le 8 (e_addr e) @ to_le 8 (e_size e) @ to_le 4 (e_type e)) es)"

definition install_memmap :: "kernel_t \<Rightarrow> e820entry list \<Rightarrow> u32 \<Rightarrow> kernel_t option" where
  "install_memmap k memmap cnt =
     do { z \<leftarrow> memcpy (zero_mem k) ZP_E820_TABLE (e820_bytes memmap) 0 (20 * unat cnt);
          z \<leftarrow> wr8 ZP_E820_COUNT (ucast cnt) z;
          Some (k\<lparr>zero_mem := z\<rparr>) }"

definition AcpiTableGUID :: bytes where
  "AcpiTableGUID = guid 0xEB9D2D30 0x2D88 0x11D3 [0x9A, 0x16, 0, 0x90, 0x27, 0x3F, 0xC1, 0x4D]"

definition Acpi2TableGUID :: bytes where
  "Acpi2TableGUID = guid 0x8868E871 0xE4F1 0x11D3 [0xBC, 0x22, 0, 0x80, 0xC7, 0x3C, 0x88, 0x81]"

definition ACPI_RSD_PTR :: bytes where
  "ACPI_RSD_PTR = asc ''RSD PTR ''"

text \<open>\<open>CompareGuid\<close> is 0 for equal GUIDs. The vendor's table is read where the firmware put it.\<close>

fun find_acpi_root :: "(u64 \<Rightarrow> bytes) \<Rightarrow> (bytes \<times> u64) list \<Rightarrow> u32 option" where
  "find_acpi_root mem [] = Some 0"
| "find_acpi_root mem ((g, tab) # cfgtab) =
     do { c1 \<leftarrow> RtCompareGuid g AcpiTableGUID;
          c2 \<leftarrow> (if c1 = 0 then RtCompareGuid g Acpi2TableGUID else Some 0);
          if c1 = 0 \<and> c2 = 0 then find_acpi_root mem cfgtab
          else do {
            c \<leftarrow> RtCompareMem (mem tab) 0 ACPI_RSD_PTR 0 8;
            if c \<noteq> 0 then find_acpi_root mem cfgtab else Some (ucast tab) } }"

text \<open>The loop over the graphics modes, from \<open>num\<close> on; the number of modes does not change.\<close>

fun dump_modes :: "('f, 'x) boot_fw_scheme \<Rightarrow> u32 \<Rightarrow> nat \<Rightarrow> ('f, 'a) machine_scheme \<Rightarrow>
    ('f, 'a) machine_scheme" where
  "dump_modes efi num 0 s = s"
| "dump_modes efi num (Suc n) s =
     (let (r, info, f) = QueryMode efi num (fw s); s = s\<lparr>fw := f\<rparr>
      in dump_modes efi (num + 1) n
        (if r \<noteq> 0 then s
         else let s = printf ''Mode %d  %d x %d (stride %d) fmt %d\<newline>''
                [PInt (ucast num), PInt (ucast (HorizontalResolution info)), PInt (ucast (VerticalResolution info)),
                 PInt (ucast (PixelsPerScanLine info)), PInt (ucast (PixelFormat info))] s
         in if PixelFormat info = PixelBitMask then
              printf ''Mode %d R:%08x G:%08x B:%08x X:%08x\<newline>''
                [PInt (ucast num), PInt (ucast (RedMask info)), PInt (ucast (GreenMask info)),
                 PInt (ucast (BlueMask info)), PInt (ucast (ReservedMask info))] s
            else s))"

definition dump_graphics_modes :: "('f, 'x) boot_fw_scheme \<Rightarrow> ('f, 'a) machine_scheme \<Rightarrow> ('f, 'a) machine_scheme" where
  "dump_graphics_modes efi s = dump_modes efi 0 (unat (MaxMode (GopMode efi (fw s)))) s"

text \<open>The zero page fields that \<open>boot_kernel\<close> writes before the command line.\<close>

definition fill_zeropage :: "u32 \<Rightarrow> gop_mode \<Rightarrow> bytes \<Rightarrow> bytes option" where
  "fill_zeropage acpi m z =
     do { z \<leftarrow> wr32 ZP_EXTRA_MAGIC ZP_MAGIC_VALUE z;
          z \<leftarrow> wr32 ZP_ACPI_RSD acpi z;
          z \<leftarrow> wr32 ZP_FB_BASE (ucast (FrameBufferBase m)) z;
          z \<leftarrow> wr32 ZP_FB_WIDTH (HorizontalResolution (Info m)) z;
          z \<leftarrow> wr32 ZP_FB_HEIGHT (VerticalResolution (Info m)) z;
          z \<leftarrow> wr32 ZP_FB_STRIDE (PixelsPerScanLine (Info m)) z;
          z \<leftarrow> wr32 ZP_FB_FORMAT 4 z;
          z \<leftarrow> wr32 ZP_FB_REGBASE 0 z;
          wr32 ZP_FB_SIZE (256 * 1024 * 1024) z }"

text \<open>A buffer passed by address, contents and size.\<close>

record blob =
  b_addr :: u64
  b_data :: bytes
  b_size :: u64

text \<open>The command line and ramdisk parts of \<open>boot_kernel\<close>.\<close>

definition fill_cmdline :: "blob \<Rightarrow> bytes \<Rightarrow> bytes option" where
  "fill_cmdline cmdline m =
     (if b_addr cmdline \<noteq> NULL then do {
        let csz = (if b_size cmdline \<ge> 4095 then 4095 else unat (b_size cmdline));
        m \<leftarrow> memcpy m 0 (b_data cmdline) 0 csz;
        wr8 csz 0 m }
      else Some m)"

definition fill_ramdisk :: "blob \<Rightarrow> bytes \<Rightarrow> bytes option" where
  "fill_ramdisk ramdisk z =
     (if b_addr ramdisk \<noteq> NULL \<and> b_size ramdisk \<noteq> 0 then do {
        z \<leftarrow> wr32 ZP_RAMDISK_BASE (ucast (b_addr ramdisk)) z;
        wr32 ZP_RAMDISK_SIZE (ucast (b_size ramdisk)) z }
      else Some z)"

text \<open>Printing the table.\<close>

fun dump_table :: "e820entry list \<Rightarrow> ('f, 'a) machine_scheme \<Rightarrow> ('f, 'a) machine_scheme option" where
  "dump_table [] s = Some s"
| "dump_table (e # es) s =
     (if unat (e_type e) < length e820name
      then dump_table es (printf ''%016lx %016lx %s\<newline>'' [PInt (e_addr e), PInt (e_size e),
        PStr (Some (asc (e820name ! unat (e_type e)) @ [0]))] s)
      else None)"

text \<open>
  How the boot loader ends a boot attempt: it came back, or it jumped to the kernel's entry
  with interrupts off and the zero page's address in a register.
\<close>

datatype 's boot_end = Returned int 's | Started u64 u64 kernel_t 's

definition start_kernel :: "kernel_t \<Rightarrow> 's \<Rightarrow> 's boot_end" where
  "start_kernel k s = Started (kimage k + 0x200) (zeropage k) k s"

text \<open>Leaving the firmware: the memory map with its key must be the current one, so one that is
  stale is read again. The result is the status, the number of entries and the message's format.
  A key that was never written is undefined.\<close>

definition exit_services :: "('f, 'x) boot_fw_scheme \<Rightarrow> u64 \<Rightarrow> int \<Rightarrow> u64 option \<Rightarrow> ('f, 'a) osboot_scheme \<Rightarrow>
    (efi_status \<times> int \<times> string \<times> ('f, 'a) osboot_scheme) option" where
  "exit_services efi img n key s =
     do { key \<leftarrow> key;
          let (r, f) = ExitBootServices efi img key (fw s);
          let s = s\<lparr>fw := f\<rparr>;
          if r = EFI_INVALID_PARAMETER then do {
            (n, key', s) \<leftarrow> process_memory_map efi 1 s;
            let (r, f) = ExitBootServices efi img (case key' of None \<Rightarrow> key | Some k \<Rightarrow> k) (fw s);
            Some (r, n, ''Cannot ExitBootServices! (2) %ld\<newline>'', s\<lparr>fw := f\<rparr>) }
          else Some (r, n, ''Cannot ExitBootServices! (1) %ld\<newline>'', s) }"

definition boot_kernel :: "('f, 'x) boot_fw_scheme \<Rightarrow> u64 \<Rightarrow> blob \<Rightarrow> blob \<Rightarrow> blob \<Rightarrow> ('f, 'a) osboot_scheme \<Rightarrow>
    ('f, 'a) osboot_scheme boot_end option" where
  "boot_kernel efi img kern ramdisk cmdline s =
     do { let s = printf ''boot_kernel() from %p (%ld bytes)\<newline>'' [PInt (b_addr kern), PInt (b_size kern)] s;
          let s = (if b_addr ramdisk \<noteq> NULL \<and> b_size ramdisk \<noteq> 0
                   then printf ''ramdisk at %p (%ld bytes)\<newline>'' [PInt (b_addr ramdisk), PInt (b_size ramdisk)] s
                   else s);
          (r, k, s) \<leftarrow> load_kernel efi (b_data kern) (b_size kern) s;
          if r \<noteq> 0 then Some (Returned (-1) (printf ''Failed to load kernel image\<newline>'' [] s))
          else do {
            acpi \<leftarrow> find_acpi_root (\<lambda>a. phys_bytes efi (fw s) a 8) (ConfigurationTable efi (fw s));
            if gop s = NULL then None
            else do {
              z \<leftarrow> fill_zeropage acpi (GopMode efi (fw s)) (zero_mem k);
              c \<leftarrow> fill_cmdline cmdline (cmd_mem k);
              z \<leftarrow> fill_ramdisk ramdisk z;
              let k = k\<lparr>zero_mem := z, cmd_mem := c\<rparr>;
              (n, key, s) \<leftarrow> process_memory_map efi 0 s;
              s \<leftarrow> dump_table (take (nat n) (e820table s)) s;
              (r, n, msg, s) \<leftarrow> exit_services efi img n key s;
              if r \<noteq> 0 then Some (Returned (-1) (printf msg [PInt r] s))
              else do {
                k \<leftarrow> install_memmap k (e820table s) (word_of_int n);
                Some (start_kernel k s) } } } }"

section \<open>The main program\<close>

text \<open>Sizes that \<open>LoadFile\<close> did not write are not used, as the address is \<open>NULL\<close> then.\<close>

definition blob_of :: "loaded \<Rightarrow> blob" where
  "blob_of l = \<lparr>b_addr = fst l, b_data = fst (snd l), b_size = (case snd (snd l) of None \<Rightarrow> 0 | Some n \<Rightarrow> n)\<rparr>"

definition try_local_boot :: "('f, 'x) boot_fw_scheme \<Rightarrow> u64 \<Rightarrow> ('f, 'a) osboot_scheme \<Rightarrow>
    ('f, 'a) osboot_scheme boot_end option" where
  "try_local_boot efi img s =
     (let (kern, s) = LoadFile efi ''magenta.bin'' s
      in if fst kern = NULL then
           Some (Returned 0 (printf (''Failed to load '' @ quoted ''magenta.bin'' @ '' from boot media\<newline>\<newline>'') [] s))
      else let (ramdisk, s) = LoadFile efi ''ramdisk.bin'' s;
               (cmdline, s) = LoadFile efi ''cmdline'' s
      in do {
        e \<leftarrow> boot_kernel efi img (blob_of kern) (blob_of ramdisk) (blob_of cmdline) s;
        Some (case e of Returned r s \<Rightarrow> Returned (-1) s | e \<Rightarrow> e) })"

abbreviation (input) KBUFSIZE :: u64 where "KBUFSIZE \<equiv> 33554432"
abbreviation (input) RBUFSIZE :: u64 where "RBUFSIZE \<equiv> 268435456"

text \<open>A network buffer of \<open>n\<close> bytes below 4 GiB, or \<open>None\<close> inside if there is no memory.\<close>

definition alloc_file :: "('f, 'x) boot_fw_scheme \<Rightarrow> nbfile_id \<Rightarrow> u64 \<Rightarrow> ('f, 'a) osboot_scheme \<Rightarrow>
    bool \<times> ('f, 'a) osboot_scheme" where
  "alloc_file efi i n s =
     (let (r, mem, f) = AllocatePages efi AllocateMaxAddress EfiLoaderData (n div 4096) 0xFFFFFFFF (fw s);
          s = s\<lparr>fw := f\<rparr>
      in if r \<noteq> 0 then (False, printf ''Failed to allocate network io buffer\<newline>'' [] s)
      else (True, nb_file_upd i ((nb_files s i)\<lparr>nb_addr := mem,
              nb_data := phys_bytes efi f mem (unat n), nb_size := n\<rparr>) s))"

text \<open>The file \<open>nbcmdline\<close> gets the static array \<open>cmdline\<close>, which is zero from the start.\<close>

definition init_cmdline :: "u64 \<Rightarrow> ('f, 'a) osboot_scheme \<Rightarrow> ('f, 'a) osboot_scheme" where
  "init_cmdline addr s =
     nb_file_upd NbCmdline ((nb_files s NbCmdline)\<lparr>nb_addr := addr, nb_data := replicate 4096 0, nb_size := 4096\<rparr>) s"

definition blob_of_file :: "nbfile \<Rightarrow> blob" where
  "blob_of_file f = \<lparr>b_addr = nb_addr f, b_data = nb_data f, b_size = nb_offset f\<rparr>"

text \<open>\<open>MZ\<close> and \<open>PE\<close>: an EFI program.\<close>

definition is_efi_binary :: "bytes \<Rightarrow> bool option" where
  "is_efi_binary x =
     do { a \<leftarrow> rd8 0 x; b \<leftarrow> rd8 1 x; c \<leftarrow> rd8 0x80 x; d \<leftarrow> rd8 0x81 x;
          Some (a = chr8 CHR ''M'' \<and> b = chr8 CHR ''Z'' \<and> c = chr8 CHR ''P'' \<and> d = chr8 CHR ''E'') }"

text \<open>Running an EFI program that was received.\<close>

definition run_binary :: "('f, 'x) boot_fw_scheme \<Rightarrow> u64 \<Rightarrow> ('f, 'a) osboot_scheme \<Rightarrow> ('f, 'a) osboot_scheme" where
  "run_binary efi img s =
     (let s = printf ''Attempting to run EFI binary...\<newline>'' [] s;
          k = nb_files s NbKernel;
          (r, h, f) = LoadImage efi img (take (unat (nb_offset k)) (nb_data k)) (fw s);
          s = s\<lparr>fw := f\<rparr>
      in if r \<noteq> EFI_SUCCESS then printf ''LoadImage Failed %ld\<newline>'' [PInt r] s
      else let (r, f) = StartImage efi h (fw s); s = s\<lparr>fw := f\<rparr>
      in if r \<noteq> EFI_SUCCESS then printf ''StartImage Failed %ld\<newline>'' [PInt r] s
      else printf ''\<newline>NetBoot Server Resuming...\<newline>'' [] s)"

text \<open>One round of the \<open>for (;;)\<close> loop: \<open>Inl\<close> to go on, \<open>Inr\<close> when a boot attempt ended.\<close>

definition netboot_round :: "('f, 'x) boot_fw_scheme \<Rightarrow> u64 \<Rightarrow> ('f, 'a) osboot_scheme \<Rightarrow>
    (('f, 'a) osboot_scheme + ('f, 'a) osboot_scheme boot_end) option" where
  "netboot_round efi img s =
     do { (n, s) \<leftarrow> netboot_poll efi s;
          if n < 1 then Some (Inl s)
          else if nb_offset (nb_files s NbKernel) < 32768 then Some (Inl s)
          else do {
            efi_bin \<leftarrow> is_efi_binary (nb_data (nb_files s NbKernel));
            if efi_bin then Some (Inl (run_binary efi img s))
            else do {
              s \<leftarrow> netboot_close efi s;
              e \<leftarrow> boot_kernel efi img (blob_of_file (nb_files s NbKernel)) (blob_of_file (nb_files s NbRamdisk))
                ((blob_of_file (nb_files s NbCmdline))\<lparr>b_size := 4096\<rparr>) s;
              Some (Inr e) } } }"

partial_function (option) netboot_loop :: "('f, 'x) boot_fw_scheme \<Rightarrow> u64 \<Rightarrow> ('f, 'a) osboot_scheme \<Rightarrow>
    ('f, 'a) osboot_scheme boot_end option" where
  "netboot_loop efi img s =
     do { r \<leftarrow> netboot_round efi img s;
          case r of Inl s \<Rightarrow> netboot_loop efi img s | Inr e \<Rightarrow> Some e }"

text \<open>Label \<open>fail\<close> of \<open>efi_main\<close>.\<close>

definition boot_failure :: "('f, 'x) boot_fw_scheme \<Rightarrow> ('f, 'a) osboot_scheme \<Rightarrow>
    ('f, 'a) osboot_scheme boot_end option" where
  "boot_failure efi s = do { s \<leftarrow> WaitAnyKey efi (printf ''\<newline>Boot Failure\<newline>'' [] s); Some (Returned 0 s) }"

definition GraphicsOutputProtocol :: bytes where
  "GraphicsOutputProtocol = guid 0x9042A9DE 0x23DC 0x4A38 [0x96, 0xFB, 0x7A, 0xDE, 0xD0, 0x80, 0x51, 0x6A]"

text \<open>Booting from the network, after the local boot found nothing; \<open>cmd\<close> is the address of the
  array \<open>cmdline\<close>.\<close>

definition network_boot :: "('f, 'x) boot_fw_scheme \<Rightarrow> u64 \<Rightarrow> u64 \<Rightarrow> ('f, 'a) osboot_scheme \<Rightarrow>
    ('f, 'a) osboot_scheme boot_end option" where
  "network_boot efi img cmd s =
     (let (ok, s) = alloc_file efi NbKernel KBUFSIZE s
      in if \<not> ok then boot_failure efi s
      else let (ok, s) = alloc_file efi NbRamdisk RBUFSIZE s
      in if \<not> ok then boot_failure efi s
      else do {
        (r, s) \<leftarrow> netboot_init efi (init_cmdline cmd s);
        if r \<noteq> 0 then boot_failure efi (printf ''Failed to initialize NetBoot\<newline>'' [] s)
        else do {
          e \<leftarrow> netboot_loop efi img (printf ''\<newline>NetBoot Server Started...\<newline>\<newline>'' [] s);
          case e of Returned r s \<Rightarrow> boot_failure efi s | e \<Rightarrow> Some e } })"

text \<open>\<open>gop\<close> is a null pointer unless the firmware has the protocol; then the first use is undefined.\<close>

definition efi_main :: "('f, 'x) boot_fw_scheme \<Rightarrow> u64 \<Rightarrow> u64 \<Rightarrow> u64 \<Rightarrow> ('f, 'a) osboot_scheme \<Rightarrow>
    ('f, 'a) osboot_scheme boot_end option" where
  "efi_main efi cmd img sys s =
     (let s = printf ''\<newline>OSBOOT v0.2\<newline>\<newline>'' [] (InitGoodies img sys s);
          (r, g, f) = LocateProtocol efi GraphicsOutputProtocol (fw s);
          s = s\<lparr>fw := f, gop := (if r = 0 then g else gop s)\<rparr>
      in if gop s = NULL then None
      else do {
        let s = printf ''Framebuffer base is at %lx\<newline>\<newline>'' [PInt (FrameBufferBase (GopMode efi (fw s)))] s;
        e \<leftarrow> try_local_boot efi img s;
        case e of Returned r s \<Rightarrow> if r < 0 then boot_failure efi s else network_boot efi img cmd s
        | e \<Rightarrow> Some e })"

end
