(* ===== verification/Osboot_Spec.thy ===== *)
theory Osboot_Spec
  imports Osboot Netboot_Spec
begin

unbundle bit_operations_syntax

text \<open>
  What the boot loader hands to a kernel. A kernel image whose header is consistent is placed at
  its address byte for byte; the zero page holds the header, the memory map, the framebuffer, the
  command line and the ramdisk; on every failure before that the allocated pages are given back.
\<close>

section \<open>Pages as sequences of writes\<close>

text \<open>A write, as a total function that never changes the size of the object.\<close>

definition put :: "nat \<Rightarrow> bytes \<Rightarrow> bytes \<Rightarrow> bytes" where
  "put off bs d = map (\<lambda>i. if off \<le> i \<and> i < off + length bs then bs ! (i - off) else d ! i) [0..<length d]"

lemma length_put [simp]: "length (put off bs d) = length d"
  by (simp add: put_def)

lemma nth_put:
  "i < length d \<Longrightarrow> put off bs d ! i = (if off \<le> i \<and> i < off + length bs then bs ! (i - off) else d ! i)"
  by (simp add: put_def)

lemma put_slices: "off + length bs \<le> length d \<Longrightarrow> put off bs d = take off d @ bs @ drop (off + length bs) d"
  by (rule nth_equalityI) (auto simp: nth_put nth_append)

lemma writes_put:
  "off + length bs \<le> length d \<Longrightarrow> wrn off bs d = Some (put off bs d)"
  "off < length d \<Longrightarrow> wr8 off b d = Some (put off [b] d)"
  "off + 4 \<le> length d \<Longrightarrow> wr32 off w d = Some (put off (to_le 4 w) d)"
  by (simp_all add: put_slices wrn_def wr8_wrn wr32_def)

lemma copies_put:
  assumes "doff + n \<le> length d" and "soff + n \<le> length s"
  shows "memcpy d doff s soff n = Some (put doff (take n (drop soff s)) d)"
    and "RtCopyMem d doff s soff n = Some (put doff (take n (drop soff s)) d)"
  using assms by (simp_all add: RtCopyMem_memcpy memcpy_eq rdn_ok writes_put)

lemma RtZeroMem_put: "off + n \<le> length d \<Longrightarrow> RtZeroMem d off n = Some (put off (replicate n 0) d)"
  by (simp add: RtZeroMem_memset memset_eq writes_put)

lemma put_all: "length bs = length d \<Longrightarrow> put 0 bs d = bs"
  by (rule nth_equalityI) (auto simp: nth_put)

text \<open>Reading a slice of an object after a write: of what was written, or of what lies beside it.\<close>

lemma rdn_put_same: "length bs = n \<Longrightarrow> off + n \<le> length d \<Longrightarrow> rdn off n (put off bs d) = Some bs"
  using rdn_wrn_same [of off bs d "put off bs d"] by (simp add: writes_put)

lemma rdn_put_disjoint:
  "off + length bs \<le> length d \<Longrightarrow> o' + n \<le> off \<or> off + length bs \<le> o' \<Longrightarrow> rdn o' n (put off bs d) = rdn o' n d"
  by (rule rdn_wrn_disjoint) (simp_all add: writes_put)

lemma rd32_put_same: "off + 4 \<le> length d \<Longrightarrow> rd32 off (put off (to_le 4 w) d) = Some w"
  by (rule acc32.rd_wr_same [of off w d]) (simp add: writes_put)

lemma rd32_put_disjoint:
  "off + length bs \<le> length d \<Longrightarrow> o' + 4 \<le> off \<or> off + length bs \<le> o' \<Longrightarrow> rd32 o' (put off bs d) = rd32 o' d"
  by (simp add: rd32_def rdn_put_disjoint)

lemmas rd_put = rdn_put_same rdn_put_disjoint rd32_put_same rd32_put_disjoint

section \<open>Kernel images\<close>

text \<open>The header of a bootable image in the object \<open>d\<close>: its number of setup sectors, its size in
  paragraphs and the length byte of its jump.\<close>

definition kernel_header :: "bytes \<Rightarrow> u8 \<Rightarrow> u32 \<Rightarrow> u8 \<Rightarrow> bool" where
  "kernel_header d sects syssize jump \<longleftrightarrow>
     rd32 ZP_HEADER d = Some 0x53726448 \<and> (\<exists>v. rd16 ZP_VERSION d = Some v \<and> 0x020B \<le> v) \<and>
     rd8 ZP_SETUP_SECTS d = Some sects \<and> rd32 ZP_SYSSIZE d = Some syssize \<and> rd8 (ZP_JUMP + 1) d = Some jump"

text \<open>A consistent image: the sizes do not wrap around and the data is there.\<close>

definition image_fits :: "bytes \<Rightarrow> u64 \<Rightarrow> u8 \<Rightarrow> u32 \<Rightarrow> bool" where
  "image_fits d sz sects syssize \<longleftrightarrow> 1024 \<le> unat sz \<and> 1 \<le> unat sects \<and> 1024 \<le> length d \<and> unat sz + 15 < 2 ^ 64 \<and>
     16 * unat syssize + 4095 < 2 ^ 32 \<and> 512 * (unat sects + 1) + 16 * unat syssize < 2 ^ 32 \<and>
     512 * (unat sects + 1) + 16 * unat syssize \<le> unat sz + 15 \<and>
     512 * (unat sects + 1) + 16 * unat syssize \<le> length d"

text \<open>The zero page after \<open>load_kernel\<close>.\<close>

definition loaded_zeropage :: "bytes \<Rightarrow> u8 \<Rightarrow> u64 \<Rightarrow> bytes" where
  "loaded_zeropage d jump cmd =
     put ZP_LOADER_TYPE [0xFF] (put ZP_RAMDISK_SIZE (to_le 4 (0 :: u32)) (put ZP_RAMDISK_BASE (to_le 4 (0 :: u32))
       (put ZP_CMDLINE (to_le 4 (ucast cmd :: u32))
         (put ZP_SETUP (take (15 + unat jump) (drop ZP_SETUP d)) (replicate 4096 0)))))"

lemma length_loaded_zeropage [simp]:
  "1024 \<le> length d \<Longrightarrow> length (loaded_zeropage d jump cmd) = 4096"
  using unat_u8_le [of jump] by (simp add: loaded_zeropage_def)

lemma unat_sizes:
  assumes "image_fits d sz sects syssize"
  shows "unat ((ucast sects + 1) * 512 :: u32) = 512 * (unat sects + 1)"
    and "unat (syssize * 16) = 16 * unat syssize"
    and "unat ((ucast sects + 1) * 512 + syssize * 16 :: u32) = 512 * (unat sects + 1) + 16 * unat syssize"
    and "unat ((syssize * 16 + 4095) div 4096) = (16 * unat syssize + 4095) div 4096"
    and "unat ((syssize * 16 + 4095) div 4096 + 1) = (16 * unat syssize + 4095) div 4096 + 1"
proof -
  have le: "16 * unat syssize + 4095 < 2 ^ 32" "512 * (unat sects + 1) + 16 * unat syssize < 2 ^ 32" using assms by (auto simp: image_fits_def)
  have s: "unat (ucast sects :: u32) = unat sects" by (rule unat_ucast_up) simp
  show a: "unat ((ucast sects + 1) * 512 :: u32) = 512 * (unat sects + 1)"
    using unat_u8_le [of sects] by (simp add: unat_word_ariths s)
  show b: "unat (syssize * 16) = 16 * unat syssize" using le by (simp add: unat_word_ariths)
  show "unat ((ucast sects + 1) * 512 + syssize * 16 :: u32) = 512 * (unat sects + 1) + 16 * unat syssize"
    using le unfolding unat_word_ariths(1) a b by simp
  have c: "unat (syssize * 16 + 4095) = 16 * unat syssize + 4095"
    using le unfolding unat_word_ariths(1) b by simp
  show d: "unat ((syssize * 16 + 4095) div 4096) = (16 * unat syssize + 4095) div 4096"
    by (simp only: unat_div c) simp
  show "unat ((syssize * 16 + 4095) div 4096 + 1) = (16 * unat syssize + 4095) div 4096 + 1"
    using le unfolding unat_word_ariths(1) d by simp
qed

lemma fill_kernel_eq:
  assumes fits: "image_fits d sz sects syssize"
    and k: "length (zero_mem k) = 4096" "length (cmd_mem k) = 4096" "16 * unat syssize \<le> length (image_mem k)"
  shows "fill_kernel d ((ucast sects + 1) * 512) (syssize * 16) (of_nat ZP_JUMP + ucast jump) k =
    Some (k\<lparr>zero_mem := loaded_zeropage d jump (kcmdline k), cmd_mem := put 0 [0] (cmd_mem k),
      image_mem := put 0 (take (16 * unat syssize) (drop (512 * (unat sects + 1)) d)) (image_mem k)\<rparr>)"
proof -
  have j: "unat (ucast jump :: u32) = unat jump" by (rule unat_ucast_up) simp
  have "unat (of_nat ZP_JUMP + ucast jump - of_nat ZP_SETUP :: u32) = unat (0xF + ucast jump :: u32)" by simp
  also have "\<dots> = 15 + unat jump" using unat_u8_le [of jump] by (simp add: unat_word_ariths j)
  finally have e: "unat (of_nat ZP_JUMP + ucast jump - of_nat ZP_SETUP :: u32) = 15 + unat jump" .
  have d: "1024 \<le> length d" "512 * (unat sects + 1) + 16 * unat syssize \<le> length d"
    using fits by (simp_all add: image_fits_def)
  have jb: "unat jump \<le> 255" by (rule unat_u8_le)
  show ?thesis
    unfolding fill_kernel_def e unat_sizes [OF fits] using d k jb
    by (simp add: RtZeroMem_put copies_put writes_put put_all loaded_zeropage_def)
qed

lemma alloc_kernel_areas:
  assumes "alloc_kernel efi image_sz f = (None, k, f')"
  shows "length (zero_mem k) = 4096" and "length (cmd_mem k) = 4096"
    and "length (image_mem k) = 4096 * unat ((image_sz + 4095) div 4096 + 1)"
  using assms by (auto simp: alloc_kernel_def Let_def split: prod.splits if_splits)

lemma div_round_up: "n \<le> 4096 * ((n + 4095) div 4096 + 1 :: nat)"
  using div_mult_mod_eq [of "n + 4095" 4096] mod_less_divisor [of 4096 "n + 4095"] by simp

text \<open>A consistent image is loaded; its data lands at the start of the allocated area.\<close>

lemma load_kernel_eq:
  assumes h: "kernel_header d sects syssize jump" and fits: "image_fits d sz sects syssize"
    and al: "alloc_kernel efi (syssize * 16) (fw s) = (None, k, f)"
  shows "\<exists>con. load_kernel efi d sz s = Some (0, k\<lparr>zero_mem := loaded_zeropage d jump (kcmdline k),
      cmd_mem := put 0 [0] (cmd_mem k),
      image_mem := put 0 (take (16 * unat syssize) (drop (512 * (unat sects + 1)) d)) (image_mem k)\<rparr>,
    s\<lparr>fw := f, console := con\<rparr>)"
proof -
  obtain v where v: "rd16 ZP_VERSION d = Some v" "\<not> v < 0x020B" using h by (auto simp: kernel_header_def not_less)
  note a = alloc_kernel_areas [OF al]
  have m: "16 * unat syssize \<le> length (image_mem k)"
    unfolding a(3) unat_sizes(5) [OF fits] by (rule div_round_up)
  have sz: "\<not> sz < 1024" using fits by (simp add: image_fits_def word_less_nat_alt)
  have s15: "unat (sz + 15) = unat sz + 15" using fits by (simp add: image_fits_def unat_word_ariths)
  have up: "unat (ucast ((ucast sects + 1) * 512 + syssize * 16 :: u32) :: u64) =
      512 * (unat sects + 1) + 16 * unat syssize"
    by (subst unat_ucast_up) (simp_all only: unat_sizes(3) [OF fits], simp)
  have chk: "\<not> ((ucast sects + 1) * 512 < (1024 :: u32) \<or>
      (ucast ((ucast sects + 1) * 512 + syssize * 16 :: u32) :: u64) > sz + 15)"
    unfolding word_less_nat_alt up s15 unat_sizes(1) [OF fits] using fits by (simp add: image_fits_def)
  show ?thesis
    unfolding load_kernel_def Let_def
    using h v sz chk al fill_kernel_eq [OF fits a(1,2) m, of jump]
    by (simp add: kernel_header_def printf_def) blast
qed

text \<open>
  The size check does not protect the copy: it passes an image that goes up to 15 bytes beyond the
  file, and one whose sizes wrap around when they are added in 32 bits. These are images that pass,
  for which there is memory, and of which some byte that is copied is not in the object.
\<close>

definition copy_overreads :: "('f, 'x) boot_fw_scheme \<Rightarrow> bytes \<Rightarrow> u64 \<Rightarrow> 'f \<Rightarrow> bool" where
  "copy_overreads efi d sz f \<longleftrightarrow> 1024 \<le> sz \<and> (\<exists>sects syssize jump. kernel_header d sects syssize jump \<and>
     (let setup_sz = (ucast sects + 1) * 512 :: u32; image_sz = syssize * 16 in
      1024 \<le> setup_sz \<and> ucast (setup_sz + image_sz) \<le> sz + 15 \<and> fst (alloc_kernel efi image_sz f) = None \<and>
      image_sz \<noteq> 0 \<and> length d < unat setup_sz + unat image_sz))"

lemma fill_kernel_None:
  fixes jump :: u8
  assumes al: "alloc_kernel efi image_sz f = (None, k, f')" and d: "1024 \<le> length d" "length d < 2 ^ 31"
  shows "fill_kernel d setup_sz image_sz (of_nat ZP_JUMP + ucast jump) k = None \<longleftrightarrow>
    image_sz \<noteq> 0 \<and> length d < unat setup_sz + unat image_sz"
proof -
  note ar = alloc_kernel_areas [OF al]
  have j: "unat (ucast jump :: u32) = unat (jump :: u8)" by (rule unat_ucast_up) simp
  have e: "unat (of_nat ZP_JUMP + ucast jump - of_nat ZP_SETUP :: u32) = unat (0xF + ucast jump :: u32)" by simp
  have jb: "unat (of_nat ZP_JUMP + ucast jump - of_nat ZP_SETUP :: u32) = 15 + unat jump" "unat jump \<le> 255"
    unfolding e using unat_u8_le [of jump] by (simp_all add: unat_word_ariths j)
  have room: "unat image_sz \<le> length (image_mem k)" if "unat image_sz < 2 ^ 31"
  proof -
    have a: "unat (image_sz + 4095) = unat image_sz + 4095" using that by (simp add: unat_word_ariths)
    have b: "unat ((image_sz + 4095) div 4096) = (unat image_sz + 4095) div 4096" by (simp only: unat_div a) simp
    have "unat ((image_sz + 4095) div 4096 + 1) = (unat image_sz + 4095) div 4096 + 1"
      using that unfolding unat_word_ariths(1) b by simp
    then show ?thesis unfolding ar(3) using div_round_up by simp
  qed
  have z: "RtZeroMem (zero_mem k) 0 4096 = Some (replicate 4096 0)"
      "RtCopyMem (replicate 4096 0) ZP_SETUP d ZP_SETUP (15 + unat jump) =
        Some (put ZP_SETUP (take (15 + unat jump) (drop ZP_SETUP d)) (replicate 4096 0))"
    using ar(1) d(1) jb(2) by (simp_all add: RtZeroMem_put put_all copies_put)
  have "fill_kernel d setup_sz image_sz (of_nat ZP_JUMP + ucast jump) k = None \<longleftrightarrow>
      memcpy (image_mem k) 0 d (unat setup_sz) (unat image_sz) = None"
    unfolding fill_kernel_def jb(1) using z ar(2)
    by (cases "memcpy (image_mem k) 0 d (unat setup_sz) (unat image_sz)") (simp_all add: RtCopyMem_memcpy writes_put)
  also have "\<dots> \<longleftrightarrow> image_sz \<noteq> 0 \<and> length d < unat setup_sz + unat image_sz"
    using room d(2) by (cases "unat image_sz < 2 ^ 31") (auto simp: memcpy_None unat_eq_zero)
  finally show ?thesis .
qed

lemma load_kernel_None:
  assumes d: "unat sz \<le> length d" "length d < 2 ^ 31"
  shows "load_kernel efi d sz s = None \<longleftrightarrow> copy_overreads efi d sz (fw s)"
proof (cases "sz < 1024")
  case True
  then show ?thesis by (simp add: load_kernel_def copy_overreads_def not_le)
next
  case False
  then have l: "1024 \<le> length d" using d(1) by (simp add: word_less_nat_alt)
  then obtain magic version sects syssize jump where h: "rd32 ZP_HEADER d = Some magic" "rd16 ZP_VERSION d = Some version"
      "rd8 ZP_SETUP_SECTS d = Some sects" "rd32 ZP_SYSSIZE d = Some syssize" "rd8 (ZP_JUMP + 1) d = Some jump"
    by (simp add: rd32_def rd16_def rd8_def rdn_def)
  obtain e k f where al: "alloc_kernel efi (syssize * 16) (fw s) = (e, k, f)" by (metis prod_cases3)
  have kh: "kernel_header d a b c \<longleftrightarrow> magic = 0x53726448 \<and> 0x020B \<le> version \<and> a = sects \<and> b = syssize \<and> c = jump" for a b c
    using h by (auto simp: kernel_header_def)
  have f: "e = None \<Longrightarrow> fill_kernel d ((ucast sects + 1) * 512) (syssize * 16) (of_nat ZP_JUMP + ucast jump) k = None \<longleftrightarrow>
      syssize * 16 \<noteq> 0 \<and> length d < unat ((ucast sects + 1) * 512 :: u32) + unat (syssize * 16)"
    using fill_kernel_None [OF _ l d(2)] al by simp
  show ?thesis
    using False h al f unfolding load_kernel_def copy_overreads_def Let_def
    by (cases e) (auto simp: kh printf_frame not_le not_less split: if_splits)
qed

section \<open>Pages given back\<close>

text \<open>Documented behaviour of the page services: what is allocated, by address and number of pages.\<close>

definition page_contract :: "('f, 'x) boot_fw_scheme \<Rightarrow> ('f \<Rightarrow> (u64 \<times> u64) multiset) \<Rightarrow> bool" where
  "page_contract efi acct \<longleftrightarrow>
     (\<forall>t m n a f r b f'. AllocatePages efi t m n a f = (r, b, f') \<longrightarrow>
        acct f' = (if r = 0 then add_mset (b, n) (acct f) else acct f) \<and> (r = 0 \<longrightarrow> b \<noteq> NULL)) \<and>
     (\<forall>b n f r f'. FreePages efi b n f = (r, f') \<longrightarrow> acct f' = acct f - {#(b, n)#})"

lemma page_contractD:
  assumes "page_contract efi acct"
  shows "AllocatePages efi t m n a f = (r, b, f') \<Longrightarrow>
      acct f' = (if r = 0 then add_mset (b, n) (acct f) else acct f) \<and> (r = 0 \<longrightarrow> b \<noteq> NULL)"
    and "acct (snd (FreePages efi b n f)) = acct f - {#(b, n)#}"
  using assms unfolding page_contract_def by (blast, metis prod.collapse)

text \<open>The areas of a loaded kernel.\<close>

definition kernel_pages :: "kernel_t \<Rightarrow> (u64 \<times> u64) multiset" where
  "kernel_pages k = {#(zeropage k, 1), (kcmdline k, 1), (kimage k, ucast (pages k + 1))#}"

lemma alloc_kernel_pages:
  assumes c: "page_contract efi acct" and "alloc_kernel efi image_sz f = (e, k, f')"
  shows "e \<noteq> None \<Longrightarrow> acct (free_kernel efi k f') = acct f"
    and "e = None \<Longrightarrow> acct f' = acct f + kernel_pages k"
proof -
  obtain r1 m1 f1 where a: "AllocatePages efi AllocateMaxAddress EfiLoaderData 1 0xFF000 f = (r1, m1, f1)"
    by (metis prod_cases3)
  obtain r2 m2 f2 where b: "AllocatePages efi AllocateMaxAddress EfiLoaderData 1 0xFF000 f1 = (r2, m2, f2)"
    by (metis prod_cases3)
  obtain r3 m3 f3 where d: "AllocatePages efi AllocateAddress EfiLoaderData (ucast ((image_sz + 4095) div 4096 + 1))
      0x100000 f2 = (r3, m3, f3)"
    by (metis prod_cases3)
  note p = page_contractD(1) [OF c a] page_contractD(1) [OF c b] page_contractD(1) [OF c d] page_contractD(2) [OF c]
  show "acct (free_kernel efi k f') = acct f" if "e \<noteq> None"
    using assms(2) that a b d p
    by (auto simp: alloc_kernel_def free_kernel_def no_kernel_def Let_def split: if_splits)
  show "acct f' = acct f + kernel_pages k" if "e = None"
    using assms(2) that a b d p
    by (auto simp: alloc_kernel_def kernel_pages_def no_kernel_def Let_def split: if_splits)
qed

lemma load_kernel_pages:
  assumes c: "page_contract efi acct" and r: "load_kernel efi d sz s = Some (r, k, s')"
  shows "r = 0 \<and> acct (fw s') = acct (fw s) + kernel_pages k \<or> r = -1 \<and> acct (fw s') = acct (fw s)"
proof -
  have nk: "free_kernel efi no_kernel f = f" for f by (simp add: free_kernel_def no_kernel_def)
  have fill: "kernel_pages k' = kernel_pages k" if "fill_kernel d a b c k = Some k'" for a b c k k'
    using that by (auto simp: fill_kernel_def kernel_pages_def split: bind_splits)
  obtain e k1 f1 where al: "alloc_kernel efi (the (rd32 ZP_SYSSIZE d) * 16) (fw s) = (e, k1, f1)" by (metis prod_cases3)
  show ?thesis
    using r al alloc_kernel_pages [OF c al]
    by (auto simp: load_kernel_def Let_def nk printf_def fill split: bind_splits if_splits option.splits)
qed

section \<open>The ACPI root\<close>

lemma rd32_eq_iff:
  assumes "off + 4 \<le> length g" and "off + 4 \<le> length h"
  shows "rd32 off g = rd32 off h \<longleftrightarrow> take 4 (drop off g) = take 4 (drop off h)"
proof -
  have "to_le 4 (of_le (take 4 (drop off x)) :: u32) = take 4 (drop off x)" if "off + 4 \<le> length x" for x
    using that by (intro to_le_of_le) auto
  then show ?thesis using assms by (auto simp: rd32_def rdn_def) metis
qed

lemma guid_words:
  fixes g :: bytes
  assumes "length g = 16"
  shows "g = take 4 g @ take 4 (drop 4 g) @ take 4 (drop 8 g) @ take 4 (drop 12 g)"
proof -
  have "take 4 x @ drop 4 x = x" for x :: bytes by simp
  from this [of g] this [of "drop 4 g"] this [of "drop 8 g"] show ?thesis using assms by (simp add: drop_drop)
qed

lemma RtCompareGuid_zero:
  assumes "length g = 16" and "length h = 16"
  shows "\<exists>c. RtCompareGuid g h = Some c \<and> (c = 0 \<longleftrightarrow> g = h)"
proof -
  have r: "\<exists>x. rd32 off y = Some x" if "off + 4 \<le> length y" for off y
    using acc32.rd_defined [of off y] that by auto
  obtain a0 a1 a2 a3 b0 b1 b2 b3 where w: "rd32 0 g = Some a0" "rd32 4 g = Some a1" "rd32 8 g = Some a2"
      "rd32 12 g = Some a3" "rd32 0 h = Some b0" "rd32 4 h = Some b1" "rd32 8 h = Some b2" "rd32 12 h = Some b3"
    using r [of 0 g] r [of 4 g] r [of 8 g] r [of 12 g] r [of 0 h] r [of 4 h] r [of 8 h] r [of 12 h] assms by auto
  have "g = h \<longleftrightarrow> a0 = b0 \<and> a1 = b1 \<and> a2 = b2 \<and> a3 = b3"
    using rd32_eq_iff [of 0 g h] rd32_eq_iff [of 4 g h] rd32_eq_iff [of 8 g h] rd32_eq_iff [of 12 g h]
      guid_words [OF assms(1)] guid_words [OF assms(2)] assms w by auto
  then show ?thesis by (simp add: RtCompareGuid_def w or_eq_0_iff)
qed

text \<open>The search returns the first table that starts with the signature, whatever its GUID is.\<close>

lemma find_acpi_root_eq:
  assumes "\<forall>(g, tab)\<in>set cfg. length g = 16 \<and> length (mem tab) = 8"
  shows "find_acpi_root mem cfg = Some (case find (\<lambda>(g, tab). mem tab = ACPI_RSD_PTR) cfg of
    None \<Rightarrow> 0 | Some (g, tab) \<Rightarrow> ucast tab)"
  using assms
proof (induction cfg)
  case Nil
  then show ?case by simp
next
  case (Cons x cfg)
  obtain g tab where x: "x = (g, tab)" by (cases x)
  have l: "length g = 16" "length (mem tab) = 8" "length ACPI_RSD_PTR = 8"
    using Cons.prems by (auto simp: x ACPI_RSD_PTR_def)
  have gl: "length AcpiTableGUID = 16" "length Acpi2TableGUID = 16"
    by (simp_all add: AcpiTableGUID_def Acpi2TableGUID_def guid_def)
  obtain c1 c2 where c: "RtCompareGuid g AcpiTableGUID = Some c1" "c1 = 0 \<longleftrightarrow> g = AcpiTableGUID"
      "RtCompareGuid g Acpi2TableGUID = Some c2" "c2 = 0 \<longleftrightarrow> g = Acpi2TableGUID"
    using RtCompareGuid_zero [OF l(1) gl(1)] RtCompareGuid_zero [OF l(1) gl(2)] by blast
  have "AcpiTableGUID \<noteq> Acpi2TableGUID"
    by (simp add: AcpiTableGUID_def Acpi2TableGUID_def guid_def)
  then have pass: "\<not> (c1 = 0 \<and> c2 = 0)" using c by auto
  obtain m where m: "memcmp (mem tab) 0 ACPI_RSD_PTR 0 8 = Some m"
    using memcmp_defined [of 0 8 "mem tab" 0 ACPI_RSD_PTR] l by auto
  have mz: "m = 0 \<longleftrightarrow> mem tab = ACPI_RSD_PTR"
    using memcmp_whole [of "mem tab" 8 0 ACPI_RSD_PTR] m l by auto
  show ?case using Cons c pass m mz by (auto simp: x RtCompareMem_memcmp simp del: memcmp.simps)
qed

section \<open>The table in the zero page\<close>

lemma e820_bytes_take: "take (20 * n) (e820_bytes es) = e820_bytes (take n es)"
proof (induction es arbitrary: n)
  case (Cons e es)
  then show ?case by (cases n) (simp_all add: e820_bytes_def)
qed (simp add: e820_bytes_def)

lemma length_e820_bytes: "length (e820_bytes es) = 20 * length es"
  by (induction es) (simp_all add: e820_bytes_def)

lemma install_memmap_eq:
  assumes "length (zero_mem k) = 4096" and "n < 128" and "length tab = 128"
  shows "install_memmap k tab (word_of_int (int n)) = Some (k\<lparr>zero_mem :=
    put ZP_E820_COUNT [of_nat n] (put ZP_E820_TABLE (e820_bytes (take n tab)) (zero_mem k))\<rparr>)"
proof -
  have u: "unat (of_nat n :: u32) = n" using assms(2) by (simp add: unat_of_nat take_bit_nat_eq_self)
  have b: "(ucast (of_nat n :: u32) :: u8) = of_nat n"
    using assms(2) by (simp add: unsigned_of_nat take_bit_nat_eq_self)
  show ?thesis
    using assms by (simp add: install_memmap_def u b copies_put writes_put length_e820_bytes e820_bytes_take)
qed

lemma e820type_le: "unat (e820type t) < length e820name"
  by (simp add: e820type_def e820name_def)

lemma e820_of_types: "\<forall>e\<in>set (e820_of ds). unat (e_type e) < length e820name"
proof -
  have "\<forall>e\<in>set es. unat (e_type e) < length e820name \<Longrightarrow>
      \<forall>e\<in>set (fold absorb ds es). unat (e_type e) < length e820name" for es
  proof (induction ds arbitrary: es)
    case (Cons x ds)
    obtain t start pg where x: "x = (t, start, pg)" by (cases x)
    have "\<forall>e\<in>set (absorb x es). unat (e_type e) < length e820name"
      using Cons.prems e820type_le [of t] by (auto simp: x dest: in_set_butlastD)
    then show ?case using Cons.IH by simp
  qed simp
  from this [of "[]"] show ?thesis by (simp add: e820_of_def)
qed

lemma dump_table_eq: "\<forall>e\<in>set es. unat (e_type e) < length e820name \<Longrightarrow>
    \<exists>con. dump_table es s = Some (s\<lparr>console := con\<rparr>)"
proof (induction es arbitrary: s)
  case Nil
  show ?case by (rule exI [of _ "console s"]) simp
next
  case (Cons e es)
  let ?s = "printf ''%016lx %016lx %s\<newline>'' [PInt (e_addr e), PInt (e_size e),
      PStr (Some (asc (e820name ! unat (e_type e)) @ [0]))] s"
  from Cons obtain con where "dump_table es ?s = Some (?s\<lparr>console := con\<rparr>)" by auto
  with Cons.prems show ?case by (auto simp: printf_def)
qed

section \<open>The hand-over\<close>

text \<open>Leaving the firmware succeeds, at once or after the memory map was read again; \<open>ds\<close> are the
  descriptors of the last map read.\<close>

definition leaves :: "('f, 'x) boot_fw_scheme \<Rightarrow> u64 \<Rightarrow> 'f \<Rightarrow> mdesc list \<Rightarrow> 'f \<Rightarrow> bool" where
  "leaves efi img f ds f' \<longleftrightarrow> (\<exists>ds1 key f1. memmap_result efi f ds1 key f1 \<and> length (e820_of ds1) < 128 \<and>
     (ExitBootServices efi img key f1 = (0, f') \<and> ds = ds1 \<or>
      (\<exists>f2 key2 f3. ExitBootServices efi img key f1 = (EFI_INVALID_PARAMETER, f2) \<and>
         memmap_result efi f2 ds key2 f3 \<and> ExitBootServices efi img key2 f3 = (0, f'))))"

lemma leave_eq:
  fixes s :: "('f, 'a) osboot_scheme"
  assumes l: "leaves efi img (fw s) ds f'" and tab: "length (e820table s) = 128" and n: "length (e820_of ds) < 128"
  shows "\<exists>msg con tab. do { (n, key, s) \<leftarrow> process_memory_map efi 0 s;
        s \<leftarrow> dump_table (take (nat n) (e820table s)) s;
        exit_services efi img n key s } =
      Some (0, int (length (e820_of ds)), msg, s\<lparr>fw := f', console := con, e820table := tab\<rparr>) \<and>
    length tab = 128 \<and> take (length (e820_of ds)) tab = e820_of ds"
proof -
  obtain ds1 key f1 where m: "memmap_result efi (fw s) ds1 key f1" "length (e820_of ds1) < 128"
      "ExitBootServices efi img key f1 = (0, f') \<and> ds = ds1 \<or>
        (\<exists>f2 key2 f3. ExitBootServices efi img key f1 = (EFI_INVALID_PARAMETER, f2) \<and>
         memmap_result efi f2 ds key2 f3 \<and> ExitBootServices efi img key2 f3 = (0, f'))"
    using l unfolding leaves_def by blast
  obtain con1 tab1 where p: "process_memory_map efi 0 s = Some (int (length (e820_of ds1)), Some key,
        s\<lparr>fw := f1, console := con1, e820table := tab1\<rparr>)"
      "length tab1 = 128" "take (length (e820_of ds1)) tab1 = e820_of ds1"
    using process_memory_map_eq [OF m(1) tab, of 0] m(2) by auto
  obtain con2 where d: "dump_table (e820_of ds1) (s\<lparr>fw := f1, console := con1, e820table := tab1\<rparr>) =
      Some (s\<lparr>fw := f1, console := con2, e820table := tab1\<rparr>)"
    using dump_table_eq [OF e820_of_types, of ds1 "s\<lparr>fw := f1, console := con1, e820table := tab1\<rparr>"]
    by (auto simp: osboot_swap)
  from m(3) show ?thesis
  proof (elim disjE exE conjE)
    assume "ExitBootServices efi img key f1 = (0, f')" "ds = ds1"
    then show ?thesis using p d by (auto simp: exit_services_def osboot_swap)
  next
    fix f2 key2 f3
    assume x: "ExitBootServices efi img key f1 = (EFI_INVALID_PARAMETER, f2)"
      "memmap_result efi f2 ds key2 f3" "ExitBootServices efi img key2 f3 = (0, f')"
    obtain con3 tab3 where q: "process_memory_map efi 1 (s\<lparr>fw := f2, console := con2, e820table := tab1\<rparr>) =
        Some (int (length (e820_of ds)), Some key2, s\<lparr>fw := f3, console := con3, e820table := tab3\<rparr>)"
        "length tab3 = 128" "take (length (e820_of ds)) tab3 = e820_of ds"
      using process_memory_map_eq [of efi "s\<lparr>fw := f2, console := con2, e820table := tab1\<rparr>" ds key2 f3 1] x(2) n p(2)
      by auto
    show ?thesis using p d q x(1,3) by (auto simp: exit_services_def osboot_swap)
  qed
qed

text \<open>What the kernel finds in the zero page.\<close>

definition zp_handed :: "bytes \<Rightarrow> u32 \<Rightarrow> gop_mode \<Rightarrow> u64 \<Rightarrow> blob \<Rightarrow> e820entry list \<Rightarrow> bool" where
  "zp_handed z acpi m cmd ramdisk es \<longleftrightarrow> length z = 4096 \<and>
     rd32 ZP_EXTRA_MAGIC z = Some ZP_MAGIC_VALUE \<and> rd32 ZP_ACPI_RSD z = Some acpi \<and>
     rd32 ZP_FB_BASE z = Some (ucast (FrameBufferBase m)) \<and>
     rd32 ZP_FB_WIDTH z = Some (HorizontalResolution (Info m)) \<and>
     rd32 ZP_FB_HEIGHT z = Some (VerticalResolution (Info m)) \<and>
     rd32 ZP_FB_STRIDE z = Some (PixelsPerScanLine (Info m)) \<and> rd32 ZP_CMDLINE z = Some (ucast cmd) \<and>
     rd32 ZP_RAMDISK_BASE z =
       Some (if b_addr ramdisk \<noteq> NULL \<and> b_size ramdisk \<noteq> 0 then ucast (b_addr ramdisk) else 0) \<and>
     rd32 ZP_RAMDISK_SIZE z =
       Some (if b_addr ramdisk \<noteq> NULL \<and> b_size ramdisk \<noteq> 0 then ucast (b_size ramdisk) else 0) \<and>
     rd8 ZP_E820_COUNT z = Some (of_nat (length es)) \<and>
     rdn ZP_E820_TABLE (20 * length es) z = Some (e820_bytes es)"

definition zp_page :: "bytes \<Rightarrow> u32 \<Rightarrow> gop_mode \<Rightarrow> blob \<Rightarrow> bytes" where
  "zp_page z acpi m ramdisk =
     (let z = put ZP_FB_SIZE (to_le 4 (0x10000000 :: u32)) (put ZP_FB_REGBASE (to_le 4 (0 :: u32))
        (put ZP_FB_FORMAT (to_le 4 (4 :: u32)) (put ZP_FB_STRIDE (to_le 4 (PixelsPerScanLine (Info m)))
        (put ZP_FB_HEIGHT (to_le 4 (VerticalResolution (Info m))) (put ZP_FB_WIDTH (to_le 4 (HorizontalResolution (Info m)))
        (put ZP_FB_BASE (to_le 4 (ucast (FrameBufferBase m) :: u32)) (put ZP_ACPI_RSD (to_le 4 acpi)
        (put ZP_EXTRA_MAGIC (to_le 4 ZP_MAGIC_VALUE) z))))))))
      in if b_addr ramdisk \<noteq> NULL \<and> b_size ramdisk \<noteq> 0
         then put ZP_RAMDISK_SIZE (to_le 4 (ucast (b_size ramdisk) :: u32))
           (put ZP_RAMDISK_BASE (to_le 4 (ucast (b_addr ramdisk) :: u32)) z)
         else z)"

lemma length_zp_page [simp]: "length z = 4096 \<Longrightarrow> length (zp_page z acpi m ramdisk) = 4096"
  by (simp add: zp_page_def Let_def)

lemma zp_page_eq:
  assumes "length z = 4096"
  shows "do { z \<leftarrow> fill_zeropage acpi m z; fill_ramdisk ramdisk z } = Some (zp_page z acpi m ramdisk)"
  using assms by (simp add: fill_zeropage_def fill_ramdisk_def zp_page_def writes_put Let_def)

lemma rd8_put:
  "off < length d \<Longrightarrow> rd8 off (put off [b] d) = Some b"
  by (simp add: rd8_def nth_put)

lemma zp_page_handed:
  assumes d: "1024 \<le> length d" and n: "length es < 128"
  shows "zp_handed (put ZP_E820_COUNT [of_nat (length es)] (put ZP_E820_TABLE (e820_bytes es)
    (zp_page (loaded_zeropage d jump cmd) acpi m ramdisk))) acpi m cmd ramdisk es"
proof -
  have j: "length (take (15 + unat jump) (drop 497 d)) \<le> 270" using unat_u8_le [of jump] by simp
  have e: "length (e820_bytes es) = 20 * length es" by (rule length_e820_bytes)
  have l: "length (loaded_zeropage d jump cmd) = 4096" using d by simp
  have c: "rd32 ZP_CMDLINE (loaded_zeropage d jump cmd) = Some (ucast cmd)"
      "rd32 ZP_RAMDISK_BASE (loaded_zeropage d jump cmd) = Some 0"
      "rd32 ZP_RAMDISK_SIZE (loaded_zeropage d jump cmd) = Some 0"
    using j by (simp_all add: loaded_zeropage_def rd_put)
  show ?thesis
    unfolding zp_handed_def zp_page_def Let_def using l n e c by (simp add: rd_put rd8_put)
qed

text \<open>The command line page: cut to a page, and terminated.\<close>

definition cmd_len :: "blob \<Rightarrow> nat" where
  "cmd_len c = min 4095 (unat (b_size c))"

lemma fill_cmdline_eq:
  assumes "length m = 4096" and "b_addr c \<noteq> NULL \<longrightarrow> cmd_len c \<le> length (b_data c)"
  shows "\<exists>m'. fill_cmdline c (put 0 [0] m) = Some m' \<and>
    (if b_addr c \<noteq> NULL then take (cmd_len c + 1) m' = take (cmd_len c) (b_data c) @ [0] else take 1 m' = [0])"
proof -
  let ?n = "cmd_len c" and ?m = "put 0 [0] m"
  have n: "(if b_size c \<ge> 4095 then 4095 else unat (b_size c)) = ?n"
    by (auto simp: cmd_len_def word_le_nat_alt min_def)
  have le: "?n \<le> 4095" by (simp add: cmd_len_def)
  show ?thesis
  proof (cases "b_addr c = NULL")
    case True
    then show ?thesis using assms(1) by (simp add: fill_cmdline_def put_slices)
  next
    case False
    let ?a = "take ?n (b_data c)"
    have a: "length ?a = ?n" using False assms(2) by simp
    have "fill_cmdline c ?m = Some (put ?n [0] (put 0 ?a ?m))"
      unfolding fill_cmdline_def n Let_def using False le assms by (simp add: copies_put writes_put)
    moreover have "take (?n + 1) (put ?n [0] (put 0 ?a ?m)) = ?a @ [0]"
      using le assms(1) a by (simp add: put_slices)
    ultimately show ?thesis using False by simp
  qed
qed

lemma boot_kernel_hands_over:
  fixes s :: "('f, 'a) osboot_scheme"
  assumes h: "kernel_header (b_data kern) sects syssize jump" and fits: "image_fits (b_data kern) (b_size kern) sects syssize"
    and al: "alloc_kernel efi (syssize * 16) (fw s) = (None, k0, f0)"
    and g: "gop s \<noteq> NULL" and tab: "length (e820table s) = 128"
    and cfg: "\<forall>(g, t)\<in>set (ConfigurationTable efi f0). length g = 16"
    and cmd: "b_addr cmdline \<noteq> NULL \<longrightarrow> cmd_len cmdline \<le> length (b_data cmdline)"
    and lv: "leaves efi img f0 ds f'" and n: "length (e820_of ds) < 128"
  shows "\<exists>k acpi s'. boot_kernel efi img kern ramdisk cmdline s = Some (Started (kimage k0 + 0x200) (zeropage k0) k s') \<and>
    find_acpi_root (\<lambda>a. phys_bytes efi f0 a 8) (ConfigurationTable efi f0) = Some acpi \<and> fw s' = f' \<and>
    zp_handed (zero_mem k) acpi (GopMode efi f0) (kcmdline k0) ramdisk (e820_of ds) \<and>
    take (16 * unat syssize) (image_mem k) = take (16 * unat syssize) (drop (512 * (unat sects + 1)) (b_data kern)) \<and>
    (if b_addr cmdline \<noteq> NULL then take (cmd_len cmdline + 1) (cmd_mem k) = take (cmd_len cmdline) (b_data cmdline) @ [0]
     else take 1 (cmd_mem k) = [0]) \<and>
    kimage k = kimage k0 \<and> zeropage k = zeropage k0 \<and> kcmdline k = kcmdline k0"
proof -
  let ?d = "b_data kern" and ?z = "loaded_zeropage (b_data kern) jump (kcmdline k0)"
  let ?i = "take (16 * unat syssize) (drop (512 * (unat sects + 1)) (b_data kern))"
  let ?k = "k0\<lparr>zero_mem := ?z, cmd_mem := put 0 [0] (cmd_mem k0), image_mem := put 0 ?i (image_mem k0)\<rparr>"
  note ar = alloc_kernel_areas [OF al]
  have d: "1024 \<le> length ?d" "512 * (unat sects + 1) + 16 * unat syssize \<le> length ?d"
    using fits by (simp_all add: image_fits_def)
  obtain acpi where acpi: "find_acpi_root (\<lambda>a. phys_bytes efi f0 a 8) (ConfigurationTable efi f0) = Some acpi"
    using find_acpi_root_eq [of "ConfigurationTable efi f0" "\<lambda>a. phys_bytes efi f0 a 8"] cfg by fastforce
  define s1 where "s1 = (let s = printf ''boot_kernel() from %p (%ld bytes)\<newline>'' [PInt (b_addr kern), PInt (b_size kern)] s
    in if b_addr ramdisk \<noteq> NULL \<and> b_size ramdisk \<noteq> 0
       then printf ''ramdisk at %p (%ld bytes)\<newline>'' [PInt (b_addr ramdisk), PInt (b_size ramdisk)] s else s)"
  have s1: "fw s1 = fw s" "gop s1 = gop s" "e820table s1 = e820table s"
    by (simp_all add: s1_def printf_def Let_def)
  note s1_eq = s1_def [unfolded Let_def, symmetric]
  obtain con where ld: "load_kernel efi ?d (b_size kern) s1 = Some (0, ?k, s1\<lparr>fw := f0, console := con\<rparr>)"
    using load_kernel_eq [OF h fits, of efi s1 k0 f0] al s1(1) by auto
  obtain c' where c': "fill_cmdline cmdline (put 0 [0] (cmd_mem k0)) = Some c'"
      "if b_addr cmdline \<noteq> NULL then take (cmd_len cmdline + 1) c' = take (cmd_len cmdline) (b_data cmdline) @ [0]
       else take 1 c' = [0]"
    using fill_cmdline_eq [OF ar(2) cmd] by blast
  let ?p = "zp_page ?z acpi (GopMode efi f0) ramdisk"
  obtain z1 where z1: "fill_zeropage acpi (GopMode efi f0) ?z = Some z1" "fill_ramdisk ramdisk z1 = Some ?p"
    using zp_page_eq [of ?z acpi "GopMode efi f0" ramdisk] d(1) by (auto simp: Option.bind_eq_Some_conv)
  let ?s = "s1\<lparr>fw := f0, console := con\<rparr>"
  obtain msg con2 tab2 where ex: "do { (n, key, s) \<leftarrow> process_memory_map efi 0 ?s;
        s \<leftarrow> dump_table (take (nat n) (e820table s)) s; exit_services efi img n key s } =
      Some (0, int (length (e820_of ds)), msg, ?s\<lparr>fw := f', console := con2, e820table := tab2\<rparr>)"
      "length tab2 = 128" "take (length (e820_of ds)) tab2 = e820_of ds"
    using leave_eq [of efi img ?s ds f'] lv tab n s1(3) by auto
  then obtain n1 key1 s2 s3 where st: "process_memory_map efi 0 ?s = Some (n1, key1, s2)"
      "dump_table (take (nat n1) (e820table s2)) s2 = Some s3"
      "exit_services efi img n1 key1 s3 =
        Some (0, int (length (e820_of ds)), msg, ?s\<lparr>fw := f', console := con2, e820table := tab2\<rparr>)"
    by (auto simp: Option.bind_eq_Some_conv)
  let ?z2 = "put ZP_E820_COUNT [of_nat (length (e820_of ds))] (put ZP_E820_TABLE (e820_bytes (e820_of ds)) ?p)"
  have im: "install_memmap (?k\<lparr>zero_mem := ?p, cmd_mem := c'\<rparr>) tab2 (word_of_int (int (length (e820_of ds)))) =
      Some (?k\<lparr>zero_mem := ?z2, cmd_mem := c'\<rparr>)"
    using install_memmap_eq [of "?k\<lparr>zero_mem := ?p, cmd_mem := c'\<rparr>" "length (e820_of ds)" tab2] n ex(2,3) d(1) by simp
  have bk: "boot_kernel efi img kern ramdisk cmdline s =
      Some (Started (kimage k0 + 0x200) (zeropage k0) (?k\<lparr>zero_mem := ?z2, cmd_mem := c'\<rparr>)
        (?s\<lparr>fw := f', console := con2, e820table := tab2\<rparr>))"
    unfolding boot_kernel_def Let_def s1_eq ld using g acpi z1 c'(1) st im s1(2)
    by (simp add: start_kernel_def)
  have img: "length ?i \<le> length (image_mem k0)"
    using div_round_up [of "16 * unat syssize"] unfolding ar(3) unat_sizes(5) [OF fits] by simp
  have "take (16 * unat syssize) (put 0 ?i (image_mem k0)) = ?i"
    using img d(2) by (simp add: put_slices)
  with bk acpi c'(2) zp_page_handed [OF d(1) n] show ?thesis by auto
qed

section \<open>Booting from the local disk\<close>

text \<open>There is room for a kernel of \<open>n\<close> bytes and the firmware can be left then, in whatever state.\<close>

definition can_boot :: "('f, 'x) boot_fw_scheme \<Rightarrow> u64 \<Rightarrow> u32 \<Rightarrow> bool" where
  "can_boot efi img n \<longleftrightarrow> (\<forall>f. \<exists>k f'. alloc_kernel efi n f = (None, k, f') \<and>
     (\<forall>(g, t)\<in>set (ConfigurationTable efi f'). length g = 16) \<and>
     (\<exists>ds f''. leaves efi img f' ds f'' \<and> length (e820_of ds) < 128))"

text \<open>The part of a loaded kernel that comes from the three files.\<close>

definition kernel_from :: "bytes \<Rightarrow> nat \<Rightarrow> nat \<Rightarrow> bytes option \<Rightarrow> bytes option \<Rightarrow> kernel_t \<Rightarrow> bool" where
  "kernel_from kern setup_sz image_sz ramdisk cmdline k \<longleftrightarrow>
     take image_sz (image_mem k) = take image_sz (drop setup_sz kern) \<and>
     rd32 ZP_RAMDISK_SIZE (zero_mem k) = Some (case ramdisk of None \<Rightarrow> 0 | Some r \<Rightarrow> of_nat (length r)) \<and>
     (let c = (case cmdline of None \<Rightarrow> [] | Some c \<Rightarrow> take 4095 c) in take (length c + 1) (cmd_mem k) = c @ [0]) \<and>
     rd32 ZP_CMDLINE (zero_mem k) = Some (ucast (kcmdline k))"

lemma blob_of_loads:
  assumes "loads file res"
  shows "b_addr (blob_of res) \<noteq> NULL \<longleftrightarrow> file \<noteq> None"
    and "b_addr (blob_of res) \<noteq> NULL \<longrightarrow> cmd_len (blob_of res) \<le> length (b_data (blob_of res))"
    and "file = Some c \<Longrightarrow> b_data (blob_of res) = c \<and> b_size (blob_of res) = of_nat (length c) \<and> cmd_len (blob_of res) = min 4095 (length c)"
  using assms by (auto simp: loads_def blob_of_def cmd_len_def unat_of_nat take_bit_nat_eq_self split: option.splits)

lemma ucast_of_nat_u64: "ucast (of_nat n :: u64) = (of_nat n :: u32)" "(of_nat n :: u64) = 0 \<Longrightarrow> (of_nat n :: u32) = 0"
proof -
  show u: "ucast (of_nat n :: u64) = (of_nat n :: u32)" by (rule bit_word_eqI) (simp add: bit_simps)
  show "(of_nat n :: u64) = 0 \<Longrightarrow> (of_nat n :: u32) = 0" using u by simp
qed

lemma take_min_length: "take (min (length xs) n) xs = take n xs"
  by (simp add: min_def)

lemma boot_kernel_files:
  fixes s :: "('f, 'a) osboot_scheme"
  assumes k: "loads (Some kern) kl" "loads ramdisk rl" "loads cmdline cl"
    and h: "kernel_header kern sects syssize jump" "image_fits kern (of_nat (length kern)) sects syssize"
    and c: "can_boot efi img (syssize * 16)" and g: "gop s \<noteq> NULL" "length (e820table s) = 128"
  shows "\<exists>k s'. boot_kernel efi img (blob_of kl) (blob_of rl) (blob_of cl) s =
      Some (Started (kimage k + 0x200) (zeropage k) k s') \<and>
    kernel_from kern (512 * (unat sects + 1)) (16 * unat syssize) ramdisk cmdline k"
proof -
  obtain k0 f0 ds f' where al: "alloc_kernel efi (syssize * 16) (fw s) = (None, k0, f0)"
      "\<forall>(g, t)\<in>set (ConfigurationTable efi f0). length g = 16" "leaves efi img f0 ds f'" "length (e820_of ds) < 128"
    using c unfolding can_boot_def by metis
  note bk = blob_of_loads [OF k(1)] and bc = blob_of_loads [OF k(3)] and br = blob_of_loads [OF k(2)]
  have kb: "kernel_header (b_data (blob_of kl)) sects syssize jump"
      "image_fits (b_data (blob_of kl)) (b_size (blob_of kl)) sects syssize" "b_data (blob_of kl) = kern"
    using bk(3) [OF refl] h by simp_all
  obtain k acpi s' where b: "boot_kernel efi img (blob_of kl) (blob_of rl) (blob_of cl) s =
        Some (Started (kimage k + 0x200) (zeropage k) k s')"
      "zp_handed (zero_mem k) acpi (GopMode efi f0) (kcmdline k) (blob_of rl) (e820_of ds)"
      "take (16 * unat syssize) (image_mem k) = take (16 * unat syssize) (drop (512 * (unat sects + 1)) kern)"
      "if b_addr (blob_of cl) \<noteq> NULL then take (cmd_len (blob_of cl) + 1) (cmd_mem k) = take (cmd_len (blob_of cl)) (b_data (blob_of cl)) @ [0]
       else take 1 (cmd_mem k) = [0]"
    using boot_kernel_hands_over [OF kb(1,2) al(1) g al(2) bc(2) al(3,4), of "blob_of rl"] unfolding kb(3) by metis
  have "rd32 ZP_RAMDISK_SIZE (zero_mem k) = Some (case ramdisk of None \<Rightarrow> 0 | Some r \<Rightarrow> of_nat (length r))"
    using b(2) br by (cases ramdisk) (auto simp: zp_handed_def ucast_of_nat_u64)
  moreover have "let c = (case cmdline of None \<Rightarrow> [] | Some c \<Rightarrow> take 4095 c) in take (length c + 1) (cmd_mem k) = c @ [0]"
    using b(4) bc by (cases cmdline) (auto simp: take_min_length Let_def min.commute)
  ultimately have "kernel_from kern (512 * (unat sects + 1)) (16 * unat syssize) ramdisk cmdline k"
    unfolding kernel_from_def using b(2,3) by (simp add: zp_handed_def)
  then show ?thesis using b(1) by blast
qed

lemma efi_main_local:
  fixes s :: "('f, 'a) osboot_scheme"
  assumes v: "volume efi img files" "files ''magenta.bin'' = Some kern"
    and h: "kernel_header kern sects syssize jump" "image_fits kern (of_nat (length kern)) sects syssize"
    and c: "can_boot efi img (syssize * 16)" and tab: "length (e820table s) = 128"
    and g: "LocateProtocol efi GraphicsOutputProtocol (fw s) = (0, gp, f)" "gp \<noteq> NULL"
  shows "\<exists>k s'. efi_main efi cmd img sys s = Some (Started (kimage k + 0x200) (zeropage k) k s') \<and>
    kernel_from kern (512 * (unat sects + 1)) (16 * unat syssize) (files ''ramdisk.bin'') (files ''cmdline'') k"
proof -
  define s0 where "s0 = printf ''Framebuffer base is at %lx\<newline>\<newline>'' [PInt (FrameBufferBase (GopMode efi f))]
    ((printf ''\<newline>OSBOOT v0.2\<newline>\<newline>'' [] (InitGoodies img sys s))\<lparr>fw := f, gop := gp\<rparr>)"
  have s0: "gImg s0 = img" "gop s0 = gp" "length (e820table s0) = 128"
    using tab by (simp_all add: s0_def InitGoodies_def printf_def)
  obtain kl s1 where l1: "LoadFile efi ''magenta.bin'' s0 = (kl, s1)" by (metis prod.collapse)
  obtain rl s2 where l2: "LoadFile efi ''ramdisk.bin'' s1 = (rl, s2)" by (metis prod.collapse)
  obtain cl s3 where l3: "LoadFile efi ''cmdline'' s2 = (cl, s3)" by (metis prod.collapse)
  have p1: "loads (Some kern) kl" "gImg s1 = img" "gop s1 = gp" "length (e820table s1) = 128"
    using LoadFile_volume [OF _ l1, of files] v s0 by auto
  have p2: "loads (files ''ramdisk.bin'') rl" "gImg s2 = img" "gop s2 = gp" "length (e820table s2) = 128"
    using LoadFile_volume [OF _ l2, of files] v p1 by auto
  have p3: "loads (files ''cmdline'') cl" "gop s3 = gp" "length (e820table s3) = 128"
    using LoadFile_volume [OF _ l3, of files] v p2 by auto
  obtain k s' where b: "boot_kernel efi img (blob_of kl) (blob_of rl) (blob_of cl) s3 =
        Some (Started (kimage k + 0x200) (zeropage k) k s')"
      "kernel_from kern (512 * (unat sects + 1)) (16 * unat syssize) (files ''ramdisk.bin'') (files ''cmdline'') k"
    using boot_kernel_files [OF p1(1) p2(1) p3(1) h c, of s3] p3(2,3) g(2) by blast
  have "fst kl \<noteq> NULL" using p1(1) by (auto simp: loads_def)
  then have "try_local_boot efi img s0 = Some (Started (kimage k + 0x200) (zeropage k) k s')"
    using l1 l2 l3 b(1) by (simp add: try_local_boot_def)
  moreover have "efi_main efi cmd img sys s = do { e \<leftarrow> try_local_boot efi img s0;
      case e of Returned r s \<Rightarrow> if r < 0 then boot_failure efi s else network_boot efi img cmd s | e \<Rightarrow> Some e }"
    using g by (simp add: efi_main_def s0_def Let_def InitGoodies_def printf_def)
  ultimately show ?thesis using b(2) by simp
qed

end
