(* ===== verification/Server.thy ===== *)
theory Server
  imports Osboot_Spec
begin

unbundle bit_operations_syntax

text \<open>
  The server loop of \<open>efi_main\<close> as a state machine: a step is one round that goes on. Starting
  the server establishes the invariant of driver, stack and files, every reachable state has it,
  no round of a reachable state gets stuck before a boot attempt, and the loop returns exactly
  the result of the boot attempt of some reachable state. The last section is about the whole
  program: it ends in a reported failure or in a kernel that runs without the firmware.
\<close>

section \<open>Starting the server\<close>

lemma alloc_file_ok:
  fixes s :: "('f, 'a) osboot_scheme"
  assumes c: "open_contract efi inflight" and al: "alloc_file efi i n s = (True, s')"
    and s: "pristine inflight s" and off: "nb_offset (nb_files s i) = 0" and n: "unat n + 1514 < 2 ^ 64"
  shows "pristine inflight s'" and "file_ok (nb_files s' i)"
    and "j \<noteq> i \<Longrightarrow> nb_files s' j = nb_files s j"
proof -
  obtain r mem f where a: "AllocatePages efi AllocateMaxAddress EfiLoaderData (n div 4096) 0xFFFFFFFF (fw s) = (r, mem, f)"
    by (metis prod_cases3)
  with al have s': "s' = nb_file_upd i ((nb_files s i)\<lparr>nb_addr := mem, nb_data := phys_bytes efi f mem (unat n),
      nb_size := n\<rparr>) (s\<lparr>fw := f\<rparr>)"
    by (auto simp: alloc_file_def Let_def split: if_splits)
  have "inflight f = inflight (fw s)" using open_contractD(10) [OF c a] .
  then show "pristine inflight s'"
    using s by (simp add: s' pristine_def nb_file_upd_def addrs_ok_def filters_ok_def)
  show "file_ok (nb_files s' i)" using off n by (simp add: s' nb_file_upd_def file_ok_def)
  show "nb_files s' j = nb_files s j" if "j \<noteq> i" using that by (simp add: s' nb_file_upd_def)
qed

lemma server_prepared:
  fixes s :: "('f, 'a) osboot_scheme"
  assumes c: "open_contract efi inflight"
    and s: "pristine inflight s" "\<forall>i. nb_offset (nb_files s i) = 0"
    and al: "alloc_file efi NbKernel KBUFSIZE s = (True, s1)" "alloc_file efi NbRamdisk RBUFSIZE s1 = (True, s2)"
  shows "pristine inflight (init_cmdline cmd s2)" and "files_ok (init_cmdline cmd s2)"
proof -
  note a1 = alloc_file_ok [OF c(1) al(1) s(1)]
  have p1: "pristine inflight s1" "file_ok (nb_files s1 NbKernel)" "\<And>j. j \<noteq> NbKernel \<Longrightarrow> nb_files s1 j = nb_files s j"
    using a1 s(2) by simp_all
  note a2 = alloc_file_ok [OF c(1) al(2) p1(1)]
  have p2: "pristine inflight s2" "file_ok (nb_files s2 NbRamdisk)" "\<And>j. j \<noteq> NbRamdisk \<Longrightarrow> nb_files s2 j = nb_files s1 j"
    using a2 p1(3) s(2) by simp_all
  let ?s = "init_cmdline cmd s2"
  have "file_ok (nb_files ?s NbCmdline)" "\<And>j. j \<noteq> NbCmdline \<Longrightarrow> nb_files ?s j = nb_files s2 j"
    using p1(3) p2(3) s(2) by (simp_all add: init_cmdline_def nb_file_upd_def file_ok_def)
  then show "files_ok ?s"
    using p1(2) p2(2,3) unfolding files_ok_def by (metis nbfile_id.exhaust nbfile_id.distinct(1,3,5))
  show "pristine inflight ?s"
    using p2(1) by (simp add: init_cmdline_def nb_file_upd_def pristine_def addrs_ok_def filters_ok_def)
qed

lemma server_ready:
  fixes s :: "('f, 'a) osboot_scheme"
  assumes c: "open_contract efi inflight" "tx_contract efi inflight"
    and s: "pristine inflight s" "\<forall>i. nb_offset (nb_files s i) = 0"
    and al: "alloc_file efi NbKernel KBUFSIZE s = (True, s1)" "alloc_file efi NbRamdisk RBUFSIZE s1 = (True, s2)"
  shows "\<exists>r s3. netboot_init efi (init_cmdline cmd s2) = Some (r, s3) \<and> (r = 0 \<or> r = -1) \<and>
    (r = 0 \<longrightarrow> (\<exists>A. nb_good efi inflight A s3))"
proof -
  let ?s = "init_cmdline cmd s2"
  note pr = server_prepared [OF c(1) s al, of cmd]
  obtain r s' where o': "netifc_open efi ?s = Some (r, s')" "r = 0 \<longrightarrow> opened efi inflight s'"
      "inet6.more s' = inet6.more ?s"
    using netifc_open_ok [OF c pr(1)] by blast
  show ?thesis
  proof (cases "r = 0")
    case True
    then have "netboot_init efi ?s = Some (0, s')" using o'(1) by (simp add: netboot_init_def)
    moreover have "\<exists>A. nb_good efi inflight A s'"
      using True o' pr(2) files_ok_more [of s' ?s] by (auto simp: nb_good_def opened_def)
    ultimately show ?thesis by blast
  next
    case False
    then show ?thesis using o'(1) by (simp add: netboot_init_def)
  qed
qed

section \<open>Rounds\<close>

inductive server_step :: "('f, 'x) boot_fw_scheme \<Rightarrow> u64 \<Rightarrow> ('f, 'a) osboot_scheme \<Rightarrow> ('f, 'a) osboot_scheme \<Rightarrow> bool"
  for efi img where
  round: "netboot_round efi img s = Some (Inl s') \<Longrightarrow> server_step efi img s s'"

inductive_cases server_stepE [elim!]: "server_step efi img s s'"

text \<open>A program that is run does not touch the interface's buffers.\<close>

definition image_contract :: "('f, 'x) boot_fw_scheme \<Rightarrow> ('f \<Rightarrow> u64 set) \<Rightarrow> bool" where
  "image_contract efi inflight \<longleftrightarrow>
     (\<forall>p d f r h f'. LoadImage efi p d f = (r, h, f') \<longrightarrow> inflight f' = inflight f) \<and>
     (\<forall>h f r f'. StartImage efi h f = (r, f') \<longrightarrow> inflight f' = inflight f)"

lemma run_binary_good:
  assumes c: "image_contract efi inflight" and s: "nb_good efi inflight A s"
  shows "nb_good efi inflight A (run_binary efi img s)"
proof -
  define s0 where "s0 = printf ''Attempting to run EFI binary...\<newline>'' [] s"
  let ?k = "nb_files s0 NbKernel"
  have s0: "nb_good efi inflight A s0" using s by (simp add: s0_def)
  obtain r h f where l: "LoadImage efi img (take (unat (nb_offset ?k)) (nb_data ?k)) (fw s0) = (r, h, f)"
    by (metis prod_cases3)
  obtain r2 f2 where t: "StartImage efi h f = (r2, f2)" by force
  have "inflight f = inflight (fw s0)" "inflight f2 = inflight (fw s0)"
    using c l t unfolding image_contract_def by metis+
  then have g: "nb_good efi inflight A (s0\<lparr>fw := f\<rparr>)" "nb_good efi inflight A (s0\<lparr>fw := f2\<rparr>)"
    using good_fw [OF s0] by auto
  show ?thesis unfolding run_binary_def Let_def s0_def [symmetric] using l t g by simp
qed

text \<open>The state in which a round attempts to boot a kernel: it was told to, and has one.\<close>

definition boot_attempt :: "('f, 'x) boot_fw_scheme \<Rightarrow> ('f, 'a) osboot_scheme \<Rightarrow> ('f, 'a) osboot_scheme \<Rightarrow> bool" where
  "boot_attempt efi s s1 \<longleftrightarrow> netboot_poll efi s = Some (1, s1) \<and> \<not> nb_offset (nb_files s1 NbKernel) < 32768 \<and>
     is_efi_binary (nb_data (nb_files s1 NbKernel)) = Some False"

lemma is_efi_binary_defined: "0x82 \<le> length x \<Longrightarrow> \<exists>b. is_efi_binary x = Some b"
  by (auto simp: is_efi_binary_def rd8_def)

lemma round_good:
  fixes s :: "('f, 'a) osboot_scheme"
  assumes good: "nb_good efi inflight A s" and rx: "rx_contract efi" and im: "image_contract efi inflight"
  shows "(\<exists>s'. netboot_round efi img s = Some (Inl s') \<and> nb_good efi inflight A s') \<or>
    (\<exists>s1. boot_attempt efi s s1 \<and> nb_good efi inflight A s1)"
proof -
  obtain r s1 where p: "netboot_poll efi s = Some (r, s1)" "r \<in> {0, 1}" "nb_good efi inflight A s1"
    using netboot_poll_good [OF good rx] by blast
  let ?k = "nb_files s1 NbKernel"
  show ?thesis
  proof (cases "r < 1 \<or> nb_offset ?k < 32768")
    case True
    then show ?thesis using p by (auto simp: netboot_round_def)
  next
    case False
    have "file_ok ?k" using p(3) by (simp add: nb_good_def files_ok_def)
    then have "0x82 \<le> length (nb_data ?k)"
      using False by (auto simp: file_ok_def word_le_nat_alt word_less_nat_alt not_less)
    then obtain b where b: "is_efi_binary (nb_data ?k) = Some b" using is_efi_binary_defined by blast
    show ?thesis
    proof (cases b)
      case True
      then have "netboot_round efi img s = Some (Inl (run_binary efi img s1))"
        using p(1) False b by (simp add: netboot_round_def)
      then show ?thesis using run_binary_good [OF im p(3)] by blast
    next
      case False': False
      then show ?thesis using p False b by (auto simp: boot_attempt_def)
    qed
  qed
qed

text \<open>The invariant holds in every state the server reaches.\<close>

lemma reachable_good:
  assumes "(server_step efi img)\<^sup>*\<^sup>* s s'" and "nb_good efi inflight A s"
    and "rx_contract efi" and "image_contract efi inflight"
  shows "nb_good efi inflight A s'"
  using assms(1,2)
proof (induction rule: rtranclp_induct)
  case base
  then show ?case .
next
  case (step t u)
  have r: "netboot_round efi img t = Some (Inl u)" using step.hyps(2) by blast
  from round_good [OF step.IH [OF step.prems] assms(3,4), of img] show ?case
  proof
    assume "\<exists>s'. netboot_round efi img t = Some (Inl s') \<and> nb_good efi inflight A s'"
    with r show ?thesis by auto
  next
    assume "\<exists>s1. boot_attempt efi t s1 \<and> nb_good efi inflight A s1"
    with r show ?thesis by (auto simp: netboot_round_def boot_attempt_def split: bind_splits)
  qed
qed

section \<open>The loop\<close>

lemma loop_step: "server_step efi img s s' \<Longrightarrow> netboot_loop efi img s = netboot_loop efi img s'"
  by (erule server_stepE) (subst netboot_loop.simps, simp)

lemma loop_reaches:
  assumes "(server_step efi img)\<^sup>*\<^sup>* s s'" and "netboot_round efi img s' = Some (Inr e)"
  shows "netboot_loop efi img s = Some e"
  using assms(1)
proof (induction rule: converse_rtranclp_induct)
  case base
  show ?case using assms(2) by (subst netboot_loop.simps) simp
next
  case (step y z)
  then show ?case using loop_step by metis
qed

lemma loop_returns:
  fixes efi :: "('f, 'x) boot_fw_scheme" and s :: "('f, 'a) osboot_scheme"
  assumes "netboot_loop efi img s = Some e"
  shows "\<exists>s'. (server_step efi img)\<^sup>*\<^sup>* s s' \<and> netboot_round efi img s' = Some (Inr e)"
proof (rule netboot_loop.raw_induct [OF _ assms])
  fix loop and efi :: "('f, 'x) boot_fw_scheme" and img and s :: "('f, 'a) osboot_scheme" and e
  assume IH: "\<And>efi img s y. loop efi img s = Some y \<Longrightarrow>
      \<exists>s'. (server_step efi img)\<^sup>*\<^sup>* s s' \<and> netboot_round efi img s' = Some (Inr y)"
    and "do { r \<leftarrow> netboot_round efi img s; case r of Inl s \<Rightarrow> loop efi img s | Inr e \<Rightarrow> Some e } = Some e"
  then obtain r where r: "netboot_round efi img s = Some r" "(case r of Inl s \<Rightarrow> loop efi img s | Inr e \<Rightarrow> Some e) = Some e"
    by (auto simp: Option.bind_eq_Some_conv)
  show "\<exists>s'. (server_step efi img)\<^sup>*\<^sup>* s s' \<and> netboot_round efi img s' = Some (Inr e)"
  proof (cases r)
    case (Inl t)
    then obtain s' where "(server_step efi img)\<^sup>*\<^sup>* t s'" "netboot_round efi img s' = Some (Inr e)"
      using IH r(2) by fastforce
    moreover have "server_step efi img s t" using r(1) Inl by (simp add: server_step.round)
    ultimately show ?thesis by (meson converse_rtranclp_into_rtranclp)
  next
    case (Inr e')
    then show ?thesis using r by auto
  qed
qed

section \<open>The whole program\<close>

text \<open>How a boot attempt ends: it comes back, or a kernel is started after the firmware was left.\<close>

definition left_firmware :: "('f, 'x) boot_fw_scheme \<Rightarrow> u64 \<Rightarrow> ('f, 'a) osboot_scheme boot_end \<Rightarrow> bool" where
  "left_firmware efi img e \<longleftrightarrow>
     (\<exists>k s key f. e = start_kernel k s \<and> ExitBootServices efi img key f = (0, fw s))"

lemma exit_services_left:
  assumes "exit_services efi img n key s = Some (0, n', msg, s')"
  shows "\<exists>key f. ExitBootServices efi img key f = (0, fw s')"
  using assms by (auto simp: exit_services_def Let_def split: bind_splits prod.splits if_splits) (metis eq_fst_iff snd_eqD)+

lemma boot_kernel_ends:
  assumes "boot_kernel efi img kern ramdisk cmdline s = Some e"
  shows "(\<exists>s'. e = Returned (-1) s') \<or> left_firmware efi img e"
  using assms unfolding boot_kernel_def Let_def left_firmware_def
  by (auto split: bind_splits if_splits dest!: exit_services_left)

lemma netboot_loop_ends:
  fixes s :: "('f, 'a) osboot_scheme"
  assumes "netboot_loop efi img s = Some e"
  shows "(\<exists>s'. e = Returned (-1) s') \<or> left_firmware efi img e"
proof -
  obtain s' where "netboot_round efi img s' = Some (Inr e)" using loop_returns [OF assms] by blast
  then show ?thesis
    by (auto simp: netboot_round_def split: bind_splits if_splits dest!: boot_kernel_ends)
qed

definition gave_up :: "('f, 'x) boot_fw_scheme \<Rightarrow> ('f, 'a) osboot_scheme boot_end \<Rightarrow> bool" where
  "gave_up efi e \<longleftrightarrow> (\<exists>s s'. e = Returned 0 s' \<and> WaitAnyKey efi (printf ''\<newline>Boot Failure\<newline>'' [] s) = Some s')"

lemma boot_failure_ends: "boot_failure efi s = Some e \<Longrightarrow> gave_up efi e"
  by (auto simp: boot_failure_def gave_up_def split: bind_splits)

lemma network_boot_ends:
  assumes "network_boot efi img cmd s = Some e"
  shows "gave_up efi e \<or> left_firmware efi img e"
proof -
  obtain ok1 s1 where a: "alloc_file efi NbKernel KBUFSIZE s = (ok1, s1)" by force
  obtain ok2 s2 where b: "alloc_file efi NbRamdisk RBUFSIZE s1 = (ok2, s2)" by force
  have "gave_up efi e \<or> (\<exists>s3 e'. netboot_loop efi img s3 = Some e' \<and>
      (case e' of Returned r s \<Rightarrow> boot_failure efi s | e \<Rightarrow> Some e) = Some e)"
    using assms unfolding network_boot_def a b Let_def prod.case
    by (auto split: bind_splits if_splits dest: boot_failure_ends)
  then show ?thesis
  proof
    assume "\<exists>s3 e'. netboot_loop efi img s3 = Some e' \<and>
      (case e' of Returned r s \<Rightarrow> boot_failure efi s | e \<Rightarrow> Some e) = Some e"
    then obtain s3 e' where l: "netboot_loop efi img s3 = Some e'"
      "(case e' of Returned r s \<Rightarrow> boot_failure efi s | e \<Rightarrow> Some e) = Some e" by blast
    show ?thesis using netboot_loop_ends [OF l(1)] l(2) by (cases e') (auto dest: boot_failure_ends)
  qed simp
qed

lemma try_local_boot_ends:
  assumes "try_local_boot efi img s = Some e"
  shows "(\<exists>r s'. e = Returned r s') \<or> left_firmware efi img e"
  using assms unfolding try_local_boot_def Let_def
  by (auto split: bind_splits if_splits prod.splits boot_end.splits dest!: boot_kernel_ends)

text \<open>The loader never comes back with an unreported failure, and it starts no kernel before it
  has left the firmware.\<close>

lemma efi_main_ends:
  assumes "efi_main efi cmd img sys s = Some e"
  shows "gave_up efi e \<or> left_firmware efi img e"
proof -
  obtain s1 e1 where t: "try_local_boot efi img s1 = Some e1"
      "(case e1 of Returned r s \<Rightarrow> if r < 0 then boot_failure efi s else network_boot efi img cmd s | e \<Rightarrow> Some e) = Some e"
    using assms unfolding efi_main_def Let_def by (auto split: bind_splits if_splits prod.splits)
  then show ?thesis
    using try_local_boot_ends [OF t(1)]
    by (cases e1) (auto split: if_splits dest: boot_failure_ends network_boot_ends)
qed

end
