(* ===== verification/Showmem.thy ===== *)
theory Showmem
  imports Memmap Goodies Printf_Spec
begin

unbundle bit_operations_syntax

text \<open>
  \<^verbatim>\<open>src/showmem.c\<close>, the program that shows the firmware's memory map: one line for every
  descriptor, in order, with the type's name. A type without a name is shown by number, printed
  into a scratch buffer.
\<close>

section \<open>The code\<close>

text \<open>The string returned, and the buffer after the call; the string is the buffer or a literal.\<close>

definition MemTypeName :: "u32 \<Rightarrow> bytes \<Rightarrow> (bytes \<times> bytes) option" where
  "MemTypeName type buf =
     (let lit = (\<lambda>n. Some (asc n @ [0], buf)) in
      if type = 0 then lit ''Reserved''
      else if type = 1 then lit ''LoaderCode''
      else if type = 2 then lit ''LoaderData''
      else if type = 3 then lit ''BootSvcsCode''
      else if type = 4 then lit ''BootSvcsData''
      else if type = 5 then lit ''RunTimeCode''
      else if type = 6 then lit ''RunTimeData''
      else if type = 7 then lit ''Conventional''
      else if type = 8 then lit ''Unusable''
      else if type = 9 then lit ''ACPIReclaim''
      else if type = 10 then lit ''ACPINonVolMem''
      else if type = 11 then lit ''MemMappedIO''
      else if type = 12 then lit ''MemMappedPort''
      else if type = 13 then lit ''PalCode''
      else do { (_, buf, _) \<leftarrow> sprintf buf 0 ''0x%08x'' [PInt (ucast type)]; Some (buf, buf) })"

text \<open>The loop over the descriptors in \<open>scratch\<close>; \<open>tmp\<close> is the buffer for a type's number.\<close>

partial_function (option) dump_loop :: "bytes \<Rightarrow> u64 \<Rightarrow> u64 \<Rightarrow> u64 \<Rightarrow> bytes \<Rightarrow>
    ('f, 'a) machine_scheme \<Rightarrow> ('f, 'a) machine_scheme option" where
  "dump_loop scratch msize dsize off tmp s =
     (if off < msize then do {
        t \<leftarrow> rd32 (unat off) scratch;
        start \<leftarrow> rd64 (unat off + 8) scratch;
        virt \<leftarrow> rd64 (unat off + 16) scratch;
        pages \<leftarrow> rd64 (unat off + 24) scratch;
        attr \<leftarrow> rd64 (unat off + 32) scratch;
        (name, tmp) \<leftarrow> MemTypeName t tmp;
        dump_loop scratch msize dsize (off + dsize) tmp
          (printf ''%016lx %016lx %08lx %c %04lx %s\<newline>''
             [PInt start, PInt virt, PInt pages,
              PInt (if attr AND 0x8000000000000000 \<noteq> 0 then of_char CHR ''R'' else of_char CHR ''-''),
              PInt (attr AND 0xFFFF), PStr (Some name)] s) }
      else Some s)"

definition dump_memmap :: "('f, 'x) boot_fw_scheme \<Rightarrow> bytes \<Rightarrow> ('f, 'a) machine_scheme \<Rightarrow>
    ('f, 'a) machine_scheme option" where
  "dump_memmap efi tmp s =
     (let (r, msize, c, mkey, dsize, dversion, f) = GetMemoryMap efi 4096 (fw s);
          s = printf ''r=%lx msz=%lx key=%lx dsz=%lx dvn=%x\<newline>''
                [PInt r, PInt msize, PInt mkey, PInt dsize, PInt (ucast dversion)] (s\<lparr>fw := f\<rparr>)
      in if r \<noteq> EFI_SUCCESS then Some s
      else dump_loop (map c [0..<4096]) msize dsize 0 tmp s)"

text \<open>The program; \<open>tmp\<close> is the array of that name on the stack, with any contents.\<close>

definition showmem_main :: "('f, 'x) boot_fw_scheme \<Rightarrow> u64 \<Rightarrow> u64 \<Rightarrow> bytes \<Rightarrow> ('f, 'a) machine_scheme \<Rightarrow>
    (efi_status \<times> ('f, 'a) machine_scheme) option" where
  "showmem_main efi img sys tmp s =
     do { s \<leftarrow> dump_memmap efi tmp (InitGoodies img sys s);
          s \<leftarrow> WaitAnyKey efi s;
          Some (EFI_SUCCESS, s) }"

section \<open>The name of a type\<close>

text \<open>A number in hexadecimal, at least eight digits.\<close>

definition hex8 :: "u32 \<Rightarrow> bytes" where
  "hex8 t = (let D = hex_digits hextable (unat t) in replicate (8 - length D) (chr8 CHR ''0'') @ D)"

definition type_name :: "u32 \<Rightarrow> bytes" where
  "type_name t =
     (let names = [''Reserved'', ''LoaderCode'', ''LoaderData'', ''BootSvcsCode'', ''BootSvcsData'',
        ''RunTimeCode'', ''RunTimeData'', ''Conventional'', ''Unusable'', ''ACPIReclaim'',
        ''ACPINonVolMem'', ''MemMappedIO'', ''MemMappedPort'', ''PalCode'']
      in if t \<le> 13 then asc (names ! unat t) else asc ''0x'' @ hex8 t)"

lemma length_hex8: "length (hex8 t) \<le> 16"
proof -
  have "unat (ucast t :: u64) = unat t" by (rule unat_ucast_up) simp
  then show ?thesis using hex_digits_u64 [of hextable "ucast t"] by (auto simp: hex8_def Let_def)
qed

lemma hex8_nonzero: "0 \<notin> set (hex8 t)"
  using hex_digits_nonzero [of "unat t"] by (auto simp: hex8_def Let_def)

lemma format_hex8:
  "\<exists>n p. format (asc ''0x%08x'' @ [0]) [PInt (ucast t)] = Some (n, p) \<and> ps_out p = asc ''0x'' @ hex8 t"
proof -
  have "ucast (ucast (ucast t :: u64) :: u32) = (ucast t :: u64)"
    by (rule bit_word_eqI) (auto simp: bit_simps dest: bit_imp_le_length)
  then have u: "unat (ucast (ucast (ucast t :: u64) :: u32) :: u64) = unat t" by (simp only:) (rule unat_ucast_up, simp)
  have c: "conv text_out 120 LEADZEROFLAG 8 p k =
      k (p\<lparr>ps_args := as, ps_out := ps_out p @ hex8 t, ps_written := ps_written p + of_nat (length (hex8 t))\<rparr>)"
    if "ps_args p = PInt (ucast t) # as" for p as k
    using conv_hexadecimal [OF that, of LEADZEROFLAG _ _ 8]
    by (simp add: has_def arg_unsigned_def u c_field_def hex8_def Let_def)
  show ?thesis
    by (simp add: format_def printf_engine_def engine.simps text_out_step modifier_def c engine_exit_def)
qed

lemma takeWhile_cstring: "0 \<notin> set x \<Longrightarrow> takeWhile (\<lambda>c. c \<noteq> 0) (x @ 0 # r) = (x :: bytes)"
  by (induction x) auto

lemma MemTypeName_eq:
  assumes "19 \<le> length buf"
  shows "\<exists>name buf'. MemTypeName t buf = Some (name, buf') \<and>
    takeWhile (\<lambda>c. c \<noteq> 0) name = type_name t \<and> length buf' = length buf"
proof (cases "t \<le> 13")
  case True
  then have "unat t \<le> 13" by (simp add: word_le_nat_alt)
  then have "unat t = 0 \<or> unat t = 1 \<or> unat t = 2 \<or> unat t = 3 \<or> unat t = 4 \<or> unat t = 5 \<or> unat t = 6 \<or>
      unat t = 7 \<or> unat t = 8 \<or> unat t = 9 \<or> unat t = 10 \<or> unat t = 11 \<or> unat t = 12 \<or> unat t = 13" by presburger
  then have "t \<in> {0,1,2,3,4,5,6,7,8,9,10,11,12,13}"
    by (auto simp: word_unat_eq_iff)
  then show ?thesis by (elim insertE) (simp_all add: MemTypeName_def type_name_def)
next
  case False
  then have n: "t \<notin> {0,1,2,3,4,5,6,7,8,9,10,11,12,13}" by auto
  let ?x = "asc ''0x'' @ hex8 t"
  obtain m p where f: "format (asc ''0x%08x'' @ [0]) [PInt (ucast t)] = Some (m, p)" "?x = ps_out p"
    using format_hex8 by metis
  have "sprintf buf 0 ''0x%08x'' [PInt (ucast t)] = Some (int (length ?x), take 0 buf @ ?x @ 0 # drop (0 + length ?x + 1) buf, ps_stores p)"
    using length_hex8 [of t] assms by (intro sprintf_eq [OF f]) simp_all
  then show ?thesis
    using n False assms length_hex8 [of t] takeWhile_cstring [of ?x] hex8_nonzero
    by (simp add: MemTypeName_def type_name_def Let_def)
qed

section \<open>The lines\<close>

text \<open>A descriptor: type, physical and virtual start, number of pages, attributes.\<close>

type_synonym mrec = "u32 \<times> u64 \<times> u64 \<times> u64 \<times> u64"

definition recs_at :: "bytes \<Rightarrow> nat \<Rightarrow> nat \<Rightarrow> mrec list \<Rightarrow> bool" where
  "recs_at d off dsize ds \<longleftrightarrow> (\<forall>i<length ds. case ds ! i of (t, start, virt, pages, attr) \<Rightarrow>
     rd32 (off + i * dsize) d = Some t \<and> rd64 (off + i * dsize + 8) d = Some start \<and>
     rd64 (off + i * dsize + 16) d = Some virt \<and> rd64 (off + i * dsize + 24) d = Some pages \<and>
     rd64 (off + i * dsize + 32) d = Some attr)"

lemma recs_at_Cons:
  "recs_at d off dsize ((t, start, virt, pages, attr) # ds) \<longleftrightarrow>
     rd32 off d = Some t \<and> rd64 (off + 8) d = Some start \<and> rd64 (off + 16) d = Some virt \<and>
     rd64 (off + 24) d = Some pages \<and> rd64 (off + 32) d = Some attr \<and> recs_at d (off + dsize) dsize ds"
  unfolding recs_at_def by (auto simp: less_Suc_eq_0_disj ac_simps)

text \<open>A call as it is shown: of a string, what is before its terminator.\<close>

fun shown_arg :: "parg \<Rightarrow> parg" where
  "shown_arg (PStr (Some b)) = PStr (Some (takeWhile (\<lambda>c. c \<noteq> 0) b))"
| "shown_arg a = a"

definition shown :: "pcall \<Rightarrow> pcall" where
  "shown c = (fst c, map shown_arg (snd c))"

fun mem_line :: "mrec \<Rightarrow> pcall" where
  "mem_line (t, start, virt, pages, attr) =
     (''%016lx %016lx %08lx %c %04lx %s\<newline>'',
      [PInt start, PInt virt, PInt pages, PInt (if bit attr 63 then of_char CHR ''R'' else of_char CHR ''-''),
       PInt (attr AND 0xFFFF), PStr (Some (type_name t))])"

lemma runtime_bit: "(attr AND 0x8000000000000000 \<noteq> 0) = bit (attr :: u64) 63"
  using and_exp_eq_0_iff_not_bit [of attr 63] by simp

lemma dump_loop_eq:
  assumes "recs_at d (unat off) (unat dsize) ds" and "unat off + length ds * unat dsize = unat msize"
    and "dsize \<noteq> 0" and "19 \<le> length tmp"
  shows "\<exists>con. dump_loop d msize dsize off tmp s = Some (s\<lparr>console := console s @ con\<rparr>) \<and>
    map shown con = map mem_line ds"
  using assms
proof (induction ds arbitrary: off tmp s)
  case Nil
  then show ?case by (subst dump_loop.simps) (simp add: word_less_nat_alt)
next
  case (Cons x ds)
  obtain t start virt pages attr where x: "x = (t, start, virt, pages, attr)" by (cases x)
  note r = Cons.prems(1) [unfolded x recs_at_Cons]
  obtain name tmp' where nm: "MemTypeName t tmp = Some (name, tmp')" "takeWhile (\<lambda>c. c \<noteq> 0) name = type_name t"
      "length tmp' = length tmp"
    using MemTypeName_eq [OF Cons.prems(4)] by blast
  let ?c = "(''%016lx %016lx %08lx %c %04lx %s\<newline>'',
      [PInt start, PInt virt, PInt pages, PInt (if attr AND 0x8000000000000000 \<noteq> 0 then of_char CHR ''R'' else of_char CHR ''-''),
       PInt (attr AND 0xFFFF), PStr (Some name)])"
  let ?s = "s\<lparr>console := console s @ [?c]\<rparr>"
  have "unat dsize > 0" using Cons.prems(3) by (simp add: unat_gt_0)
  moreover have bnd: "unat off + unat dsize \<le> unat msize" using Cons.prems(2) by simp
  ultimately have lt: "off < msize" by (simp add: word_less_nat_alt)
  have u: "unat (off + dsize) = unat off + unat dsize"
    using bnd unat_bound [of msize] by (simp add: unat_word_ariths)
  obtain con where con: "dump_loop d msize dsize (off + dsize) tmp' ?s = Some (?s\<lparr>console := console ?s @ con\<rparr>)"
      "map shown con = map mem_line ds"
    using Cons.IH [of "off + dsize" tmp' ?s] r Cons.prems(2-4) nm(3) u by auto
  have "dump_loop d msize dsize off tmp s = Some (s\<lparr>console := console s @ ?c # con\<rparr>)"
    using lt r nm(1) con(1) by (subst dump_loop.simps) (simp add: printf_def)
  moreover have "shown ?c = mem_line x" using nm(2) by (simp add: shown_def x runtime_bit)
  ultimately show ?case using con(2) by (intro exI [of _ "?c # con"]) simp
qed

lemma dump_memmap_eq:
  assumes m: "GetMemoryMap efi 4096 (fw s) = (0, msize, c, key, dsize, dv, f)"
    and r: "recs_at (map c [0..<4096]) 0 (unat dsize) ds" "length ds * unat dsize = unat msize" "dsize \<noteq> 0"
    and t: "19 \<le> length tmp"
  shows "\<exists>con. dump_memmap efi tmp s = Some (s\<lparr>fw := f, console := console s @
      (''r=%lx msz=%lx key=%lx dsz=%lx dvn=%x\<newline>'', [PInt 0, PInt msize, PInt key, PInt dsize, PInt (ucast dv)]) # con\<rparr>) \<and>
    map shown con = map mem_line ds"
proof -
  let ?h = "(''r=%lx msz=%lx key=%lx dsz=%lx dvn=%x\<newline>'', [PInt 0, PInt msize, PInt key, PInt dsize, PInt (ucast dv)])"
  let ?s = "s\<lparr>fw := f, console := console s @ [?h]\<rparr>"
  obtain con where "dump_loop (map c [0..<4096]) msize dsize 0 tmp ?s = Some (?s\<lparr>console := console ?s @ con\<rparr>)"
      "map shown con = map mem_line ds"
    using dump_loop_eq [of "map c [0..<4096]" 0 dsize ds msize tmp ?s] r t by auto
  then show ?thesis using m by (auto simp: dump_memmap_def Let_def printf_def)
qed

end
