(* ===== verification/Fileio.thy ===== *)
theory Fileio
  imports Goodies Printf
begin

unbundle bit_operations_syntax

text \<open>
  \<^verbatim>\<open>src/fileio.c\<close>, the program that shows where it was loaded from and prints the file
  \<^verbatim>\<open>README.txt\<close> of that volume, and \<open>HandleToString\<close> of \<^verbatim>\<open>lib/goodies.c\<close>,
  which only it calls. Device paths are gnu-efi's: their text is a field of the firmware record.
  The program closes what it opened, and it ends.
\<close>

section \<open>The code\<close>

record 'f path_fw = "'f boot_fw" +
  DevicePathFromHandle :: "u64 \<Rightarrow> 'f \<Rightarrow> u64"
  DevicePathToStr :: "u64 \<Rightarrow> 'f \<Rightarrow> bytes option \<times> 'f"
  FilePath :: "u64 \<Rightarrow> 'f \<Rightarrow> u64"
  ImageBase :: "u64 \<Rightarrow> 'f \<Rightarrow> u64"
  ImageSize :: "u64 \<Rightarrow> 'f \<Rightarrow> u64"

definition HandleToString :: "('f, 'x) path_fw_scheme \<Rightarrow> u64 \<Rightarrow> ('f, 'a) machine_scheme \<Rightarrow>
    bytes \<times> ('f, 'a) machine_scheme" where
  "HandleToString efi h s =
     (let path = DevicePathFromHandle efi h (fw s) in
      if path = NULL then (asc ''<NoPath>'' @ [0], s)
      else let (str, f) = DevicePathToStr efi path (fw s); s = s\<lparr>fw := f\<rparr> in
      (case str of None \<Rightarrow> (asc ''<NoString>'' @ [0], s) | Some b \<Rightarrow> (b, s)))"

text \<open>
  The program ends in \<open>Fatal\<close> (\<open>Inl\<close>), or returns (\<open>Inr\<close>). Where \<open>Fatal\<close> comes back after a
  pointer was not obtained, the pointer is used without a value, and the behaviour is undefined.
\<close>

type_synonym ('f, 'a) run = "(('f, 'a) machine_scheme + efi_status \<times> ('f, 'a) machine_scheme) option"

definition need :: "('f, 'x) path_fw_scheme \<Rightarrow> string \<Rightarrow> efi_status \<Rightarrow> ('f, 'a) machine_scheme \<Rightarrow>
    (('f, 'a) machine_scheme \<Rightarrow> ('f, 'a) run) \<Rightarrow> ('f, 'a) run" where
  "need efi msg r s k =
     (if r \<noteq> 0 then do {
        x \<leftarrow> Fatal efi (asc msg @ [0]) r s;
        (case x of Inl s \<Rightarrow> Some (Inl s) | Inr _ \<Rightarrow> None) }
      else k s)"

text \<open>The same where the program goes on with what it has.\<close>

definition want :: "('f, 'x) path_fw_scheme \<Rightarrow> string \<Rightarrow> efi_status \<Rightarrow> ('f, 'a) machine_scheme \<Rightarrow>
    (('f, 'a) machine_scheme \<Rightarrow> ('f, 'a) run) \<Rightarrow> ('f, 'a) run" where
  "want efi msg r s k =
     (if r \<noteq> 0 then do {
        x \<leftarrow> Fatal efi (asc msg @ [0]) r s;
        (case x of Inl s \<Rightarrow> Some (Inl s) | Inr s \<Rightarrow> k s) }
      else k s)"

text \<open>\<open>while (sz-- > 0) Print(L"%c", (CHAR16)*x++)\<close>, over the characters of the buffer.\<close>

fun print_chars :: "bytes \<Rightarrow> ('f, 'a) machine_scheme \<Rightarrow> ('f, 'a) machine_scheme" where
  "print_chars [] s = s"
| "print_chars (c # cs) s = print_chars cs (printf ''%c'' [PInt (ucast (scast c :: u16))] s)"

text \<open>The branch in which the file was opened, up to its close.\<close>

definition show_file :: "('f, 'x) path_fw_scheme \<Rightarrow> u64 \<Rightarrow> ('f, 'a) machine_scheme \<Rightarrow>
    (('f, 'a) machine_scheme \<Rightarrow> ('f, 'a) run) \<Rightarrow> ('f, 'a) run" where
  "show_file efi fileh s k =
     (let (r, buf, f) = GetInfo efi fileh FileInfoGUID 512 (fw s); s = s\<lparr>fw := f\<rparr> in
      want efi ''GetInfo'' r s (\<lambda>s.
        let s = printf ''FileSize %ld\<newline>'' [PInt (file_size buf)] s;
            (r, sz, buf, f) = Read efi fileh 511 (fw s); s = s\<lparr>fw := f\<rparr> in
        want efi ''Read'' r s (\<lambda>s.
          do { chars \<leftarrow> rdn 0 (unat sz) (map buf [0..<512]);
               let s = print_chars chars s;
               let (_, f) = Close efi fileh (fw s);
               k (s\<lparr>fw := f\<rparr>) })))"

definition fileio_main :: "('f, 'x) path_fw_scheme \<Rightarrow> u64 \<Rightarrow> u64 \<Rightarrow> ('f, 'a) machine_scheme \<Rightarrow> ('f, 'a) run" where
  "fileio_main efi img sys s =
     (let s = printf ''Hello, EFI World\<newline>'' [] (InitGoodies img sys s);
          (r, loaded, s) = OpenProtocol efi img LoadedImageProtocol s in
      need efi ''LoadedImageProtocol'' r s (\<lambda>s.
        let (str, s) = HandleToString efi (DeviceHandle efi loaded (fw s)) s;
            s = printf (''Img DeviceHandle='' @ [CHR 0x27] @ ''%s'' @ [CHR 0x27] @ ''\<newline>'') [PStr (Some str)] s;
            (str, f) = DevicePathToStr efi (FilePath efi loaded (fw s)) (fw s);
            s = printf (''Img FilePath='' @ [CHR 0x27] @ ''%s'' @ [CHR 0x27] @ ''\<newline>'') [PStr str] (s\<lparr>fw := f\<rparr>);
            s = printf ''Img Base=%lx Size=%lx\<newline>''
                  [PInt (ImageBase efi loaded (fw s)), PInt (ImageSize efi loaded (fw s))] s;
            (r, fioi, s) = OpenProtocol efi (DeviceHandle efi loaded (fw s)) SimpleFileSystemProtocol s in
        need efi ''SimpleFileSystemProtocol'' r s (\<lambda>s.
          let (r, root, f) = OpenVolume efi fioi (fw s); s = s\<lparr>fw := f\<rparr> in
          need efi ''OpenVolume'' r s (\<lambda>s.
            let (r, fileh, f) = FOpen efi root ''README.txt'' 1 0 (fw s); s = s\<lparr>fw := f\<rparr>;
                finish = (\<lambda>s.
                  let (_, f) = Close efi root (fw s);
                      (_, s) = CloseProtocol efi (DeviceHandle efi loaded f) SimpleFileSystemProtocol (s\<lparr>fw := f\<rparr>);
                      (_, s) = CloseProtocol efi img LoadedImageProtocol s
                  in do { s \<leftarrow> WaitAnyKey efi s; Some (Inr (EFI_SUCCESS, s)) }) in
            if r = EFI_SUCCESS then show_file efi fileh s finish else finish s))))"

section \<open>Everything is closed again\<close>

text \<open>What is open, files and protocols. Showing a path, a key and a failed \<open>Exit\<close> leave it alone.\<close>

definition opens :: "('f \<Rightarrow> handed_out) \<Rightarrow> ('f, 'a) machine_scheme \<Rightarrow> u64 multiset \<times> (u64 \<times> bytes) multiset" where
  "opens acct s = (handles (acct (fw s)), protos (acct (fw s)))"

definition path_contract :: "('f, 'x) path_fw_scheme \<Rightarrow> ('f \<Rightarrow> handed_out) \<Rightarrow> bool" where
  "path_contract efi acct \<longleftrightarrow> fs_contract efi acct \<and>
     (\<forall>p f. handles (acct (snd (DevicePathToStr efi p f))) = handles (acct f) \<and>
            protos (acct (snd (DevicePathToStr efi p f))) = protos (acct f)) \<and>
     (\<forall>f. acct (snd (ReadKeyStroke efi f)) = acct f) \<and>
     (\<forall>h r f. acct (snd (Exit efi h r f)) = acct f)"

lemma Fatal_opens:
  assumes "path_contract efi acct" and "Fatal efi msg r s = Some (Inr s')"
  shows "opens acct s' = opens acct s"
proof -
  let ?s = "printf ''\<newline>ERROR: %s (%ld)\<newline>'' [PStr (Some msg), PInt r] s"
  from assms(2) obtain s1 where s1: "WaitAnyKey efi ?s = Some s1" "fw s' = snd (Exit efi (gImg s1) 1 (fw s1))"
    by (auto simp: Fatal_def Let_def split: bind_split_asm prod.split_asm if_split_asm)
  have "acct (fw s1) = acct (fw ?s)" using assms(1) by (intro WaitAnyKey_frame [OF _ s1(1)]) (simp add: path_contract_def)
  then show ?thesis using s1(2) assms(1) by (simp add: opens_def path_contract_def printf_frame)
qed

lemma want_opens:
  assumes "path_contract efi acct" and "want efi msg r s k = Some (Inr x)"
  shows "\<exists>s1. k s1 = Some (Inr x) \<and> opens acct s1 = opens acct s"
  using assms Fatal_opens [OF assms(1), of "asc msg @ [0]" r s]
  by (auto simp: want_def split: bind_split_asm if_split_asm sum.split_asm)

lemma need_runs: "need efi msg r s k = Some (Inr x) \<Longrightarrow> r = 0 \<and> k s = Some (Inr x)"
  by (auto simp: need_def split: bind_split_asm if_split_asm sum.split_asm)

lemma print_chars_fw [simp]: "fw (print_chars cs s) = fw s"
  by (induction cs arbitrary: s) (simp_all add: printf_frame)

lemma show_file_opens:
  assumes c: "path_contract efi acct" and r: "show_file efi h s k = Some (Inr x)"
  shows "\<exists>s1. k s1 = Some (Inr x) \<and> opens acct s1 = (fst (opens acct s) - {#h#}, snd (opens acct s))"
proof -
  have fs: "fs_contract efi acct" using c by (simp add: path_contract_def)
  obtain r1 b1 f1 where a: "GetInfo efi h FileInfoGUID 512 (fw s) = (r1, b1, f1)" by (metis prod_cases3)
  from r a want_opens [OF c] obtain s1 where s1: "opens acct s1 = opens acct (s\<lparr>fw := f1\<rparr>)"
      "(let s = printf ''FileSize %ld\<newline>'' [PInt (file_size b1)] s1;
            (r, sz, buf, f) = Read efi h 511 (fw s); s = s\<lparr>fw := f\<rparr> in
        want efi ''Read'' r s (\<lambda>s.
          do { chars \<leftarrow> rdn 0 (unat sz) (map buf [0..<512]);
               let s = print_chars chars s;
               let (_, f) = Close efi h (fw s);
               k (s\<lparr>fw := f\<rparr>) })) = Some (Inr x)"
    by (fastforce simp: show_file_def)
  obtain r2 sz b2 f2 where b: "Read efi h 511 (fw s1) = (r2, sz, b2, f2)" by (metis prod_cases4)
  from s1(2) b want_opens [OF c] obtain s2 where s2:
      "opens acct s2 = opens acct ((printf ''FileSize %ld\<newline>'' [PInt (file_size b1)] s1)\<lparr>fw := f2\<rparr>)"
      "do { chars \<leftarrow> rdn 0 (unat sz) (map b2 [0..<512]);
            let s = print_chars chars s2;
            let (_, f) = Close efi h (fw s);
            k (s\<lparr>fw := f\<rparr>) } = Some (Inr x)"
    by (fastforce simp: printf_frame)
  obtain r3 f3 where e: "Close efi h (fw s2) = (r3, f3)" by force
  from s2(2) e obtain chars where "k ((print_chars chars s2)\<lparr>fw := f3\<rparr>) = Some (Inr x)"
    by (auto simp: Option.bind_eq_Some_conv Let_def)
  moreover have "acct f1 = acct (fw s)" "acct f2 = acct (fw s1)" "acct f3 = (acct (fw s2))\<lparr>handles := handles (acct (fw s2)) - {#h#}\<rparr>"
    using fs_contractD(7) [OF fs a] fs_contractD(8) [OF fs b] fs_contractD(6) [OF fs e] by simp_all
  ultimately show ?thesis using s1(1) s2(1) by (auto simp: opens_def)
qed

text \<open>The end of the program.\<close>

lemma finish_opens:
  assumes c: "path_contract efi acct"
    and r: "(let (_, f) = Close efi root (fw s);
        (_, s) = CloseProtocol efi (DeviceHandle efi loaded f) SimpleFileSystemProtocol (s\<lparr>fw := f\<rparr>);
        (_, s) = CloseProtocol efi img LoadedImageProtocol s
      in do { s \<leftarrow> WaitAnyKey efi s; Some (Inr (EFI_SUCCESS, s)) }) = Some (Inr (st, s'))"
  shows "opens acct s' = (fst (opens acct s) - {#root#},
    snd (opens acct s) - {#(DeviceHandle efi loaded (fw s), SimpleFileSystemProtocol)#} - {#(img, LoadedImageProtocol)#})"
    and "st = EFI_SUCCESS"
proof -
  have fs: "fs_contract efi acct" using c by (simp add: path_contract_def)
  obtain r1 f1 where a: "Close efi root (fw s) = (r1, f1)" by force
  have dv: "DeviceHandle efi loaded f1 = DeviceHandle efi loaded (fw s)" by (rule fs_contractD(1) [OF fs])
  obtain r2 f2 where b: "BS_CloseProtocol efi (DeviceHandle efi loaded (fw s)) SimpleFileSystemProtocol (gImg s) NULL f1 = (r2, f2)"
    by force
  obtain r3 f3 where e: "BS_CloseProtocol efi img LoadedImageProtocol (gImg s) NULL f2 = (r3, f3)" by force
  from r a b e obtain w: "WaitAnyKey efi (s\<lparr>fw := f3\<rparr>) = Some s'" and st: "st = EFI_SUCCESS"
    by (auto simp: CloseProtocol_def dv Option.bind_eq_Some_conv)
  show "st = EFI_SUCCESS" by (rule st)
  have "acct (fw s') = acct f3" using WaitAnyKey_frame [OF _ w, of acct] c by (simp add: path_contract_def)
  then show "opens acct s' = (fst (opens acct s) - {#root#},
    snd (opens acct s) - {#(DeviceHandle efi loaded (fw s), SimpleFileSystemProtocol)#} - {#(img, LoadedImageProtocol)#})"
    using fs_contractD(6) [OF fs a] fs_contractD(3) [OF fs b] fs_contractD(3) [OF fs e] by (simp add: opens_def)
qed

lemma HandleToString_opens:
  assumes "path_contract efi acct" and "HandleToString efi h s = (str, s')"
  shows "opens acct s' = opens acct s"
proof -
  obtain x f where "DevicePathToStr efi (DevicePathFromHandle efi h (fw s)) (fw s) = (x, f)" by force
  moreover have "\<forall>p f. handles (acct (snd (DevicePathToStr efi p f))) = handles (acct f) \<and>
      protos (acct (snd (DevicePathToStr efi p f))) = protos (acct f)" using assms(1) by (simp add: path_contract_def)
  ultimately show ?thesis
    using assms(2) by (auto simp: HandleToString_def Let_def opens_def split: if_splits option.splits prod.splits) (metis snd_conv)+
qed

lemma OpenProtocol_opens:
  assumes "path_contract efi acct" and "OpenProtocol efi h g s = (r, i, s')"
  shows "opens acct s' = (fst (opens acct s), if r = 0 then add_mset (h, g) (snd (opens acct s)) else snd (opens acct s))"
proof -
  have fs: "fs_contract efi acct" using assms(1) by (simp add: path_contract_def)
  obtain r1 i1 f1 where a: "BS_OpenProtocol efi h g (gImg s) NULL 1 (fw s) = (r1, i1, f1)" by (metis prod_cases3)
  show ?thesis using assms(2) a fs_contractD(2) [OF fs a] by (auto simp: OpenProtocol_def opens_def)
qed

lemma opens_printf [simp]: "opens acct (printf fmt args s) = opens acct s"
  by (simp add: opens_def printf_frame)

lemma fileio_main_opens:
  fixes s :: "('f, 'a) machine_scheme"
  assumes c: "path_contract efi acct" and r: "fileio_main efi img sys s = Some (Inr (st, s'))"
  shows "st = EFI_SUCCESS" and "opens acct s' = opens acct s"
proof -
  have fs: "fs_contract efi acct" using c by (simp add: path_contract_def)
  let ?L = "LoadedImageProtocol" and ?V = "SimpleFileSystemProtocol"
  define s0 where "s0 = printf ''Hello, EFI World\<newline>'' [] (InitGoodies img sys s)"
  obtain r1 loaded s1 where a: "OpenProtocol efi img ?L s0 = (r1, loaded, s1)" by (metis prod_cases3)
  define dev where "dev = DeviceHandle efi loaded (fw s1)"
  have dev: "DeviceHandle efi loaded f = dev" for f unfolding dev_def by (rule fs_contractD(1) [OF fs])
  obtain str s2 where b: "HandleToString efi dev s1 = (str, s2)" by force
  define s3 where "s3 = printf (''Img DeviceHandle='' @ [CHR 0x27] @ ''%s'' @ [CHR 0x27] @ ''\<newline>'') [PStr (Some str)] s2"
  obtain str2 f4 where d: "DevicePathToStr efi (FilePath efi loaded (fw s3)) (fw s3) = (str2, f4)" by force
  define s4 where "s4 = printf (''Img FilePath='' @ [CHR 0x27] @ ''%s'' @ [CHR 0x27] @ ''\<newline>'') [PStr str2] (s3\<lparr>fw := f4\<rparr>)"
  define s5 where "s5 = printf ''Img Base=%lx Size=%lx\<newline>''
      [PInt (ImageBase efi loaded (fw s4)), PInt (ImageSize efi loaded (fw s4))] s4"
  obtain r6 fioi s6 where e: "OpenProtocol efi dev ?V s5 = (r6, fioi, s6)" by (metis prod_cases3)
  obtain r7 root f7 where g: "OpenVolume efi fioi (fw s6) = (r7, root, f7)" by (metis prod_cases3)
  obtain r8 fileh f8 where h: "FOpen efi root ''README.txt'' 1 0 f7 = (r8, fileh, f8)" by (metis prod_cases3)
  define s8 where "s8 = s6\<lparr>fw := f7\<rparr>\<lparr>fw := f8\<rparr>"
  define finish where "finish = (\<lambda>s.
      let (_, f) = Close efi root (fw s);
          (_, s) = CloseProtocol efi (DeviceHandle efi loaded f) ?V (s\<lparr>fw := f\<rparr>);
          (_, s) = CloseProtocol efi img ?L s
      in do { s \<leftarrow> WaitAnyKey efi s; Some (Inr (EFI_SUCCESS, s)) :: ('f, 'a) run })"
  note r' = r [unfolded fileio_main_def Let_def s0_def [symmetric] a prod.case]
  note r1 = need_runs [OF r']
  note r2 = r1 [THEN conjunct2, unfolded dev b prod.case s3_def [symmetric] d s4_def [symmetric] s5_def [symmetric] e]
  note r3 = need_runs [OF r2]
  note r4 = r3 [THEN conjunct2, unfolded g prod.case]
  note r5 = need_runs [OF r4]
  have run: "(if r8 = 0 then show_file efi fileh s8 finish else finish s8) = Some (Inr (st, s'))"
    using r5 h unfolding s8_def finish_def Let_def by (cases "r8 = 0") (simp_all add: dev)
  have o1: "opens acct s1 = (fst (opens acct s), add_mset (img, ?L) (snd (opens acct s)))"
    using OpenProtocol_opens [OF c a] r1 by (simp add: s0_def) (simp add: opens_def InitGoodies_def)
  have "opens acct s2 = opens acct s1" by (rule HandleToString_opens [OF c b])
  moreover have "opens acct (s3\<lparr>fw := f4\<rparr>) = opens acct s3"
    using c d by (auto simp: path_contract_def opens_def) (metis snd_conv)+
  ultimately have "opens acct s5 = opens acct s1" by (simp add: s5_def s4_def s3_def)
  then have o6: "opens acct s6 = (fst (opens acct s), add_mset (dev, ?V) (add_mset (img, ?L) (snd (opens acct s))))"
    using OpenProtocol_opens [OF c e] r3 o1 by simp
  have o8: "opens acct s8 = ((if r8 = 0 then add_mset fileh else id) (add_mset root (fst (opens acct s))),
      add_mset (dev, ?V) (add_mset (img, ?L) (snd (opens acct s))))"
    using fs_contractD(4) [OF fs g] fs_contractD(5) [OF fs h] r5 o6 by (simp add: s8_def opens_def)
  obtain s9 where s9: "finish s9 = Some (Inr (st, s'))" "fst (opens acct s9) = add_mset root (fst (opens acct s))"
      "snd (opens acct s9) = add_mset (dev, ?V) (add_mset (img, ?L) (snd (opens acct s)))"
  proof (cases "r8 = 0")
    case True
    then show ?thesis using that run o8 show_file_opens [OF c, of fileh s8 finish] by fastforce
  next
    case False
    then show ?thesis using that run o8 by simp
  qed
  note fin = finish_opens [OF c s9(1) [unfolded finish_def]]
  show "st = EFI_SUCCESS" by (rule fin(2))
  show "opens acct s' = opens acct s" using fin(1) s9(2,3) by (simp add: dev)
qed

section \<open>The program ends\<close>

text \<open>A firmware under which the program cannot hang or leave its buffer: keys come, \<open>Exit\<close> does not come
  back, and \<open>Read\<close> stores no more than it was asked for.\<close>

definition path_ends :: "('f, 'x) path_fw_scheme \<Rightarrow> bool" where
  "path_ends efi \<longleftrightarrow> keys_come efi \<and> (\<forall>h r f. fst (Exit efi h r f)) \<and> (\<forall>h n f. fst (snd (Read efi h n f)) \<le> n)"

lemma Fatal_ends: "path_ends efi \<Longrightarrow> \<exists>s'. Fatal efi msg r s = Some (Inl s')"
  using WaitAnyKey_ends [of efi "printf ''\<newline>ERROR: %s (%ld)\<newline>'' [PStr (Some msg), PInt r] s"]
  by (auto simp: path_ends_def Fatal_def Let_def split: prod.split) (metis fst_conv)

lemma need_ends:
  assumes "path_ends efi" and "\<And>s. \<exists>x. k s = Some x"
  shows "\<exists>x. need efi msg r s k = Some x" and "\<exists>x. want efi msg r s k = Some x"
  using assms(2) Fatal_ends [OF assms(1), of "asc msg @ [0]" r s] by (auto simp: need_def want_def)

lemma if_ends: "\<exists>x. a = Some x \<Longrightarrow> \<exists>x. b = Some x \<Longrightarrow> \<exists>x. (if c then a else b) = Some x"
  by simp

lemma show_file_ends:
  assumes "path_ends efi" and "\<And>s. \<exists>x. k s = Some x"
  shows "\<exists>x. show_file efi h s k = Some x"
proof -
  have rd: "\<exists>x. (do { chars \<leftarrow> rdn 0 (unat n) (map b [0..<512]); let s = print_chars chars s; let (_, f) = Close efi h (fw s);
      k (s\<lparr>fw := f\<rparr>) }) = Some x" if "n \<le> 511" for n :: u64 and b s
    using that assms(2) by (simp add: rdn_def word_le_nat_alt Let_def split: prod.split)
  have n: "fst (snd (Read efi h 511 f)) \<le> 511" for f using assms(1) by (simp add: path_ends_def)
  show ?thesis
    unfolding show_file_def Let_def split_beta
    by (intro need_ends assms(1) rd [unfolded Let_def split_beta] n)
qed

lemma fileio_main_ends:
  fixes efi :: "('f, 'x) path_fw_scheme" and s :: "('f, 'a) machine_scheme"
  assumes "path_ends efi"
  shows "\<exists>x. fileio_main efi img sys s = Some x"
proof -
  have w: "\<exists>x. (do { s \<leftarrow> WaitAnyKey efi s; Some (Inr (EFI_SUCCESS, s)) }) = Some x" for s :: "('f, 'a) machine_scheme"
    using WaitAnyKey_ends [of efi s] assms by (auto simp: path_ends_def)
  show ?thesis
    unfolding fileio_main_def Let_def split_beta
    by (intro need_ends if_ends show_file_ends w assms)
qed

end
