(* ===== verification/Usbtest.thy ===== *)
theory Usbtest
  imports Goodies
begin

unbundle bit_operations_syntax

text \<open>
  \<^verbatim>\<open>src/usbtest.c\<close>: a driver binding for USB devices, which the program registers,
  connects to every USB device and removes again. The firmware calls the driver back while it
  connects and disconnects; it gets the driver as a record of functions over the program's state.
\<close>

section \<open>The code\<close>

record 's driver_binding =
  drv_Supported :: "u64 \<Rightarrow> 's \<Rightarrow> efi_status \<times> 's"
  drv_Start :: "u64 \<Rightarrow> 's \<Rightarrow> efi_status \<times> 's"
  drv_Stop :: "u64 \<Rightarrow> 's \<Rightarrow> efi_status \<times> 's"

text \<open>The services that only this program calls. \<open>LocateHandleBuffer\<close> returns the address of the
  list it allocates and its elements, \<open>UsbGetDeviceDescriptor\<close> the two fields that are read.\<close>

record ('f, 's) usb_fw = "'f boot_fw" +
  UsbGetDeviceDescriptor :: "u64 \<Rightarrow> 'f \<Rightarrow> efi_status \<times> u16 \<times> u16 \<times> 'f"
  InstallProtocolInterface :: "u64 \<Rightarrow> bytes \<Rightarrow> 'f \<Rightarrow> efi_status \<times> 'f"
  UninstallProtocolInterface :: "u64 \<Rightarrow> bytes \<Rightarrow> 'f \<Rightarrow> efi_status \<times> 'f"
  LocateHandleBuffer :: "bytes \<Rightarrow> 'f \<Rightarrow> efi_status \<times> u64 \<times> u64 list \<times> 'f"
  ConnectController :: "'s driver_binding \<Rightarrow> u64 \<Rightarrow> 's \<Rightarrow> efi_status \<times> 's"
  DisconnectController :: "'s driver_binding \<Rightarrow> u64 \<Rightarrow> u64 \<Rightarrow> 's \<Rightarrow> efi_status \<times> 's"

text \<open>The two handles of the static structure \<open>MyDriver\<close>.\<close>

record 'f usbtest = "'f machine" +
  ImageHandle :: u64
  DriverBindingHandle :: u64

abbreviation (input) EFI_UNSUPPORTED :: efi_status where "EFI_UNSUPPORTED \<equiv> 0x8000000000000003"
abbreviation (input) EFI_DEVICE_ERROR :: efi_status where "EFI_DEVICE_ERROR \<equiv> 0x8000000000000007"
abbreviation (input) EFI_OPEN_PROTOCOL_BY_DRIVER :: u32 where "EFI_OPEN_PROTOCOL_BY_DRIVER \<equiv> 0x10"

definition UsbIoProtocol :: bytes where
  "UsbIoProtocol = guid 0x2B2F68D6 0x0CD2 0x44CF [0x8E, 0x8B, 0xBB, 0xA2, 0x0B, 0x1B, 0x5B, 0x75]"

text \<open>Of gnu-efi's \<^verbatim>\<open>lib/data.c\<close>.\<close>

definition DriverBindingProtocol :: bytes where
  "DriverBindingProtocol = guid 0x18A031AB 0xB443 0x4D1A [0xA5, 0xC0, 0x0C, 0x09, 0x26, 0x1E, 0x9F, 0x71]"

definition MyDriverSupported :: "('f, 's, 'x) usb_fw_scheme \<Rightarrow> u64 \<Rightarrow> ('f, 'a) usbtest_scheme \<Rightarrow>
    efi_status \<times> ('f, 'a) usbtest_scheme" where
  "MyDriverSupported efi ctlr s =
     (let (r, usbio, f) = BS_OpenProtocol efi ctlr UsbIoProtocol (DriverBindingHandle s) ctlr
            EFI_OPEN_PROTOCOL_BY_DRIVER (fw s);
          s = s\<lparr>fw := f\<rparr>
      in if r = 0 then
        let (r, vid, pid, f) = UsbGetDeviceDescriptor efi usbio (fw s); s = s\<lparr>fw := f\<rparr>
        in if r \<noteq> 0 then (EFI_UNSUPPORTED, s)
        else let s = printf ''Supported? ctlr=%p vid=%04x pid=%04x\<newline>''
                   [PInt ctlr, PInt (ucast vid), PInt (ucast pid)] s;
                 (_, f) = BS_CloseProtocol efi ctlr UsbIoProtocol (DriverBindingHandle s) ctlr (fw s)
             in (EFI_SUCCESS, s\<lparr>fw := f\<rparr>)
      else (EFI_UNSUPPORTED, s))"

definition MyDriverStart :: "('f, 's, 'x) usb_fw_scheme \<Rightarrow> u64 \<Rightarrow> ('f, 'a) usbtest_scheme \<Rightarrow>
    efi_status \<times> ('f, 'a) usbtest_scheme" where
  "MyDriverStart efi ctlr s =
     (let s = printf ''Start! ctlr=%p\<newline>'' [PInt ctlr] s;
          (r, usbio, f) = BS_OpenProtocol efi ctlr UsbIoProtocol (DriverBindingHandle s) ctlr
            EFI_OPEN_PROTOCOL_BY_DRIVER (fw s);
          s = s\<lparr>fw := f\<rparr>
      in if r \<noteq> 0 then (EFI_DEVICE_ERROR, printf ''OpenProtocol Failed %lx\<newline>'' [PInt r] s)
      else (EFI_SUCCESS, s))"

definition MyDriverStop :: "('f, 's, 'x) usb_fw_scheme \<Rightarrow> u64 \<Rightarrow> ('f, 'a) usbtest_scheme \<Rightarrow>
    efi_status \<times> ('f, 'a) usbtest_scheme" where
  "MyDriverStop efi ctlr s =
     (let s = printf ''Stop! ctlr=%p\<newline>'' [PInt ctlr] s;
          (_, f) = BS_CloseProtocol efi ctlr UsbIoProtocol (DriverBindingHandle s) ctlr (fw s)
      in (EFI_SUCCESS, s\<lparr>fw := f\<rparr>))"

definition MyDriver :: "('f, 's, 'x) usb_fw_scheme \<Rightarrow> ('f, 'a) usbtest_scheme driver_binding" where
  "MyDriver efi = \<lparr>drv_Supported = MyDriverSupported efi, drv_Start = MyDriverStart efi,
     drv_Stop = MyDriverStop efi\<rparr>"

text \<open>The loops over the handles; their results are not looked at.\<close>

fun connect_all :: "('f, ('f, 'a) usbtest_scheme, 'x) usb_fw_scheme \<Rightarrow> u64 list \<Rightarrow>
    ('f, 'a) usbtest_scheme \<Rightarrow> ('f, 'a) usbtest_scheme" where
  "connect_all efi [] s = s"
| "connect_all efi (h # hs) s = connect_all efi hs (snd (ConnectController efi (MyDriver efi) h s))"

fun disconnect_all :: "('f, ('f, 'a) usbtest_scheme, 'x) usb_fw_scheme \<Rightarrow> u64 \<Rightarrow> u64 list \<Rightarrow>
    ('f, 'a) usbtest_scheme \<Rightarrow> ('f, 'a) usbtest_scheme" where
  "disconnect_all efi img [] s = s"
| "disconnect_all efi img (h # hs) s =
     disconnect_all efi img hs (snd (DisconnectController efi (MyDriver efi) h img s))"

text \<open>\<open>Print\<close> of gnu-efi is logged as \<open>printf\<close> is.\<close>

definition InstallMyDriver :: "('f, ('f, 'a) usbtest_scheme, 'x) usb_fw_scheme \<Rightarrow> u64 \<Rightarrow>
    ('f, 'a) usbtest_scheme \<Rightarrow> ('f, 'a) usbtest_scheme" where
  "InstallMyDriver efi img s =
     (let s = s\<lparr>ImageHandle := img, DriverBindingHandle := img\<rparr>;
          (r, f) = InstallProtocolInterface efi img DriverBindingProtocol (fw s);
          s = s\<lparr>fw := f\<rparr>
      in if r \<noteq> 0 then printf ''DriverBinding failed %lx\<newline>'' [PInt r] s
      else let (r, p, hs, f) = LocateHandleBuffer efi UsbIoProtocol (fw s); s = s\<lparr>fw := f\<rparr>
      in if r = 0 then
           let s = connect_all efi hs s; (_, f) = FreePool efi p (fw s) in s\<lparr>fw := f\<rparr>
      else s)"

definition RemoveMyDriver :: "('f, ('f, 'a) usbtest_scheme, 'x) usb_fw_scheme \<Rightarrow> u64 \<Rightarrow>
    ('f, 'a) usbtest_scheme \<Rightarrow> ('f, 'a) usbtest_scheme" where
  "RemoveMyDriver efi img s =
     (let (r, p, hs, f) = LocateHandleBuffer efi UsbIoProtocol (fw s); s = s\<lparr>fw := f\<rparr>;
          s = (if r = 0 then
                 let s = disconnect_all efi img hs s; (_, f) = FreePool efi p (fw s) in s\<lparr>fw := f\<rparr>
               else s);
          (r, f) = UninstallProtocolInterface efi img DriverBindingProtocol (fw s);
          s = s\<lparr>fw := f\<rparr>
      in if r \<noteq> 0 then printf ''UninstallProtocol failed %lx\<newline>'' [PInt r] s else s)"

definition usbtest_main :: "('f, ('f, 'a) usbtest_scheme, 'x) usb_fw_scheme \<Rightarrow> u64 \<Rightarrow> u64 \<Rightarrow>
    ('f, 'a) usbtest_scheme \<Rightarrow> (efi_status \<times> ('f, 'a) usbtest_scheme) option" where
  "usbtest_main efi img sys s =
     do { let s = printf ''Hello, EFI World\<newline>'' [] (InitGoodies img sys s);
          s \<leftarrow> WaitAnyKey efi (RemoveMyDriver efi img (InstallMyDriver efi img s));
          Some (EFI_SUCCESS, s) }"

section \<open>What the driver holds on to\<close>

text \<open>
  The firmware: which calls leave what is handed out alone, that a connect asks \<open>Supported\<close> and
  then calls \<open>Start\<close>, and that a disconnect calls \<open>Stop\<close> exactly on a controller whose USB
  protocol is open.
\<close>

definition usb_contract :: "('f, ('f, 'a) usbtest_scheme, 'x) usb_fw_scheme \<Rightarrow> ('f \<Rightarrow> handed_out) \<Rightarrow> u64 list \<Rightarrow> bool" where
  "usb_contract efi acct devs \<longleftrightarrow> fs_contract efi acct \<and>
     (\<forall>u f r v p f'. UsbGetDeviceDescriptor efi u f = (r, v, p, f') \<longrightarrow> acct f' = acct f) \<and>
     (\<forall>h g f r f'. InstallProtocolInterface efi h g f = (r, f') \<longrightarrow> acct f' = acct f) \<and>
     (\<forall>h g f r f'. UninstallProtocolInterface efi h g f = (r, f') \<longrightarrow> acct f' = acct f) \<and>
     (\<forall>g f r p hs f'. LocateHandleBuffer efi g f = (r, p, hs, f') \<longrightarrow>
        acct f' = (if r = 0 then (acct f)\<lparr>pool_mem := add_mset p (pool_mem (acct f))\<rparr> else acct f) \<and>
        (r = 0 \<longrightarrow> hs = devs) \<and> (r \<noteq> 0 \<longrightarrow> devs = [])) \<and>
     (\<forall>d h s. ConnectController efi d h s =
        (case drv_Supported d h s of (r, s1) \<Rightarrow> if r = 0 then drv_Start d h s1 else (r, s1))) \<and>
     (\<forall>d h img s. DisconnectController efi d h img s =
        (if (h, UsbIoProtocol) \<in># protos (acct (fw s)) then drv_Stop d h s else (0, s))) \<and>
     (\<forall>f. acct (snd (ReadKeyStroke efi f)) = acct f)"

lemma usb_contractD:
  assumes "usb_contract efi acct devs"
  shows "fs_contract efi acct"
    and "UsbGetDeviceDescriptor efi u f = (r, v, p, f') \<Longrightarrow> acct f' = acct f"
    and "InstallProtocolInterface efi h g f = (r, f') \<Longrightarrow> acct f' = acct f"
    and "UninstallProtocolInterface efi h g f = (r, f') \<Longrightarrow> acct f' = acct f"
    and "LocateHandleBuffer efi g f = (r, mem, hs, f') \<Longrightarrow>
      acct f' = (if r = 0 then (acct f)\<lparr>pool_mem := add_mset mem (pool_mem (acct f))\<rparr> else acct f) \<and>
      (r = 0 \<longrightarrow> hs = devs) \<and> (r \<noteq> 0 \<longrightarrow> devs = [])"
    and "ConnectController efi d h s =
      (case drv_Supported d h s of (r, s1) \<Rightarrow> if r = 0 then drv_Start d h s1 else (r, s1))"
    and "DisconnectController efi d h img s =
      (if (h, UsbIoProtocol) \<in># protos (acct (fw s)) then drv_Stop d h s else (0, s))"
    and "acct (snd (ReadKeyStroke efi f)) = acct f"
proof -
  note c = assms [unfolded usb_contract_def]
  show "fs_contract efi acct"
    by (rule c [THEN conjunct1])
  show "acct f' = acct f" if "UsbGetDeviceDescriptor efi u f = (r, v, p, f')"
    using that by (rule c [THEN conjunct2, THEN conjunct1, rule_format])
  show "acct f' = acct f" if "InstallProtocolInterface efi h g f = (r, f')"
    using that by (rule c [THEN conjunct2, THEN conjunct2, THEN conjunct1, rule_format])
  show "acct f' = acct f" if "UninstallProtocolInterface efi h g f = (r, f')"
    using that by (rule c [THEN conjunct2, THEN conjunct2, THEN conjunct2, THEN conjunct1, rule_format])
  show "acct f' = (if r = 0 then (acct f)\<lparr>pool_mem := add_mset mem (pool_mem (acct f))\<rparr> else acct f) \<and>
      (r = 0 \<longrightarrow> hs = devs) \<and> (r \<noteq> 0 \<longrightarrow> devs = [])" if "LocateHandleBuffer efi g f = (r, mem, hs, f')"
    using that by (rule c [THEN conjunct2, THEN conjunct2, THEN conjunct2, THEN conjunct2, THEN conjunct1, rule_format])
  show "ConnectController efi d h s =
      (case drv_Supported d h s of (r, s1) \<Rightarrow> if r = 0 then drv_Start d h s1 else (r, s1))"
    by (rule c [THEN conjunct2, THEN conjunct2, THEN conjunct2, THEN conjunct2, THEN conjunct2, THEN conjunct1, rule_format])
  show "DisconnectController efi d h img s =
      (if (h, UsbIoProtocol) \<in># protos (acct (fw s)) then drv_Stop d h s else (0, s))"
    by (rule c [THEN conjunct2, THEN conjunct2, THEN conjunct2, THEN conjunct2, THEN conjunct2, THEN conjunct2, THEN conjunct1, rule_format])
  show "acct (snd (ReadKeyStroke efi f)) = acct f"
    by (rule c [THEN conjunct2, THEN conjunct2, THEN conjunct2, THEN conjunct2, THEN conjunct2, THEN conjunct2, THEN conjunct2, rule_format])
qed

text \<open>\<open>Supported\<close> gives back what it opened, unless the device's descriptor cannot be read.\<close>

lemma Supported_acct:
  assumes c: "usb_contract efi acct devs" and s: "MyDriverSupported efi h s = (r, s')"
  shows "\<exists>kept. acct (fw s') = (acct (fw s))\<lparr>protos := protos (acct (fw s)) + (if kept then {#(h, UsbIoProtocol)#} else {#})\<rparr> \<and>
    (kept \<longrightarrow> r = EFI_UNSUPPORTED) \<and>
    (kept \<longleftrightarrow> (\<exists>u f. BS_OpenProtocol efi h UsbIoProtocol (DriverBindingHandle s) h EFI_OPEN_PROTOCOL_BY_DRIVER (fw s) = (0, u, f) \<and>
      fst (UsbGetDeviceDescriptor efi u f) \<noteq> 0))"
proof -
  let ?d = "DriverBindingHandle s"
  obtain r1 u f1 where a: "BS_OpenProtocol efi h UsbIoProtocol ?d h EFI_OPEN_PROTOCOL_BY_DRIVER (fw s) = (r1, u, f1)"
    by (metis prod_cases3)
  obtain r2 v p f2 where b: "UsbGetDeviceDescriptor efi u f1 = (r2, v, p, f2)" by (metis prod_cases4)
  obtain r3 f3 where e: "BS_CloseProtocol efi h UsbIoProtocol ?d h f2 = (r3, f3)" by force
  note fs = usb_contractD(1) [OF c]
  note d = fs_contractD(2) [OF fs a] usb_contractD(2) [OF c b] fs_contractD(3) [OF fs e]
  show ?thesis
    using s a b e d by (auto simp: MyDriverSupported_def Let_def printf_def split: if_splits)
qed

lemma Start_acct:
  assumes c: "usb_contract efi acct devs" and s: "MyDriverStart efi h s = (r, s')"
  shows "acct (fw s') = (acct (fw s))\<lparr>protos := protos (acct (fw s)) + (if r = 0 then {#(h, UsbIoProtocol)#} else {#})\<rparr>"
proof -
  let ?d = "DriverBindingHandle s"
  obtain r1 u f1 where a: "BS_OpenProtocol efi h UsbIoProtocol ?d h EFI_OPEN_PROTOCOL_BY_DRIVER (fw s) = (r1, u, f1)"
    by (metis prod_cases3)
  show ?thesis
    using s a fs_contractD(2) [OF usb_contractD(1) [OF c] a]
    by (auto simp: MyDriverStart_def Let_def printf_def split: if_splits)
qed

lemma Stop_acct:
  assumes c: "usb_contract efi acct devs" and s: "MyDriverStop efi h s = (r, s')"
  shows "acct (fw s') = (acct (fw s))\<lparr>protos := protos (acct (fw s)) - {#(h, UsbIoProtocol)#}\<rparr>"
proof -
  obtain r1 f1 where a: "BS_CloseProtocol efi h UsbIoProtocol (DriverBindingHandle s) h (fw s) = (r1, f1)" by force
  show ?thesis
    using s a fs_contractD(3) [OF usb_contractD(1) [OF c] a] by (auto simp: MyDriverStop_def Let_def printf_def)
qed

abbreviation (input) usb_open :: "u64 \<Rightarrow> u64 \<times> bytes" where "usb_open h \<equiv> (h, UsbIoProtocol)"

lemma connect_acct:
  assumes c: "usb_contract efi acct devs"
  shows "\<exists>b. acct (fw (snd (ConnectController efi (MyDriver efi) h s))) =
    (acct (fw s))\<lparr>protos := protos (acct (fw s)) + (if b then {#usb_open h#} else {#})\<rparr>"
proof -
  obtain r s1 where a: "MyDriverSupported efi h s = (r, s1)" by force
  obtain r2 s2 where b: "MyDriverStart efi h s1 = (r2, s2)" by force
  obtain kept where k: "acct (fw s1) = (acct (fw s))\<lparr>protos := protos (acct (fw s)) + (if kept then {#usb_open h#} else {#})\<rparr>"
      "kept \<longrightarrow> r = EFI_UNSUPPORTED"
    using Supported_acct [OF c a] by blast
  have e: "snd (ConnectController efi (MyDriver efi) h s) = (if r = 0 then s2 else s1)"
    using a b by (simp add: usb_contractD(6) [OF c] MyDriver_def)
  show ?thesis
  proof (cases "r = 0")
    case True
    then show ?thesis using Start_acct [OF c b] k e by (intro exI [of _ "r2 = 0"]) simp
  next
    case False
    then show ?thesis using k(1) e by (intro exI [of _ kept]) simp
  qed
qed

lemma connect_all_acct:
  assumes c: "usb_contract efi acct devs" and "distinct hs"
  shows "\<exists>P. acct (fw (connect_all efi hs s)) =
    (acct (fw s))\<lparr>protos := protos (acct (fw s)) + mset (map usb_open (filter P hs))\<rparr>"
  using assms(2)
proof (induction hs arbitrary: s)
  case Nil
  then show ?case by simp
next
  case (Cons h hs)
  let ?s = "snd (ConnectController efi (MyDriver efi) h s)"
  obtain b where b: "acct (fw ?s) = (acct (fw s))\<lparr>protos := protos (acct (fw s)) + (if b then {#usb_open h#} else {#})\<rparr>"
    using connect_acct [OF c] by blast
  obtain P where P: "acct (fw (connect_all efi hs ?s)) =
      (acct (fw ?s))\<lparr>protos := protos (acct (fw ?s)) + mset (map usb_open (filter P hs))\<rparr>"
    using Cons by fastforce
  have "filter (P(h := b)) hs = filter P hs" using Cons.prems by (intro filter_cong) auto
  moreover define Q where "Q = P(h := b)"
  ultimately have "filter Q (h # hs) = (if b then [h] else []) @ filter P hs" by (cases b) simp_all
  then show ?case using P b by (intro exI [of _ Q]) (cases b; simp del: filter.simps mset_filter)
qed

lemma disconnect_all_acct:
  assumes c: "usb_contract efi acct devs" and "distinct hs"
    and "protos (acct (fw s)) = base + mset (map usb_open (filter P hs))" and "\<forall>h\<in>set hs. usb_open h \<notin># base"
  shows "acct (fw (disconnect_all efi img hs s)) = (acct (fw s))\<lparr>protos := base\<rparr>"
  using assms(2-4)
proof (induction hs arbitrary: s)
  case Nil
  then show ?case by simp
next
  case (Cons h hs)
  let ?s = "snd (DisconnectController efi (MyDriver efi) h img s)"
  have "acct (fw ?s) = (acct (fw s))\<lparr>protos := base + mset (map usb_open (filter P hs))\<rparr>"
  proof (cases "P h")
    case True
    obtain r s1 where b: "MyDriverStop efi h s = (r, s1)" by force
    have "?s = s1" using True Cons.prems(2) b by (simp add: usb_contractD(7) [OF c] MyDriver_def)
    then show ?thesis using Stop_acct [OF c b] True Cons.prems(2) by simp
  next
    case False
    have "usb_open h \<notin># protos (acct (fw s))" using False Cons.prems by auto
    then show ?thesis using False Cons.prems(2) by (simp add: usb_contractD(7) [OF c])
  qed
  then show ?case using Cons by simp
qed

text \<open>Installing opens the USB protocol on some of the devices.\<close>

lemma InstallMyDriver_acct:
  assumes c: "usb_contract efi acct devs" and d: "distinct devs"
  shows "\<exists>P. acct (fw (InstallMyDriver efi img s)) = (acct (fw s))\<lparr>protos := protos (acct (fw s)) + mset (map usb_open (filter P devs))\<rparr>"
proof -
  note fs = usb_contractD(1) [OF c]
  let ?s = "s\<lparr>ImageHandle := img, DriverBindingHandle := img\<rparr>"
  obtain r1 f1 where a: "InstallProtocolInterface efi img DriverBindingProtocol (fw s) = (r1, f1)" by force
  obtain r2 p hs f2 where b: "LocateHandleBuffer efi UsbIoProtocol f1 = (r2, p, hs, f2)" by (metis prod_cases4)
  let ?s2 = "?s\<lparr>fw := f1\<rparr>\<lparr>fw := f2\<rparr>"
  let ?s3 = "connect_all efi hs ?s2"
  obtain r3 f3 where e: "FreePool efi p (fw ?s3) = (r3, f3)" by force
  note l = usb_contractD(3) [OF c a] usb_contractD(5) [OF c b] fs_contractD(10) [OF fs e]
  have none: "acct (fw s) = (acct (fw s))\<lparr>protos := protos (acct (fw s)) + mset (map usb_open (filter (\<lambda>h. False) devs))\<rparr>"
    by simp
  consider "r1 \<noteq> 0" | "r1 = 0" "r2 \<noteq> 0" | "r1 = 0" "r2 = 0" by blast
  then show ?thesis
  proof cases
    case 1
    then have "acct (fw (InstallMyDriver efi img s)) = acct (fw s)" using a l(1) by (simp add: InstallMyDriver_def printf_def)
    with none show ?thesis by metis
  next
    case 2
    then have "acct (fw (InstallMyDriver efi img s)) = acct (fw s)" using a b l(1,2) by (simp add: InstallMyDriver_def)
    with none show ?thesis by metis
  next
    case 3
    then obtain P where P: "acct (fw ?s3) = (acct (fw ?s2))\<lparr>protos := protos (acct (fw ?s2)) + mset (map usb_open (filter P devs))\<rparr>"
      using connect_all_acct [OF c d, of ?s2] l(2) by auto
    have "InstallMyDriver efi img s = ?s3\<lparr>fw := f3\<rparr>"
      using 3 a b e by (simp add: InstallMyDriver_def Let_def)
    then show ?thesis using 3 P l by (intro exI [of _ P]) (simp del: mset_filter)
  qed
qed

text \<open>Connecting and disconnecting balance, and the lists of handles are freed.\<close>

lemma install_remove_acct:
  assumes c: "usb_contract efi acct devs" and d: "distinct devs" and n: "\<forall>h\<in>set devs. usb_open h \<notin># protos (acct (fw s))"
  shows "acct (fw (RemoveMyDriver efi img (InstallMyDriver efi img s))) = acct (fw s)"
proof -
  note fs = usb_contractD(1) [OF c]
  define s1 where "s1 = InstallMyDriver efi img s"
  obtain P where P: "acct (fw s1) = (acct (fw s))\<lparr>protos := protos (acct (fw s)) + mset (map usb_open (filter P devs))\<rparr>"
    using InstallMyDriver_acct [OF c d, of img s] by (auto simp: s1_def)
  obtain r2 p hs f2 where b: "LocateHandleBuffer efi UsbIoProtocol (fw s1) = (r2, p, hs, f2)" by (metis prod_cases4)
  let ?s3 = "disconnect_all efi img hs (s1\<lparr>fw := f2\<rparr>)"
  obtain r3 f3 where e: "FreePool efi p (fw ?s3) = (r3, f3)" by force
  define s4 where "s4 = (if r2 = 0 then ?s3\<lparr>fw := f3\<rparr> else s1\<lparr>fw := f2\<rparr>)"
  obtain r5 f5 where g: "UninstallProtocolInterface efi img DriverBindingProtocol (fw s4) = (r5, f5)" by force
  note l = usb_contractD(5) [OF c b] fs_contractD(10) [OF fs e] usb_contractD(4) [OF c g]
  have f: "fw (RemoveMyDriver efi img s1) = f5"
    using b e g by (cases "r2 = 0") (simp_all add: RemoveMyDriver_def Let_def s4_def printf_def)
  show ?thesis
  proof (cases "r2 = 0")
    case True
    then have "protos (acct (fw (s1\<lparr>fw := f2\<rparr>))) = protos (acct (fw s)) + mset (map usb_open (filter P devs))" "hs = devs"
      using l(1) P by (simp_all del: mset_filter)
    from disconnect_all_acct [OF c d this(1) n, of img] this(2)
    have "acct (fw ?s3) = (acct f2)\<lparr>protos := protos (acct (fw s))\<rparr>" by simp
    then show ?thesis using True l P f by (simp add: s4_def s1_def del: mset_filter)
  next
    case False
    then show ?thesis using l P f by (simp add: s4_def s1_def)
  qed
qed

end
