(* ===== verification/Boot_Examples.thy ===== *)
theory Boot_Examples
  imports Examples Console Server Showmem Fileio Usbtest
begin

unbundle bit_operations_syntax

text \<open>
  Small firmwares for the boot loader and the other programs, and a kernel image, on which the
  theorems about them can be applied.
\<close>

section \<open>Firmwares\<close>

text \<open>A firmware whose network does nothing, over a state of any type.\<close>

definition null_net :: "'f net_fw" where
  "null_net = \<lparr>Transmit = (\<lambda>p d f. (1, f)), GetStatus = (\<lambda>f. (1, 0, 0, f)),
     Receive = (\<lambda>n f. (6, \<lambda>_. 0, 0, f)), Mode = (\<lambda>f. ex_mode), Start = (\<lambda>f. (1, f)),
     Initialize = (\<lambda>a b f. (1, f)), ReceiveFilters = (\<lambda>a b c n fs f. (1, f)), Shutdown = (\<lambda>f. (0, f)),
     Stop = (\<lambda>f. (0, f)), CreateEvent = (\<lambda>f. (1, 0, f)), SetTimer = (\<lambda>e k t f. (1, f)),
     CheckEvent = (\<lambda>e f. (1, f)), CloseEvent = (\<lambda>e f. (0, f)), LocateHandle = (\<lambda>n f. (1, \<lambda>i. 0, f)),
     OpenSNP = (\<lambda>h f. (1, 0, f)),
     AllocatePages = (\<lambda>k t n a f. (0, if k = AllocateAddress then a else 0x90000, f)),
     phys_byte = (\<lambda>f a. if a - 0x7000 < 8 then ACPI_RSD_PTR ! unat (a - 0x7000) else 0)\<rparr>"

text \<open>A memory map: two neighbouring ranges of RAM, and one that is reserved.\<close>

definition ex_desc :: "u32 \<Rightarrow> u64 \<Rightarrow> u64 \<Rightarrow> bytes" where
  "ex_desc t start n = to_le 4 t @ [0, 0, 0, 0] @ to_le 8 start @ to_le 8 (0 :: u64) @ to_le 8 n @
     to_le 8 (15 :: u64)"

definition ex_map :: bytes where
  "ex_map = ex_desc 7 0x100000 16 @ ex_desc 2 0x110000 16 @ ex_desc 0 0x200000 1"

definition ex_screen :: gop_info where
  "ex_screen = \<lparr>HorizontalResolution = 1024, VerticalResolution = 768, PixelFormat = 1, RedMask = 0, GreenMask = 0,
     BlueMask = 0, ReservedMask = 0, PixelsPerScanLine = 1024\<rparr>"

definition boot_of :: "'f net_fw \<Rightarrow> 'f boot_fw" where
  "boot_of net = net_fw.extend net (boot_fw.fields
     (\<lambda>b n f. (0, f))
     (\<lambda>n f. (0, 120, \<lambda>i. if i < 120 then ex_map ! i else 0, 77, 40, 1, f))
     (\<lambda>img key f. (if key = 77 then 0 else EFI_INVALID_PARAMETER, f))
     (\<lambda>t n f. (0, 0x5000, f))
     (\<lambda>a f. (0, f))
     (\<lambda>h g a c k f. (0, 0x6000, f))
     (\<lambda>h g a c f. (0, f))
     (\<lambda>g f. (0, 0x6100, f))
     (\<lambda>p d f. (0, 0x6200, f))
     (\<lambda>h f. (0, f))
     (\<lambda>h r f. (True, f))
     (\<lambda>f. (0, f))
     (\<lambda>f. [(Acpi2TableGUID, 0x7000)])
     (\<lambda>l f. 0x6300)
     (\<lambda>v f. (0, 1, f))
     (\<lambda>d n m a f. (0, 2, f))
     (\<lambda>h g n f. (0, \<lambda>i. if i = 8 then 5 else 0, f))
     (\<lambda>h n f. (0, n, \<lambda>i. 65, f))
     (\<lambda>h f. (0, f))
     (\<lambda>f. \<lparr>MaxMode = 1, FrameBufferBase = 0xE0000000, Info = ex_screen\<rparr>)
     (\<lambda>m f. (0, ex_screen, f)))"

lemmas boot_of_defs = boot_of_def net_fw.defs boot_fw.defs

definition ex_boot :: "'f boot_fw" where
  "ex_boot = boot_of null_net"

lemmas ex_boot_defs = ex_boot_def boot_of_defs null_net_def

lemma boot_of_net:
  "tx_contract (boot_of ex_fw) ex_inflight" "rx_contract (boot_of ex_fw)" "open_contract (boot_of ex_fw) ex_inflight"
  using ex_tx ex_rx ex_open
  by (simp_all add: tx_contract_def rx_contract_def open_contract_def boot_of_defs)

text \<open>Pages are handed out, but none at a fixed address.\<close>

definition ex_pages :: "(u64 \<times> u64) multiset boot_fw" where
  "ex_pages = ex_boot\<lparr>
     AllocatePages := (\<lambda>k t n a f. if k = AllocateAddress then (9, 0, f) else (0, 0x90000, add_mset (0x90000, n) f)),
     FreePages := (\<lambda>b n f. (0, f - {#(b, n)#}))\<rparr>"

lemma ex_pages_contract: "page_contract ex_pages (\<lambda>f. f)"
  by (auto simp: page_contract_def ex_pages_def ex_boot_defs)

text \<open>Files, protocols and pool memory are accounted for in the state.\<close>

definition ex_handles :: "handed_out boot_fw" where
  "ex_handles = ex_boot\<lparr>
     BS_OpenProtocol := (\<lambda>h g a c k f. (0, 0x6000, f\<lparr>protos := add_mset (h, g) (protos f)\<rparr>)),
     BS_CloseProtocol := (\<lambda>h g a c f. (0, f\<lparr>protos := protos f - {#(h, g)#}\<rparr>)),
     OpenVolume := (\<lambda>v f. (0, 1, f\<lparr>handles := add_mset 1 (handles f)\<rparr>)),
     FOpen := (\<lambda>d n m a f. (0, 2, f\<lparr>handles := add_mset 2 (handles f)\<rparr>)),
     Close := (\<lambda>h f. (0, f\<lparr>handles := handles f - {#h#}\<rparr>)),
     AllocatePool := (\<lambda>t n f. (0, 0x5000, f\<lparr>pool_mem := add_mset 0x5000 (pool_mem f)\<rparr>)),
     FreePool := (\<lambda>a f. (0, f\<lparr>pool_mem := pool_mem f - {#a#}\<rparr>)),
     Read := (\<lambda>h n f. (0, min n 5, \<lambda>i. 65, f))\<rparr>"

lemma ex_handles_contract: "fs_contract ex_handles (\<lambda>f. f)"
  by (auto simp: fs_contract_def ex_handles_def ex_boot_defs)

definition ex_paths :: "handed_out path_fw" where
  "ex_paths = boot_fw.extend (boot_fw.truncate ex_handles) (path_fw.fields (\<lambda>h f. 0x40) (\<lambda>p f. (None, f)) (\<lambda>l f. 0x41)
     (\<lambda>l f. 0x400000) (\<lambda>l f. 0x8000))"

lemmas ex_paths_defs = ex_paths_def path_fw.defs ex_handles_def ex_boot_defs

lemma ex_paths_contract: "path_contract ex_paths (\<lambda>f. f)"
  by (auto simp: path_contract_def fs_contract_def ex_paths_defs)

definition nothing_open :: handed_out where
  "nothing_open = \<lparr>handles = {#}, protos = {#}, pool_mem = {#}\<rparr>"

definition ex_usb :: "(handed_out, handed_out usbtest) usb_fw" where
  "ex_usb = boot_fw.extend (boot_fw.truncate ex_handles) (usb_fw.fields (\<lambda>u f. (0, 0x18D1, 0x4EE7, f)) (\<lambda>h g f. (0, f))
     (\<lambda>h g f. (0, f)) (\<lambda>g f. (0, 0x7700, [0x30, 0x31], f\<lparr>pool_mem := add_mset 0x7700 (pool_mem f)\<rparr>))
     (\<lambda>d h s. case drv_Supported d h s of (r, s1) \<Rightarrow> if r = 0 then drv_Start d h s1 else (r, s1))
     (\<lambda>d h img s. if (h, UsbIoProtocol) \<in># protos (fw s) then drv_Stop d h s else (0, s)))"

lemmas ex_usb_defs = ex_usb_def usb_fw.defs ex_handles_def ex_boot_defs

lemma ex_usb_contract: "usb_contract ex_usb (\<lambda>f. f) [0x30, 0x31]"
  by (auto simp: usb_contract_def fs_contract_def ex_usb_defs)

definition ex_usb_state :: "handed_out usbtest" where
  "ex_usb_state = \<lparr>fw = nothing_open, console = [], gSys = 0, gImg = 0, ImageHandle = 0, DriverBindingHandle = 0\<rparr>"

section \<open>Images and states\<close>

text \<open>A kernel of one setup sector; its header says that it has \<open>n\<close> paragraphs, and it has one.\<close>

definition ex_image :: "u32 \<Rightarrow> bytes" where
  "ex_image n = replicate 0x1F1 0 @ [1, 0, 0] @ to_le 4 n @ replicate 8 0 @ [0xEB, 0x66] @
     to_le 4 (0x53726448 :: u32) @ to_le 2 (0x20B :: u16) @ replicate 504 0 @ replicate 16 0x90"

lemma length_ex_image: "length (ex_image n) = 1040"
  by (simp add: ex_image_def)

lemma ex_image_header: "kernel_header (ex_image n) 1 n 0x66"
  by (simp add: kernel_header_def ex_image_def rd32_def rd16_def rd8_def rdn_def of_le_to_le nth_append)

lemma ex_image_fits: "image_fits (ex_image 1) 1040 1 1"
  by (simp add: image_fits_def length_ex_image)

definition ex_os :: "'f \<Rightarrow> 'f osboot" where
  "ex_os f = \<lparr>fw = f, console = [], gSys = 0x8000, gImg = 0x8800,
     snp = 0x9000, mcast_filters = replicate 256 0, mcast_filter_count = 2,
     eth_buffers_base = 0, eth_buffers = 0, buffer_heap = Map.empty, net_timer = 77,
     ll_mac_addr = ex_mac, ll_ip6_addr = ll_addr ex_mac,
     snm_mac_addr = [0x33, 0x33] @ drop 12 (snm_addr ex_mac), snm_ip6_addr = snm_addr ex_mac,
     rx_mac_addr = ex_peer_mac, rx_ip6_addr = ex_peer,
     last_cookie = 0, last_cmd = 0, last_arg = 0, last_ack_cmd = 0, last_ack_arg = 0,
     nb_boot_now = 0, nb_active = 0, item = None, nb_fastcount = 0, nb_online = 0,
     nb_files = (\<lambda>i. ex_file 4096),
     e820table = replicate 128 \<lparr>e_addr = 0, e_size = 0, e_type = 0\<rparr>, gop = 0x6100\<rparr>"

lemma ex_os_fields: "fw (ex_os f) = f" "length (e820table (ex_os f)) = 128" "gop (ex_os f) = 0x6100" "gImg (ex_os f) = 0x8800"
  by (simp_all add: ex_os_def)

definition ex_descs :: "mdesc list" where
  "ex_descs = [(7, 0x100000, 16), (2, 0x110000, 16), (0, 0x200000, 1)]"

lemma ex_map_bytes: "map (\<lambda>i. if i < 120 then ex_map ! i else 0) [0..<n] = take n (ex_map @ replicate (n - 120) 0)"
proof -
  have l: "length ex_map = 120" by (simp add: ex_map_def ex_desc_def)
  show ?thesis by (rule nth_equalityI) (auto simp: l nth_append)
qed

lemma descs_at_Nil: "descs_at d off dsize []"
  by (simp add: descs_at_def)

lemma ex_descs_at: "120 \<le> n \<Longrightarrow> descs_at (map (\<lambda>i. if i < 120 then ex_map ! i else 0) [0..<n]) 0 40 ex_descs"
  unfolding ex_map_bytes
  by (simp add: ex_descs_def descs_at_Cons descs_at_Nil ex_map_def ex_desc_def rd32_def rd64_def rdn_def of_le_to_le)

lemma ex_memmap: "memmap_result ex_boot f ex_descs 77 f"
  unfolding memmap_result_def
  by (rule exI [of _ "\<lambda>i. if i < 120 then ex_map ! i else 0"], rule exI [of _ 40], rule exI [of _ 1])
     (use ex_descs_at [of 32768] in \<open>simp add: ex_boot_defs ex_descs_def\<close>)

lemma ex_table: "e820_of ex_descs = [\<lparr>e_addr = 0x100000, e_size = 0x20000, e_type = 1\<rparr>, \<lparr>e_addr = 0x200000, e_size = 0x1000, e_type = 2\<rparr>]"
  by (simp add: e820_of_def ex_descs_def e820type_def)

lemma ex_leaves: "leaves ex_boot img f ex_descs f"
  unfolding leaves_def
  by (intro exI [of _ ex_descs] exI [of _ 77] exI [of _ f]) (simp add: ex_memmap ex_table, simp add: ex_boot_defs)

lemma ex_alloc: "\<exists>k. alloc_kernel ex_boot n f = (None, k, f) \<and> kimage k = 0x100000 \<and> zeropage k = 0x90000"
  by (simp add: alloc_kernel_def ex_boot_defs no_kernel_def)

text \<open>A disk with a kernel and a command line.\<close>

definition ex_disk :: "'f boot_fw" where
  "ex_disk = ex_boot\<lparr>
     FOpen := (\<lambda>d n m a f. if n = ''magenta.bin'' then (0, 2, f) else if n = ''cmdline'' then (0, 3, f) else (14, 0, f)),
     GetInfo := (\<lambda>h g n f. (0, \<lambda>i. if 8 \<le> i \<and> i < 16 then to_le 8 (if h = 2 then 1040 else 2 :: u64) ! (i - 8) else 0, f)),
     Read := (\<lambda>h n f. (0, n, \<lambda>i. (if h = 2 then ex_image 1 else [65, 66]) ! i, f))\<rparr>"

definition ex_files :: "string \<Rightarrow> bytes option" where
  "ex_files n = (if n = ''magenta.bin'' then Some (ex_image 1) else if n = ''cmdline'' then Some [65, 66] else None)"

lemma ex_file_size: "file_size (\<lambda>i. if 8 \<le> i \<and> i < 16 then to_le 8 (w :: u64) ! (i - 8) else 0) = w"
proof -
  have "map (\<lambda>i. if 8 \<le> i \<and> i < 16 then to_le 8 w ! (i - 8) else 0) [8..<16] = to_le 8 w"
    by (rule nth_equalityI) (simp_all del: upt_rec_numeral)
  then show ?thesis by (simp add: file_size_def of_le_to_le)
qed

lemma ex_volume: "volume (ex_disk :: 'f boot_fw) img ex_files"
proof -
  have "serves_file ex_disk root name f (ex_files name)" for root name and f :: 'f
    by (auto simp: serves_file_def ex_files_def ex_disk_def ex_file_size length_ex_image ex_boot_defs)
  moreover have "BS_OpenProtocol ex_disk h g a c k f = (0, 0x6000, f)" "OpenVolume ex_disk v f = (0, 1, f)"
    for h g a c k v and f :: 'f by (simp_all add: ex_disk_def ex_boot_defs)
  ultimately show ?thesis unfolding volume_def by simp
qed

lemma ex_can_boot: "can_boot (ex_disk :: 'f boot_fw) img 16"
proof -
  have "\<exists>k. alloc_kernel ex_disk 16 f = (None, k, f)" for f :: 'f by (simp add: alloc_kernel_def ex_disk_def ex_boot_defs)
  moreover have "leaves ex_disk img f ex_descs f" for f :: 'f
    using ex_leaves [of img f] by (simp add: leaves_def memmap_result_def ex_disk_def)
  moreover have "\<forall>(g, t)\<in>set (ConfigurationTable ex_disk f). length g = 16" for f :: 'f
    by (simp add: ex_disk_def ex_boot_defs Acpi2TableGUID_def guid_def)
  moreover have "length (e820_of ex_descs) < 128" by (simp add: ex_table)
  ultimately show ?thesis unfolding can_boot_def by blast
qed

end
