(* ===== verification/Boot_Properties.thy ===== *)
theory Boot_Properties
  imports Boot_Examples
begin

unbundle bit_operations_syntax

text \<open>
  What the boot loader and the small programs beside it promise: what is printed, what is
  allocated and given back, which memory map and which zero page a kernel starts with, and when
  their loops end.
\<close>

section \<open>Loading and starting a kernel\<close>

text \<open>
  C18: Booting a consistent kernel image hands over to it: the loader leaves the firmware (with
  the memory map current at that moment, read again if it was stale) and jumps to the image's
  64-bit entry with the zero page, in which the kernel finds the ACPI root, the frame buffer, its
  command line, the ramdisk and the memory map; the image is in place and the command line is
  terminated.
\<close>

theorem boot_hands_over:
  fixes s :: "('f, 'a) osboot_scheme"
  assumes "kernel_header (b_data kern) sects syssize jump" and "image_fits (b_data kern) (b_size kern) sects syssize"
    and "alloc_kernel efi (syssize * 16) (fw s) = (None, k0, f0)"
    and "gop s \<noteq> NULL" and "length (e820table s) = 128"
    and "\<forall>(g, t)\<in>set (ConfigurationTable efi f0). length g = 16"
    and "b_addr cmdline \<noteq> NULL \<longrightarrow> cmd_len cmdline \<le> length (b_data cmdline)"
    and "leaves efi img f0 ds f'" and "length (e820_of ds) < 128"
  shows "\<exists>k acpi s'. boot_kernel efi img kern ramdisk cmdline s = Some (Started (kimage k0 + 0x200) (zeropage k0) k s') \<and>
    find_acpi_root (\<lambda>a. phys_bytes efi f0 a 8) (ConfigurationTable efi f0) = Some acpi \<and> fw s' = f' \<and>
    zp_handed (zero_mem k) acpi (GopMode efi f0) (kcmdline k0) ramdisk (e820_of ds) \<and>
    take (16 * unat syssize) (image_mem k) = take (16 * unat syssize) (drop (512 * (unat sects + 1)) (b_data kern)) \<and>
    (if b_addr cmdline \<noteq> NULL then take (cmd_len cmdline + 1) (cmd_mem k) = take (cmd_len cmdline) (b_data cmdline) @ [0]
     else take 1 (cmd_mem k) = [0])"
  using boot_kernel_hands_over [OF assms, of ramdisk] by blast

theorem boot_hands_over_witness:
  "\<exists>k s'. boot_kernel ex_boot 0x8800 \<lparr>b_addr = 0x300000, b_data = ex_image 1, b_size = 1040\<rparr>
      \<lparr>b_addr = 0, b_data = [], b_size = 0\<rparr> \<lparr>b_addr = 0x400000, b_data = [65, 66], b_size = 2\<rparr> (ex_os ()) =
      Some (Started 0x100200 0x90000 k s') \<and> take 16 (image_mem k) = replicate 16 0x90 \<and> take 3 (cmd_mem k) = [65, 66, 0]"
proof -
  let ?k = "\<lparr>b_addr = 0x300000, b_data = ex_image 1, b_size = 1040\<rparr>" and ?r = "\<lparr>b_addr = 0, b_data = [], b_size = 0\<rparr>"
    and ?c = "\<lparr>b_addr = 0x400000, b_data = [65, 66], b_size = 2\<rparr>"
  obtain k where k: "alloc_kernel ex_boot (1 * 16) () = (None, k, ())" "kimage k = 0x100000" "zeropage k = 0x90000"
    using ex_alloc [of "1 * 16" "()"] by auto
  have "ConfigurationTable ex_boot () = [(Acpi2TableGUID, 0x7000)]" "length Acpi2TableGUID = 16"
    by (simp_all add: ex_boot_defs Acpi2TableGUID_def guid_def)
  then have cfg: "\<forall>(g, t)\<in>set (ConfigurationTable ex_boot ()). length g = 16" by simp
  have d: "take 16 (drop 1024 (ex_image 1)) = replicate 16 0x90" by (simp add: ex_image_def)
  have "\<exists>k' acpi s'. boot_kernel ex_boot 0x8800 ?k ?r ?c (ex_os ()) = Some (Started (kimage k + 0x200) (zeropage k) k' s') \<and>
      find_acpi_root (\<lambda>a. phys_bytes ex_boot () a 8) (ConfigurationTable ex_boot ()) = Some acpi \<and> fw s' = () \<and>
      zp_handed (zero_mem k') acpi (GopMode ex_boot ()) (kcmdline k) ?r (e820_of ex_descs) \<and>
      take (16 * unat (1 :: u32)) (image_mem k') = take (16 * unat (1 :: u32)) (drop (512 * (unat (1 :: u8) + 1)) (b_data ?k)) \<and>
      (if b_addr ?c \<noteq> NULL then take (cmd_len ?c + 1) (cmd_mem k') = take (cmd_len ?c) (b_data ?c) @ [0]
       else take 1 (cmd_mem k') = [0])"
    using ex_image_header [of 1] ex_image_fits k(1) cfg
    by (intro boot_hands_over) (simp_all add: ex_os_fields ex_table ex_leaves cmd_len_def)
  then show ?thesis using k(2,3) d by (auto simp: cmd_len_def)
qed

text \<open>
  C19: A consistent image is loaded: setup header and command line address are in a cleared zero
  page, the protected-mode part of the image is at the start of the area allocated for it.
\<close>

theorem load_kernel_places_image:
  assumes "kernel_header d sects syssize jump" and "image_fits d sz sects syssize"
    and "alloc_kernel efi (syssize * 16) (fw s) = (None, k, f)"
  shows "\<exists>con. load_kernel efi d sz s = Some (0, k\<lparr>zero_mem := loaded_zeropage d jump (kcmdline k),
      cmd_mem := put 0 [0] (cmd_mem k),
      image_mem := put 0 (take (16 * unat syssize) (drop (512 * (unat sects + 1)) d)) (image_mem k)\<rparr>,
    s\<lparr>fw := f, console := con\<rparr>)"
  using assms by (rule load_kernel_eq)

theorem load_kernel_places_image_witness:
  "\<exists>k s'. load_kernel ex_boot (ex_image 1) 1040 (ex_os ()) = Some (0, k, s') \<and> kimage k = 0x100000"
proof -
  obtain k where k: "alloc_kernel ex_boot (1 * 16) () = (None, k, ())" "kimage k = 0x100000"
    using ex_alloc [of "1 * 16" "()"] by auto
  then show ?thesis
    using load_kernel_places_image [OF ex_image_header ex_image_fits, of ex_boot "ex_os ()" k "()"] by (auto simp: ex_os_fields)
qed



text \<open>
  C20: Whatever the image in memory is, as long as the copy does not read beyond it (C21), \<open>load_kernel\<close>
  returns; when it fails every page it allocated is given back, and when it succeeds exactly the three
  areas of the kernel are allocated.
\<close>

theorem load_kernel_gives_back:
  assumes "page_contract efi acct" and "unat sz \<le> length d" and "length d < 2 ^ 31"
    and "\<not> copy_overreads efi d sz (fw s)"
  shows "\<exists>r k s'. load_kernel efi d sz s = Some (r, k, s') \<and>
    (r = 0 \<and> acct (fw s') = acct (fw s) + kernel_pages k \<or> r = -1 \<and> acct (fw s') = acct (fw s))"
proof -
  obtain r k s' where l: "load_kernel efi d sz s = Some (r, k, s')"
    using load_kernel_None [OF assms(2,3), of efi s] assms(4) by (cases "load_kernel efi d sz s") auto
  then show ?thesis using load_kernel_pages [OF assms(1) l] by blast
qed

theorem load_kernel_gives_back_witness:
  "\<exists>r k s'. load_kernel ex_pages (ex_image 1) 1040 (ex_os {#}) = Some (r, k, s') \<and> r = -1 \<and> fw s' = {#}"
proof -
  have n: "fst (alloc_kernel ex_pages n {#}) \<noteq> None" for n by (simp add: alloc_kernel_def ex_pages_def)
  then have o': "\<not> copy_overreads ex_pages (ex_image 1) 1040 (fw (ex_os {#}))"
    by (auto simp: copy_overreads_def Let_def ex_os_fields)
  have h: "rd32 0x202 (ex_image 1) = Some 0x53726448" "rd16 0x206 (ex_image 1) = Some 0x20B" "rd8 0x1F1 (ex_image 1) = Some 1"
      "rd32 0x1F4 (ex_image 1) = Some 1" "rd8 0x201 (ex_image 1) = Some 0x66"
    by (simp_all add: ex_image_def rd32_def rd16_def rd8_def rdn_def of_le_to_le nth_append)
  obtain k s' where l: "load_kernel ex_pages (ex_image 1) 1040 (ex_os {#}) = Some (-1, k, s')"
    by (simp add: load_kernel_def h alloc_kernel_def ex_pages_def ex_os_fields printf_frame)
  have z: "unat (1040 :: u64) \<le> length (ex_image 1)" "length (ex_image 1) < 2 ^ 31" by (simp_all add: length_ex_image)
  show ?thesis using load_kernel_gives_back [OF ex_pages_contract z o'] l by (auto simp: ex_os_fields)
qed

text \<open>
  C21: The size check does not protect the copy, and this is the only thing that can go wrong while an
  image is loaded. Setup size and image size are added in 32 bits, where a header with a huge paragraph
  count wraps around, and the sum may exceed the file's size by 15: for a header that passes although
  the file is shorter than the two sizes, copying the image reads beyond the file's buffer.
\<close>

theorem load_kernel_overreads:
  assumes "unat sz \<le> length d" and "length d < 2 ^ 31"
  shows "load_kernel efi d sz s = None \<longleftrightarrow> copy_overreads efi d sz (fw s)"
  using assms by (rule load_kernel_None)

theorem load_kernel_overreads_witness:
  "load_kernel ex_boot (ex_image 0x0FFFFFC0) 1040 (ex_os ()) = None \<and>
   load_kernel ex_boot (take 1030 (ex_image 1)) 1030 (ex_os ()) = None"
proof -
  have a: "fst (alloc_kernel ex_boot n ()) = None" for n using ex_alloc [of n "()"] by auto
  have "(4294967296 :: u32) = 0" by (simp add: word_eq_iff_unsigned)
  then have w: "1024 \<le> (ucast (1 :: u8) + 1 :: u32) * 512" "(ucast ((ucast (1 :: u8) + 1) * 512 + 0x0FFFFFC0 * 16 :: u32) :: u64) \<le> 1040 + 15"
      "1040 < unat ((ucast (1 :: u8) + 1) * 512 :: u32) + unat (0x0FFFFFC0 * 16 :: u32)" "(0x0FFFFFC0 * 16 :: u32) \<noteq> 0" by simp_all
  have "copy_overreads ex_boot (ex_image 0x0FFFFFC0) 1040 ()"
    unfolding copy_overreads_def Let_def
    by (rule conjI, simp, intro exI [of _ 1] exI [of _ "0x0FFFFFC0"] exI [of _ "0x66"])
       (simp only: ex_image_header w a length_ex_image simp_thms)
  moreover have "kernel_header (take 1030 (ex_image 1)) 1 1 0x66"
    by (simp add: kernel_header_def ex_image_def rd32_def rd16_def rd8_def rdn_def of_le_to_le nth_append)
  then have "copy_overreads ex_boot (take 1030 (ex_image 1)) 1030 ()"
    unfolding copy_overreads_def Let_def
    by (intro conjI exI [of _ 1] exI [of _ "0x66"]) (simp_all add: a length_ex_image)
  ultimately show ?thesis
    using load_kernel_overreads [of 1040 "ex_image 0x0FFFFFC0" ex_boot "ex_os ()"]
      load_kernel_overreads [of 1030 "take 1030 (ex_image 1)" ex_boot "ex_os ()"]
    by (simp add: length_ex_image ex_os_fields)
qed

section \<open>The memory map\<close>

text \<open>
  C22: The E820 table says of every byte what the firmware's map says: an address is covered with
  a type exactly if a descriptor of that type covers it, and neighbouring ranges of one type are
  one entry.
\<close>

theorem memory_map_table:
  fixes s :: "('f, 'a) osboot_scheme"
  assumes m: "memmap_result efi (fw s) ds key f'" and tab: "length (e820table s) = 128" and n: "length (e820_of ds) < 128"
    and ok: "\<forall>x\<in>set ds. desc_ok x"
  shows "\<exists>n con tab. process_memory_map efi silent s =
      Some (int n, Some key, s\<lparr>fw := f', console := con, e820table := tab\<rparr>) \<and>
    (\<forall>a t. covers (take n tab) a t \<longleftrightarrow> (\<exists>x\<in>set ds. desc_covers x a t)) \<and> merged (take n tab)"
proof -
  obtain con tab where "process_memory_map efi silent s = Some (int (length (e820_of ds)), Some key,
      s\<lparr>fw := f', console := con, e820table := tab\<rparr>)" "take (length (e820_of ds)) tab = e820_of ds"
    using process_memory_map_eq [OF m tab, of silent] n by auto
  then show ?thesis
    using e820_of_covers(2) [OF ok] e820_of_merged [of ds]
    by (intro exI [of _ "length (e820_of ds)"] exI [of _ con] exI [of _ tab]) simp
qed

theorem memory_map_table_witness:
  "\<exists>n tab s'. process_memory_map ex_boot 0 (ex_os ()) = Some (int n, Some 77, s') \<and> e820table s' = tab \<and>
    covers (take n tab) 0x110000 1 \<and> \<not> covers (take n tab) 0x120000 1 \<and> merged (take n tab)"
proof -
  have m: "memmap_result ex_boot (fw (ex_os ())) ex_descs 77 ()" by (simp add: ex_os_fields ex_memmap)
  have "length (e820_of ex_descs) < 128" "\<forall>x\<in>set ex_descs. desc_ok x" by (simp add: ex_table, simp add: ex_descs_def)
  from memory_map_table [OF m ex_os_fields(2) this, of 0] obtain n con tab where
    p: "process_memory_map ex_boot 0 (ex_os ()) = Some (int n, Some 77, (ex_os ())\<lparr>fw := (), console := con, e820table := tab\<rparr>)"
      "\<forall>a t. covers (take n tab) a t \<longleftrightarrow> (\<exists>x\<in>set ex_descs. desc_covers x a t)" "merged (take n tab)" by blast
  then show ?thesis
    by (intro exI [of _ n] exI [of _ tab] exI [of _ "(ex_os ())\<lparr>fw := (), console := con, e820table := tab\<rparr>"])
      (simp add: ex_descs_def e820type_def)
qed

text \<open>
  C23: Every entry of the table that \<open>process_memory_map\<close> fills in has one of the types that have a
  name, so that printing the table, also an empty one after a failure, never leaves the array of
  names.
\<close>

theorem table_types_named:
  fixes s :: "('f, 'a) osboot_scheme"
  assumes m: "memmap_result efi (fw s) ds key f'" and tab: "length (e820table s) = 128"
  shows "\<exists>n k s' con. process_memory_map efi silent s = Some (n, k, s') \<and>
    list_all (\<lambda>e. unat (e_type e) < length e820name) (take (nat n) (e820table s')) \<and>
    dump_table (take (nat n) (e820table s')) s' = Some (s'\<lparr>console := con\<rparr>)"
proof -
  obtain n k con tab where p: "process_memory_map efi silent s = Some (n, k, s\<lparr>fw := f', console := con, e820table := tab\<rparr>)"
      "n = -1 \<or> take (nat n) tab = e820_of ds"
    using process_memory_map_eq [OF m tab, of silent] by (auto split: if_splits)
  have "\<forall>e\<in>set (take (nat n) tab). unat (e_type e) < length e820name"
    using p(2) e820_of_types [of ds] by auto
  then show ?thesis
    using p(1) dump_table_eq [of "take (nat n) tab" "s\<lparr>fw := f', console := con, e820table := tab\<rparr>"]
    by (auto simp: list_all_iff)
qed

theorem table_types_named_witness:
  "\<exists>n k s'. process_memory_map ex_boot 0 (ex_os ()) = Some (n, k, s') \<and>
    dump_table (take (nat n) (e820table s')) s' \<noteq> None"
proof -
  have m: "memmap_result ex_boot (fw (ex_os ())) ex_descs 77 ()" by (simp add: ex_os_fields ex_memmap)
  show ?thesis using table_types_named [OF m ex_os_fields(2), of 0] by auto
qed

text \<open>
  C24: The search for the ACPI root returns the first configuration table that starts with the
  signature, under whatever GUID it is registered: the test for the two ACPI GUIDs never rejects
  a table.
\<close>

theorem acpi_search_ignores_guid:
  assumes "\<forall>(g, tab)\<in>set cfg. length g = 16 \<and> length (mem tab) = 8"
  shows "find_acpi_root mem cfg = Some (case find (\<lambda>(g, tab). mem tab = ACPI_RSD_PTR) cfg of
    None \<Rightarrow> 0 | Some (g, tab) \<Rightarrow> ucast tab)"
  using assms by (rule find_acpi_root_eq)

theorem acpi_search_ignores_guid_witness:
  "find_acpi_root (\<lambda>a. ACPI_RSD_PTR) [(UsbIoProtocol, 0x7000)] = Some 0x7000"
  using acpi_search_ignores_guid [of "[(UsbIoProtocol, 0x7000)]" "\<lambda>a. ACPI_RSD_PTR"]
  by (simp add: UsbIoProtocol_def guid_def ACPI_RSD_PTR_def)

section \<open>The netboot server as a state machine\<close>

text \<open>
  C25: Starting the server never gets stuck, and a server that started satisfies the invariant of
  driver, stack and files: it has its buffers, and each of its three files fits its memory.
\<close>

theorem server_starts:
  fixes s :: "('f, 'a) osboot_scheme"
  assumes "open_contract efi inflight" and "tx_contract efi inflight"
    and "pristine inflight s" and "\<forall>i. nb_offset (nb_files s i) = 0"
    and "alloc_file efi NbKernel KBUFSIZE s = (True, s1)" and "alloc_file efi NbRamdisk RBUFSIZE s1 = (True, s2)"
  shows "\<exists>r s3. netboot_init efi (init_cmdline cmd s2) = Some (r, s3) \<and> (r = 0 \<or> r = -1) \<and>
    (r = 0 \<longrightarrow> (\<exists>A. nb_good efi inflight A s3))"
  using assms by (rule server_ready)

theorem server_starts_witness:
  "\<exists>s2 r s3. snd (alloc_file (boot_of ex_fw) NbRamdisk RBUFSIZE (snd (alloc_file (boot_of ex_fw) NbKernel KBUFSIZE
      (ex_os \<lparr>sent = [], owned = [], inbox = []\<rparr>)))) = s2 \<and>
    netboot_init (boot_of ex_fw) (init_cmdline 0x500000 s2) = Some (r, s3) \<and>
    (r = 0 \<longrightarrow> (\<exists>A. nb_good (boot_of ex_fw) ex_inflight A s3))"
proof -
  let ?f = "\<lparr>sent = [], owned = [], inbox = []\<rparr> :: ex_st"
  have p: "pristine ex_inflight (ex_os ?f)" "\<forall>i. nb_offset (nb_files (ex_os ?f) i) = 0"
    by (simp_all add: pristine_def ex_os_def ex_inflight_def addrs_ok_def filters_ok_def ex_file_def ex_lens ex_peer_def)
  obtain s1 where a: "alloc_file (boot_of ex_fw) NbKernel KBUFSIZE (ex_os ?f) = (True, s1)"
    by (simp add: alloc_file_def boot_of_defs ex_fw_def)
  obtain s2 where b: "alloc_file (boot_of ex_fw) NbRamdisk RBUFSIZE s1 = (True, s2)"
    by (simp add: alloc_file_def boot_of_defs ex_fw_def)
  show ?thesis
    using server_starts [OF boot_of_net(3,1) p a b, of "0x500000"] a b by auto
qed

text \<open>
  C26: The invariant of driver, stack and files holds in every state the running server reaches,
  whatever frames arrive and whatever programs it is told to run.
\<close>

theorem server_invariant:
  assumes "(server_step efi img)\<^sup>*\<^sup>* s s'" and "nb_good efi inflight A s" and "rx_contract efi" and "image_contract efi inflight"
  shows "nb_good efi inflight A s'"
  using assms by (rule reachable_good)

text \<open>A state the examples start from.\<close>

definition ex_running :: "ex_st osboot" where
  "ex_running = (ex_os \<lparr>sent = [], owned = [], inbox = []\<rparr>)\<lparr>eth_buffers := 0x1000,
     buffer_heap := [0x1000 \<mapsto> \<lparr>buf_magic = ETH_BUFFER_MAGIC, buf_next = 0, buf_data = replicate 2032 0\<rparr>]\<rparr>"

lemma ex_running_good: "nb_good (boot_of ex_fw) ex_inflight {0x1000} ex_running"
  unfolding nb_good_def stack_ok_def drv_idle_def accounted_def
  by (auto simp: boot_of_net ex_running_def ex_os_def pool_def slots_ok_def ex_inflight_def files_ok_def file_ok_def ex_file_def
      addrs_ok_def ex_lens ex_peer_def intro!: exI [of _ "[0x1000]"])

lemma ex_image_contract: "image_contract (boot_of ex_fw) ex_inflight"
  by (simp add: image_contract_def boot_of_defs)

theorem server_invariant_witness:
  "\<exists>s'. (server_step (boot_of ex_fw) 0x8800)\<^sup>*\<^sup>* ex_running s' \<and> nb_good (boot_of ex_fw) ex_inflight {0x1000} s'"
  using server_invariant [OF rtranclp.rtrancl_refl ex_running_good boot_of_net(2) ex_image_contract] by blast

text \<open>
  C27: No round of the server gets stuck before a boot: in a state that satisfies the invariant a
  round goes on, in a state that satisfies it again, unless it was told to boot a kernel that it has.
\<close>

theorem server_round_progress:
  fixes s :: "('f, 'a) osboot_scheme"
  assumes "nb_good efi inflight A s" and "rx_contract efi" and "image_contract efi inflight"
  shows "(\<exists>s'. netboot_round efi img s = Some (Inl s') \<and> nb_good efi inflight A s') \<or>
    (\<exists>s1. boot_attempt efi s s1 \<and> nb_good efi inflight A s1)"
  using assms by (rule round_good)

theorem server_round_progress_witness:
  "(\<exists>s'. netboot_round (boot_of ex_fw) 0x8800 ex_running = Some (Inl s')) \<or> (\<exists>s1. boot_attempt (boot_of ex_fw) ex_running s1)"
  using server_round_progress [OF ex_running_good boot_of_net(2) ex_image_contract, of "0x8800"] by blast


text \<open>
  C40: The loader comes back to the firmware only with the message that the boot failed and after a
  key was pressed; in every other case in which it ends it has jumped to a kernel, 0x200 bytes into
  its image, and the firmware's boot services were left before that.
\<close>

theorem loader_ends:
  assumes "efi_main efi cmd img sys s = Some e"
  shows "(\<exists>s1 s2. e = Returned 0 s2 \<and> WaitAnyKey efi (printf ''\<newline>Boot Failure\<newline>'' [] s1) = Some s2) \<or>
    (\<exists>k s2 key f. e = Started (kimage k + 0x200) (zeropage k) k s2 \<and> ExitBootServices efi img key f = (0, fw s2))"
  using efi_main_ends [OF assms] by (auto simp: gave_up_def left_firmware_def start_kernel_def)

theorem loader_ends_witness:
  "\<exists>e s1. efi_main (ex_boot\<lparr>FOpen := \<lambda>d n m a f. (14, 0, f), AllocatePages := \<lambda>k t n a f. (9, 0, f)\<rparr>) 0x500000 0x8800 0x8000
      (ex_os ()) = Some e \<and>
    e = Returned 0 s1"
proof -
  let ?efi = "ex_boot\<lparr>FOpen := \<lambda>d n m a f. (14, 0, f), AllocatePages := \<lambda>k t n a f. (9, 0, f)\<rparr>"
  have "\<exists>s1. efi_main ?efi 0x500000 0x8800 0x8000 (ex_os ()) = Some (Returned 0 s1)"
    by (simp add: efi_main_def try_local_boot_def LoadFile_def load_from_volume_def load_from_root_def OpenProtocol_def
        CloseProtocol_def network_boot_def alloc_file_def boot_failure_def InitGoodies_def printf_def Let_def ex_os_def
        WaitAnyKey.simps ex_boot_defs)
  then obtain s1 where r: "efi_main ?efi 0x500000 0x8800 0x8000 (ex_os ()) = Some (Returned 0 s1)" ..
  from loader_ends [OF r] show ?thesis using r by blast
qed

section \<open>Helpers\<close>

text \<open>
  C29: Printing on the console shows the text of the format with a carriage return before every
  line feed, in pieces that fit the buffer, and returns the length of the text.
\<close>

theorem console_shows_text:
  assumes "format fmt args = Some (n, p)" and "0 \<notin> set (ps_out p)" and "length (ps_out p) < 2147483648"
    and "length stack = PCBUFMAX + 2"
  shows "\<exists>outs. console_printf stack fmt args = Some (int (length (ps_out p)), outs, ps_stores p) \<and>
    concat outs = crlf (ps_out p) \<and> (\<forall>o'\<in>set outs. o' \<noteq> [] \<and> length o' \<le> PCBUFMAX + 1)"
  using assms by (rule console_printf_eq)

theorem console_shows_text_witness:
  "\<exists>outs. console_printf (replicate 128 7) (asc ''ab'' @ [10, 0]) [] = Some (3, outs, []) \<and> concat outs = [97, 98, 13, 10]"
proof -
  have f: "format (asc ''ab'' @ [10, 0]) [] = Some (3, \<lparr>ps_out = [97, 98, 10], ps_args = [], ps_written = 3, ps_stores = []\<rparr>)"
    by (simp add: format_def printf_engine_def engine.simps text_out_step engine_exit_def)
  show ?thesis
    using console_shows_text [OF f, of "replicate 128 7"] by (auto simp: crlf_def)
qed



section \<open>The other programs\<close>

text \<open>
  C32: \<open>showmem\<close> prints the map's header and then one line for every descriptor, in order: its
  addresses, pages and attributes, and the name of its type, or the type's number with eight
  hexadecimal digits where it has no name.
\<close>

theorem showmem_lists_map:
  assumes "GetMemoryMap efi 4096 (fw s) = (0, msize, c, key, dsize, dv, f)"
    and "recs_at (map c [0..<4096]) 0 (unat dsize) ds" and "length ds * unat dsize = unat msize" and "dsize \<noteq> 0"
    and "19 \<le> length tmp"
  shows "\<exists>con. dump_memmap efi tmp s = Some (s\<lparr>fw := f, console := console s @
      (''r=%lx msz=%lx key=%lx dsz=%lx dvn=%x\<newline>'', [PInt 0, PInt msize, PInt key, PInt dsize, PInt (ucast dv)]) # con\<rparr>) \<and>
    map shown con = map mem_line ds"
  using assms by (rule dump_memmap_eq)

theorem showmem_lists_map_witness:
  "\<exists>con. dump_memmap ex_boot (replicate 32 0) (ex_os ()) = Some ((ex_os ())\<lparr>fw := (), console := console (ex_os ()) @
      (''r=%lx msz=%lx key=%lx dsz=%lx dvn=%x\<newline>'', [PInt 0, PInt 120, PInt 77, PInt 40, PInt (ucast (1 :: u32))]) # con\<rparr>) \<and>
    map shown con = map mem_line [(7, 0x100000, 0, 16, 15), (2, 0x110000, 0, 16, 15), (0, 0x200000, 0, 1, 15)]"
proof (rule showmem_lists_map)
  let ?c = "\<lambda>i. if i < 120 then ex_map ! i else 0"
  show "GetMemoryMap ex_boot 4096 (fw (ex_os ())) = (0, 120, ?c, 77, 40, 1, ())" by (simp add: ex_boot_defs)
  have nil: "recs_at d o' n []" for d o' n by (simp add: recs_at_def)
  show "recs_at (map ?c [0..<4096]) 0 (unat (40 :: u64)) [(7, 0x100000, 0, 16, 15), (2, 0x110000, 0, 16, 15), (0, 0x200000, 0, 1, 15)]"
    unfolding ex_map_bytes
    by (simp add: recs_at_Cons nil ex_map_def ex_desc_def rd32_def rd64_def rdn_def of_le_to_le)
qed simp_all

text \<open>
  C33: With a firmware whose keyboard delivers a key now and then, whose \<open>Exit\<close> does not come back and
  whose \<open>Read\<close> respects the size it is given, \<open>fileio\<close> always ends: with the message of a call that
  failed, or by returning success, and then every file and protocol it opened is closed again, whether it
  found the file or not.
\<close>

theorem fileio_closes_all:
  fixes s :: "('f, 'a) machine_scheme"
  assumes "path_contract efi acct" and "path_ends efi"
  shows "\<exists>x. fileio_main efi img sys s = Some x \<and>
    (\<forall>st s'. x = Inr (st, s') \<longrightarrow> st = EFI_SUCCESS \<and> opens acct s' = opens acct s)"
  using fileio_main_ends [OF assms(2), of img sys s] fileio_main_opens [OF assms(1), of img sys s] by auto

theorem fileio_closes_all_witness:
  "\<exists>s'. fileio_main ex_paths 0x8800 0x8000 (ex_os nothing_open) = Some (Inr (EFI_SUCCESS, s')) \<and> opens (\<lambda>f. f) s' = ({#}, {#})"
proof -
  have e: "path_ends ex_paths" by (auto simp: path_ends_def keys_come_def ex_paths_defs intro: exI [of _ 0])
  have w: "WaitAnyKey ex_paths s = Some s" for s :: "(handed_out, 'a) machine_scheme"
    by (subst WaitAnyKey.simps) (simp add: ex_paths_defs)
  obtain st s' where r: "fileio_main ex_paths 0x8800 0x8000 (ex_os nothing_open) = Some (Inr (st, s'))"
    unfolding fileio_main_def show_file_def want_def need_def OpenProtocol_def CloseProtocol_def Let_def w
    by (simp add: ex_paths_defs HandleToString_def InitGoodies_def ex_os_fields printf_frame rdn_def)
  show ?thesis
    using fileio_closes_all [OF ex_paths_contract e, of "0x8800" "0x8000" "ex_os nothing_open"] r
    by (auto simp: opens_def ex_os_fields nothing_open_def)
qed



text \<open>
  C35: A device whose descriptor cannot be read is reported as unsupported, but its USB protocol
  stays open: \<open>MyDriverSupported\<close> returns without closing it.
\<close>

theorem unsupported_device_stays_open:
  assumes c: "usb_contract efi acct devs"
    and o': "BS_OpenProtocol efi h UsbIoProtocol (DriverBindingHandle s) h EFI_OPEN_PROTOCOL_BY_DRIVER (fw s) = (0, u, f)"
    and bad: "fst (UsbGetDeviceDescriptor efi u f) \<noteq> 0"
  shows "\<exists>s'. MyDriverSupported efi h s = (EFI_UNSUPPORTED, s') \<and> (h, UsbIoProtocol) \<in># protos (acct (fw s'))"
proof -
  obtain r s' where r: "MyDriverSupported efi h s = (r, s')" by force
  then show ?thesis using Supported_acct [OF c r] o' bad by auto
qed

theorem unsupported_device_stays_open_witness:
  "\<exists>s'. MyDriverSupported (ex_usb\<lparr>UsbGetDeviceDescriptor := \<lambda>u f. (EFI_DEVICE_ERROR, 0, 0, f)\<rparr>) 0x30 ex_usb_state =
    (EFI_UNSUPPORTED, s') \<and> (0x30, UsbIoProtocol) \<in># protos (fw s')"
proof (rule unsupported_device_stays_open)
  show "usb_contract (ex_usb\<lparr>UsbGetDeviceDescriptor := \<lambda>u f. (EFI_DEVICE_ERROR, 0, 0, f)\<rparr>) (\<lambda>f. f) [0x30, 0x31]"
    by (auto simp: usb_contract_def fs_contract_def ex_usb_defs)
qed (simp_all add: ex_usb_defs)

end
