(* ===== verification/Nbserver.thy ===== *)
theory Nbserver
  imports Netboot_Spec
begin

unbundle bit_operations_syntax

text \<open>
  The program that runs on the developer's machine, \<^verbatim>\<open>src/nbserver.c\<close>: it waits for the
  beacon of a machine that can be booted, and sends it a kernel, one acknowledged block after the
  other. The operating system's calls are the fields of a record over a world of any type.
\<close>

section \<open>The operating system\<close>

record sockaddr_in6 =
  sin6_addr :: bytes
  sin6_port :: u16

text \<open>
  \<open>p_read\<close> and \<open>p_recvfrom\<close> return the result and the bytes that were stored; \<open>p_fread\<close> the
  bytes read. \<open>errno\<close> is the error number of the last call that failed.
\<close>

record 'w posix =
  p_write :: "int \<Rightarrow> bytes \<Rightarrow> 'w \<Rightarrow> int \<times> 'w"
  p_read :: "int \<Rightarrow> nat \<Rightarrow> 'w \<Rightarrow> int \<times> bytes \<times> 'w"
  errno :: "'w \<Rightarrow> int"
  p_fopen :: "string \<Rightarrow> 'w \<Rightarrow> u64 \<times> 'w"
  p_fread :: "u64 \<Rightarrow> nat \<Rightarrow> 'w \<Rightarrow> bytes \<times> 'w"
  p_ferror :: "u64 \<Rightarrow> 'w \<Rightarrow> bool"
  p_fclose :: "u64 \<Rightarrow> 'w \<Rightarrow> 'w"
  p_socket :: "'w \<Rightarrow> int \<times> 'w"
  p_setsockopt :: "int \<Rightarrow> 'w \<Rightarrow> 'w"
  p_connect :: "int \<Rightarrow> sockaddr_in6 \<Rightarrow> 'w \<Rightarrow> int \<times> 'w"
  p_bind :: "int \<Rightarrow> sockaddr_in6 \<Rightarrow> 'w \<Rightarrow> int \<times> 'w"
  p_close :: "int \<Rightarrow> 'w \<Rightarrow> 'w"
  p_recvfrom :: "int \<Rightarrow> nat \<Rightarrow> 'w \<Rightarrow> int \<times> bytes \<times> sockaddr_in6 \<times> 'w"
  p_fcntl :: "int \<Rightarrow> u32 \<Rightarrow> 'w \<Rightarrow> int \<times> 'w"
  p_ntop :: "bytes \<Rightarrow> bytes"

abbreviation (input) EAGAIN :: int where "EAGAIN \<equiv> 11"
abbreviation (input) EWOULDBLOCK :: int where "EWOULDBLOCK \<equiv> 11"
abbreviation (input) O_NONBLOCK :: u32 where "O_NONBLOCK \<equiv> 2048"

text \<open>The program's state: the world, the globals \<open>cookie\<close> and \<open>appname\<close>, and what was written to
  \<open>stderr\<close>.\<close>

record 'w nbs =
  world :: 'w
  nbs_cookie :: u32
  appname :: bytes
  errs :: "pcall list"

definition fprintf :: "string \<Rightarrow> parg list \<Rightarrow> ('w, 'a) nbs_scheme \<Rightarrow> ('w, 'a) nbs_scheme" where
  "fprintf fmt args s = s\<lparr>errs := errs s @ [(fmt, args)]\<rparr>"

section \<open>One message\<close>

text \<open>
  The loop of \<open>io\<close>, from the write on or (\<open>again\<close>) from the label \<open>again\<close>. It goes on as long as
  the socket delivers anything but the acknowledgement, and as long as a write would block.
\<close>

partial_function (option) io_loop :: "('w, 'x) posix_scheme \<Rightarrow> int \<Rightarrow> bytes \<Rightarrow> nat \<Rightarrow> int \<Rightarrow> bool \<Rightarrow>
    ('w, 'a) nbs_scheme \<Rightarrow> (int \<times> ('w, 'a) nbs_scheme) option" where
  "io_loop os fd msg len retries again s =
     (if \<not> again then
        (case p_write os fd (take len msg) (world s) of (r, w) \<Rightarrow>
           if r < 0 then
             if errno os w = EAGAIN \<or> errno os w = EWOULDBLOCK
             then io_loop os fd msg len retries False (s\<lparr>world := w\<rparr>)
             else Some (-1, fprintf ''\<newline>%s: socket write error %d\<newline>''
                    [PStr (Some (appname s)), PInt (word_of_int (errno os w))] (s\<lparr>world := w\<rparr>))
           else io_loop os fd msg len retries True (s\<lparr>world := w\<rparr>))
      else
        (case p_read os fd 2048 (world s) of (r, ack, w) \<Rightarrow>
           if r < 0 then
             if errno os w = EAGAIN \<or> errno os w = EWOULDBLOCK then
               if retries - 1 > 0
               then io_loop os fd msg len (retries - 1) False (fprintf ''T'' [] (s\<lparr>world := w\<rparr>))
               else Some (-1, fprintf ''\<newline>%s: timed out\<newline>'' [PStr (Some (appname s))] (s\<lparr>world := w\<rparr>))
             else Some (-1, fprintf ''\<newline>%s: socket read error %d\<newline>''
                    [PStr (Some (appname s)), PInt (word_of_int (errno os w))] (s\<lparr>world := w\<rparr>))
           else if nat r < 16 then io_loop os fd msg len retries True (fprintf ''Z'' [] (s\<lparr>world := w\<rparr>))
           else do {
             ack_magic \<leftarrow> rd32 0 ack; ack_cookie \<leftarrow> rd32 4 ack; ack_cmd \<leftarrow> rd32 8 ack; ack_arg \<leftarrow> rd32 12 ack;
             msg_cookie \<leftarrow> rd32 4 msg; msg_arg \<leftarrow> rd32 12 msg;
             if ack_magic \<noteq> NB_MAGIC then io_loop os fd msg len retries True (fprintf ''?'' [] (s\<lparr>world := w\<rparr>))
             else if ack_cookie \<noteq> msg_cookie then io_loop os fd msg len retries True (fprintf ''C'' [] (s\<lparr>world := w\<rparr>))
             else if ack_arg \<noteq> msg_arg then io_loop os fd msg len retries True (fprintf ''A'' [] (s\<lparr>world := w\<rparr>))
             else if ack_cmd = NB_ACK then Some (0, s\<lparr>world := w\<rparr>)
             else io_loop os fd msg len retries True (fprintf ''?'' [] (s\<lparr>world := w\<rparr>)) }))"

text \<open>\<open>io\<close>: the message's magic and cookie are written into the buffer, which the caller keeps.\<close>

definition io :: "('w, 'x) posix_scheme \<Rightarrow> int \<Rightarrow> bytes \<Rightarrow> nat \<Rightarrow> ('w, 'a) nbs_scheme \<Rightarrow>
    (int \<times> bytes \<times> ('w, 'a) nbs_scheme) option" where
  "io os fd msg len s =
     do { msg \<leftarrow> wr32 0 NB_MAGIC msg;
          msg \<leftarrow> wr32 4 (nbs_cookie s) msg;
          (r, s) \<leftarrow> io_loop os fd msg len 5 False (s\<lparr>nbs_cookie := nbs_cookie s + 1\<rparr>);
          Some (r, msg, s) }"

section \<open>One transfer\<close>

text \<open>The loop over the blocks of the file: \<open>None\<close> inside when an error ended the transfer.\<close>

partial_function (option) xfer_loop :: "('w, 'x) posix_scheme \<Rightarrow> int \<Rightarrow> u64 \<Rightarrow> string \<Rightarrow> bytes \<Rightarrow> int \<Rightarrow>
    ('w, 'a) nbs_scheme \<Rightarrow> (bytes option \<times> ('w, 'a) nbs_scheme) option" where
  "xfer_loop os fd fp fn msg cnt s =
     (case p_fread os fp 1024 (world s) of (block, w) \<Rightarrow>
        if block = [] then
          if p_ferror os fp w
          then Some (None, fprintf (''\<newline>%s: error: reading '' @ quoted ''%s'' @ ''\<newline>'')
                 [PStr (Some (appname s)), PStr (Some (asc fn @ [0]))] (s\<lparr>world := w\<rparr>))
          else Some (Some msg, s\<lparr>world := w\<rparr>)
        else do {
          msg \<leftarrow> wrn 16 block msg;
          let cnt = cnt + int (length block);
          let s = (if cnt \<ge> 32 * 1024 then fprintf ''#'' [] (s\<lparr>world := w\<rparr>) else s\<lparr>world := w\<rparr>);
          (r, msg, s) \<leftarrow> io os fd msg (16 + length block) s;
          if r \<noteq> 0
          then Some (None, fprintf (''\<newline>%s: error: sending '' @ quoted ''%s'' @ ''\<newline>'')
                 [PStr (Some (appname s)), PStr (Some (asc fn @ [0]))] s)
          else do {
            arg \<leftarrow> rd32 12 msg;
            msg \<leftarrow> wr32 12 (arg + of_nat (length block)) msg;
            xfer_loop os fd fp fn msg (if cnt \<ge> 32 * 1024 then 0 else cnt) s } })"

text \<open>The three phases on a connected socket: open the file, send its blocks, boot.\<close>

definition xfer_socket :: "('w, 'x) posix_scheme \<Rightarrow> int \<Rightarrow> u64 \<Rightarrow> string \<Rightarrow> bytes \<Rightarrow>
    ('w, 'a) nbs_scheme \<Rightarrow> ('w, 'a) nbs_scheme option" where
  "xfer_socket os fd fp fn msg s =
     do { msg \<leftarrow> wr32 8 NB_SEND_FILE msg;
          msg \<leftarrow> wr32 12 0 msg;
          msg \<leftarrow> wrn 16 (asc ''kernel.bin'' @ [0]) msg;
          (r, msg, s) \<leftarrow> io os fd msg (16 + 11) s;
          if r \<noteq> 0 then Some (fprintf ''%s: failed to start transfer\<newline>'' [PStr (Some (appname s))] s)
          else do {
            msg \<leftarrow> wr32 8 NB_DATA msg;
            msg \<leftarrow> wr32 12 0 msg;
            (m, s) \<leftarrow> xfer_loop os fd fp fn msg 0 s;
            (case m of None \<Rightarrow> Some s
             | Some msg \<Rightarrow> do {
                 msg \<leftarrow> wr32 8 NB_BOOT msg;
                 msg \<leftarrow> wr32 12 0 msg;
                 (r, msg, s) \<leftarrow> io os fd msg 16 s;
                 Some (if r \<noteq> 0 then fprintf ''\<newline>%s: failed to send boot command\<newline>'' [PStr (Some (appname s))] s
                       else fprintf ''\<newline>%s: sent boot command\<newline>'' [PStr (Some (appname s))] s) }) } }"

text \<open>\<open>msgbuf\<close> is an array on the stack, with any contents.\<close>

definition xfer :: "('w, 'x) posix_scheme \<Rightarrow> sockaddr_in6 \<Rightarrow> string \<Rightarrow> bytes \<Rightarrow> ('w, 'a) nbs_scheme \<Rightarrow>
    ('w, 'a) nbs_scheme option" where
  "xfer os addr fn msgbuf s =
     (let (fp, w) = p_fopen os fn (world s); s = s\<lparr>world := w\<rparr>
      in if fp = NULL then Some s
      else let (fd, w) = p_socket os (world s); s = s\<lparr>world := w\<rparr>
      in if fd < 0 then
           let s = fprintf ''%s: cannot create socket %d\<newline>'' [PStr (Some (appname s)), PInt (word_of_int (errno os w))] s
           in Some (s\<lparr>world := p_fclose os fp (world s)\<rparr>)
      else let (r, w) = p_connect os fd addr (p_setsockopt os fd (world s)); s = s\<lparr>world := w\<rparr>
      in do {
        s \<leftarrow> (if r < 0
               then Some (fprintf ''%s: cannot connect to [%s]%d\<newline>'' [PStr (Some (appname s)),
                      PStr (Some (p_ntop os (sin6_addr addr))), PInt (ucast (swap16 (sin6_port addr)))] s)
               else xfer_socket os fd fp fn msgbuf s);
        Some (s\<lparr>world := p_fclose os fp (p_close os fd (world s))\<rparr>) })"

section \<open>The main program\<close>

text \<open>Reading what is left in the socket until there is nothing.\<close>

partial_function (option) drain_loop :: "('w, 'x) posix_scheme \<Rightarrow> int \<Rightarrow> 'w \<Rightarrow> 'w option" where
  "drain_loop os fd w =
     (case p_read os fd 4096 w of (r, b, w) \<Rightarrow> if r > 0 then drain_loop os fd w else Some w)"

definition drain :: "('w, 'x) posix_scheme \<Rightarrow> int \<Rightarrow> ('w, 'a) nbs_scheme \<Rightarrow> ('w, 'a) nbs_scheme option" where
  "drain os fd s =
     (case p_fcntl os fd O_NONBLOCK (world s) of (r, w) \<Rightarrow>
        if r = 0 then do { w \<leftarrow> drain_loop os fd w; Some (s\<lparr>world := snd (p_fcntl os fd 0 w)\<rparr>) }
        else Some (s\<lparr>world := w\<rparr>))"

definition usage :: "('w, 'a) nbs_scheme \<Rightarrow> ('w, 'a) nbs_scheme" where
  "usage s = fprintf ''usage:   %s [ <option> ]* <filename>\<newline>\<newline>options: -1  only boot once, then exit\<newline>''
     [PStr (Some (appname s))] s"

text \<open>The arguments after the program's name: the file name and whether \<open>-1\<close> was given; \<open>None\<close> where
  the program prints its usage and exits.\<close>

fun parse_args :: "string list \<Rightarrow> string option \<Rightarrow> int \<Rightarrow> (string \<times> int) option" where
  "parse_args [] fn once = (case fn of None \<Rightarrow> None | Some f \<Rightarrow> Some (f, once))"
| "parse_args (a # as) fn once =
     (if a = [] \<or> hd a \<noteq> CHR ''-'' then (if fn \<noteq> None then None else parse_args as (Some a) once)
      else if a = ''-1'' then parse_args as fn 1
      else None)"

text \<open>Is it a beacon from a link-local address? A message from elsewhere is reported.\<close>

definition beacon :: "int \<Rightarrow> bytes \<Rightarrow> sockaddr_in6 \<Rightarrow> ('w, 'a) nbs_scheme \<Rightarrow> (bool \<times> ('w, 'a) nbs_scheme) option" where
  "beacon r buf ra s =
     (if nat r < 16 then Some (False, s)
      else do {
        a0 \<leftarrow> rd8 0 (sin6_addr ra); a1 \<leftarrow> rd8 1 (sin6_addr ra);
        if a0 \<noteq> 0xFE \<or> a1 \<noteq> 0x80 then Some (False, fprintf ''ignoring non-link-local message\<newline>'' [] s)
        else do {
          magic \<leftarrow> rd32 0 buf; cmd \<leftarrow> rd32 8 buf;
          Some (magic = NB_MAGIC \<and> cmd = NB_ADVERTISE, s) } })"

partial_function (option) main_loop :: "('w, 'x) posix_scheme \<Rightarrow> int \<Rightarrow> string \<Rightarrow> int \<Rightarrow> bytes \<Rightarrow>
    ('w, 'a) nbs_scheme \<Rightarrow> ('w, 'a) nbs_scheme option" where
  "main_loop os fd fn once msgbuf s =
     (case p_recvfrom os fd 4096 (world s) of (r, buf, ra, w) \<Rightarrow>
        if r < 0 then Some (fprintf ''%s: socket read error %d\<newline>'' [PStr (Some (appname s)), PInt (word_of_int r)]
          (s\<lparr>world := w\<rparr>))
        else do {
          (b, s) \<leftarrow> beacon r buf ra (s\<lparr>world := w\<rparr>);
          if \<not> b then main_loop os fd fn once msgbuf s
          else do {
            let s = fprintf ''%s: got beacon from [%s]%d\<newline>'' [PStr (Some (appname s)),
              PStr (Some (p_ntop os (sin6_addr ra))), PInt (ucast (swap16 (sin6_port ra)))] s;
            s \<leftarrow> xfer os ra fn msgbuf (fprintf (''%s: sending '' @ quoted ''%s'' @ ''...\<newline>'')
              [PStr (Some (appname s)), PStr (Some (asc fn @ [0]))] s);
            if once \<noteq> 0 then Some s
            else do { s \<leftarrow> drain os fd s; main_loop os fd fn once msgbuf s } } })"

text \<open>The exit status and the final state.\<close>

definition nbserver_main :: "('w, 'x) posix_scheme \<Rightarrow> string \<Rightarrow> string list \<Rightarrow> bytes \<Rightarrow> ('w, 'a) nbs_scheme \<Rightarrow>
    (int \<times> ('w, 'a) nbs_scheme) option" where
  "nbserver_main os argv0 args msgbuf s =
     (let s = s\<lparr>appname := asc argv0 @ [0]\<rparr> in
      case parse_args args None 0 of None \<Rightarrow> Some (1, usage s)
      | Some (fn, once) \<Rightarrow>
          (let addr = \<lparr>sin6_addr = replicate 16 0, sin6_port = swap16 NB_ADVERT_PORT\<rparr>;
               (fd, w) = p_socket os (world s); s = s\<lparr>world := w\<rparr>
           in if fd < 0 then Some (-1, fprintf ''%s: cannot create socket %d\<newline>''
                [PStr (Some (appname s)), PInt (word_of_int fd)] s)
           else let (r, w) = p_bind os fd addr (p_setsockopt os fd (world s)); s = s\<lparr>world := w\<rparr>;
                    loc = [PStr (Some (appname s)), PStr (Some (p_ntop os (sin6_addr addr))),
                             PInt (ucast (swap16 (sin6_port addr)))]
           in if r < 0 then Some (-1, fprintf ''%s: cannot bind to [%s]%d %d\<newline>'' (loc @ [PInt (word_of_int r)]) s)
           else do {
             s \<leftarrow> main_loop os fd fn once msgbuf (fprintf ''%s: listening on [%s]%d\<newline>'' loc s);
             Some (0, s) }))"

end
