(* ===== verification/Nbserver_Spec.thy ===== *)
theory Nbserver_Spec
  imports Nbserver
begin

unbundle bit_operations_syntax

text \<open>
  What the client program does on a connection that answers as the protocol says: the transfer
  ends, the machine at the other end has the file byte for byte and was told to boot it.
\<close>

section \<open>The message buffer\<close>

text \<open>The buffer \<open>msgbuf\<close> seen as the four words of the header and the rest.\<close>

definition mbuf :: "u32 \<Rightarrow> u32 \<Rightarrow> u32 \<Rightarrow> u32 \<Rightarrow> bytes \<Rightarrow> bytes" where
  "mbuf m k c a e = to_le 4 m @ to_le 4 k @ to_le 4 c @ to_le 4 a @ e"

lemma length_mbuf [simp]: "length (mbuf m k c a e) = 16 + length e"
  by (simp add: mbuf_def)

lemma mbuf_exists:
  assumes "16 \<le> length msg"
  shows "\<exists>m k c a. msg = mbuf m k c a (drop 16 msg)"
proof -
  let ?w = "\<lambda>o'. of_le (take 4 (drop o' msg)) :: u32"
  have w: "to_le 4 (?w o') = take 4 (drop o' msg)" if "o' \<le> 12" for o'
    using that assms by (intro to_le_of_le) auto
  have "take 4 x @ drop 4 x = x" for x :: bytes by simp
  from this [of msg] this [of "drop 4 msg"] this [of "drop 8 msg"] this [of "drop 12 msg"]
  have "msg = take 4 (drop 0 msg) @ take 4 (drop 4 msg) @ take 4 (drop 8 msg) @ take 4 (drop 12 msg) @ drop 16 msg"
    by simp
  then have "msg = mbuf (?w 0) (?w 4) (?w 8) (?w 12) (drop 16 msg)" unfolding mbuf_def using w w [of 0] by simp
  then show ?thesis by blast
qed

lemma mbuf_write:
  "wr32 0 w (mbuf m k c a e) = Some (mbuf w k c a e)" "wr32 4 w (mbuf m k c a e) = Some (mbuf m w c a e)"
  "wr32 8 w (mbuf m k c a e) = Some (mbuf m k w a e)" "wr32 12 w (mbuf m k c a e) = Some (mbuf m k c w e)"
  by (simp_all add: mbuf_def wr32_def wrn_def)

lemma mbuf_read:
  "rd32 4 (mbuf m k c a e) = Some k" "rd32 12 (mbuf m k c a e) = Some a"
  by (simp_all add: mbuf_def rd32_def rdn_def of_le_to_le)

lemma mbuf_data:
  "length b \<le> length e \<Longrightarrow> wrn 16 b (mbuf m k c a e) = Some (mbuf m k c a (b @ drop (length b) e))"
  by (simp add: mbuf_def wrn_def)

lemma mbuf_message: "take (16 + n) (mbuf NB_MAGIC k c a e) = nbmsg k c a @ take n e"
  by (simp add: mbuf_def nbmsg_def)

lemma nbmsg_read:
  "rd32 0 (nbmsg k c a) = Some NB_MAGIC" "rd32 4 (nbmsg k c a) = Some k"
  "rd32 8 (nbmsg k c a) = Some c" "rd32 12 (nbmsg k c a) = Some a"
  by (simp_all add: nbmsg_def rd32_def rdn_def of_le_to_le)

text \<open>
  One message on a network that loses, delays and repeats datagrams: \<open>talk os fd msg k a n again w ok w'\<close>
  says that in the world \<open>w\<close>, with \<open>n\<close> transmissions of \<open>msg\<close> left, the acknowledgement with cookie \<open>k\<close>
  and argument \<open>a\<close> is read at last if \<open>ok\<close>, after old answers and timeouts, and that all
  transmissions time out if not; the world is \<open>w'\<close> then. \<open>again\<close> is the label of \<open>io\<close>.
\<close>

inductive talk :: "('w, 'x) posix_scheme \<Rightarrow> int \<Rightarrow> bytes \<Rightarrow> u32 \<Rightarrow> u32 \<Rightarrow> nat \<Rightarrow> bool \<Rightarrow> 'w \<Rightarrow> bool \<Rightarrow> 'w \<Rightarrow> bool"
  for os fd msg k a where
  send: "p_write os fd msg w = (r, w1) \<Longrightarrow> 0 \<le> r \<Longrightarrow> talk os fd msg k a n True w1 ok w' \<Longrightarrow>
    talk os fd msg k a n False w ok w'"
| acked: "p_read os fd 2048 w = (16, nbmsg k NB_ACK a, w') \<Longrightarrow> talk os fd msg k a n True w True w'"
| old: "p_read os fd 2048 w = (16, nbmsg k' c' a', w1) \<Longrightarrow> k' \<noteq> k \<Longrightarrow> talk os fd msg k a n True w1 ok w' \<Longrightarrow>
    talk os fd msg k a n True w ok w'"
| timeout: "p_read os fd 2048 w = (r, d, w1) \<Longrightarrow> r < 0 \<Longrightarrow> errno os w1 = EAGAIN \<Longrightarrow> 0 < n \<Longrightarrow>
    talk os fd msg k a n False w1 ok w' \<Longrightarrow> talk os fd msg k a (Suc n) True w ok w'"
| gave_up: "p_read os fd 2048 w = (r, d, w1) \<Longrightarrow> r < 0 \<Longrightarrow> errno os w1 = EAGAIN \<Longrightarrow>
    talk os fd msg k a (Suc 0) True w False w1"

text \<open>\<open>io\<close> follows it.\<close>

lemma io_loop_talk:
  assumes "talk os fd (take len msg) k a n again w ok w'" and "rd32 4 msg = Some k" and "rd32 12 msg = Some a"
    and "world s = w"
  shows "\<exists>es. io_loop os fd msg len (int n) again s = Some (if ok then 0 else -1, s\<lparr>world := w', errs := es\<rparr>)"
  using assms(1,4)
proof (induction arbitrary: s rule: talk.induct)
  case (send w r w1 n ok w')
  obtain es where "io_loop os fd msg len (int n) True (s\<lparr>world := w1\<rparr>) =
      Some (if ok then 0 else -1, s\<lparr>world := w1\<rparr>\<lparr>world := w', errs := es\<rparr>)"
    using send.IH [of "s\<lparr>world := w1\<rparr>"] by auto
  then show ?case using send.hyps send.prems by (intro exI [of _ es]) (subst io_loop.simps, simp)
next
  case (acked w w' n)
  then show ?case using assms(2,3)
    by (intro exI [of _ "errs s"]) (subst io_loop.simps, simp add: nbmsg_read)
next
  case (old w k' c' a' w1 n ok w')
  let ?s = "fprintf ''C'' [] (s\<lparr>world := w1\<rparr>)"
  obtain es where "io_loop os fd msg len (int n) True ?s = Some (if ok then 0 else -1, ?s\<lparr>world := w', errs := es\<rparr>)"
    using old.IH [of ?s] by (auto simp: fprintf_def)
  moreover have "io_loop os fd msg len (int n) True s = io_loop os fd msg len (int n) True ?s"
    using old.hyps old.prems assms(2,3) by (subst io_loop.simps) (simp add: nbmsg_read)
  ultimately show ?case by (simp add: fprintf_def) blast
next
  case (timeout w r d w1 n ok w')
  let ?s = "fprintf ''T'' [] (s\<lparr>world := w1\<rparr>)"
  obtain es where "io_loop os fd msg len (int n) False ?s = Some (if ok then 0 else -1, ?s\<lparr>world := w', errs := es\<rparr>)"
    using timeout.IH [of ?s] by (auto simp: fprintf_def)
  moreover have "io_loop os fd msg len (int (Suc n)) True s = io_loop os fd msg len (int n) False ?s"
    using timeout.hyps timeout.prems by (subst io_loop.simps) simp
  ultimately show ?case by (simp add: fprintf_def) blast
next
  case (gave_up w r d w1)
  then have "io_loop os fd msg len (int (Suc 0)) True s =
      Some (-1, fprintf ''\<newline>%s: timed out\<newline>'' [PStr (Some (appname s))] (s\<lparr>world := w1\<rparr>))"
    by (subst io_loop.simps) simp
  then show ?case by (simp add: fprintf_def) blast
qed

lemma io_talk:
  assumes "talk os fd (nbmsg (nbs_cookie s) c a @ take n e) (nbs_cookie s) a 5 False (world s) ok w'"
  shows "\<exists>es. io os fd (mbuf m k c a e) (16 + n) s =
    Some (if ok then 0 else -1, mbuf NB_MAGIC (nbs_cookie s) c a e,
      s\<lparr>world := w', nbs_cookie := nbs_cookie s + 1, errs := es\<rparr>)"
proof -
  let ?s = "s\<lparr>nbs_cookie := nbs_cookie s + 1\<rparr>" and ?m = "mbuf NB_MAGIC (nbs_cookie s) c a e"
  obtain es where "io_loop os fd ?m (16 + n) (int 5) False ?s = Some (if ok then 0 else -1, ?s\<lparr>world := w', errs := es\<rparr>)"
    using io_loop_talk [of os fd "16 + n" ?m "nbs_cookie s" a 5 False "world s" ok w' ?s] assms
    by (auto simp: mbuf_message mbuf_read)
  then show ?thesis by (intro exI [of _ es]) (cases s, simp add: io_def mbuf_write)
qed

section \<open>A silent connection\<close>

text \<open>When every read times out, a message is sent \<open>retries\<close> times and given up.\<close>

lemma io_loop_silent:
  assumes w: "\<And>w. \<exists>r. p_write os fd (take len msg) w = (r, wr w) \<and> 0 \<le> r"
    and r: "\<And>w. \<exists>r b. p_read os fd 2048 w = (r, b, rd w) \<and> r < 0 \<and> errno os (rd w) = EAGAIN"
    and "0 < n"
  shows "\<exists>es. io_loop os fd msg len (int n) False s = Some (-1, s\<lparr>world := ((\<lambda>w. rd (wr w)) ^^ n) (world s), errs := es\<rparr>)"
  using assms(3)
proof (induction n arbitrary: s)
  case 0
  then show ?case by simp
next
  case (Suc n)
  obtain r1 where a: "p_write os fd (take len msg) (world s) = (r1, wr (world s))" "0 \<le> r1" using w by blast
  let ?w = "rd (wr (world s))"
  obtain r2 b where d: "p_read os fd 2048 (wr (world s)) = (r2, b, ?w)" "r2 < 0" "errno os ?w = EAGAIN" using r by blast
  have once: "io_loop os fd msg len (int (Suc n)) False s = io_loop os fd msg len (int (Suc n)) True (s\<lparr>world := wr (world s)\<rparr>)"
    using a by (subst io_loop.simps) simp
  show ?case
  proof (cases "n = 0")
    case True
    then have "io_loop os fd msg len (int (Suc n)) True (s\<lparr>world := wr (world s)\<rparr>) =
        Some (-1, fprintf ''\<newline>%s: timed out\<newline>'' [PStr (Some (appname s))] (s\<lparr>world := ?w\<rparr>))"
      using d by (subst io_loop.simps) simp
    then show ?thesis using once True by (simp add: fprintf_def) blast
  next
    case False
    let ?s = "fprintf ''T'' [] (s\<lparr>world := ?w\<rparr>)"
    have "io_loop os fd msg len (int (Suc n)) True (s\<lparr>world := wr (world s)\<rparr>) = io_loop os fd msg len (int n) False ?s"
      using d False by (subst io_loop.simps) simp
    moreover obtain es where "io_loop os fd msg len (int n) False ?s = Some (-1, ?s\<lparr>world := ((\<lambda>w. rd (wr w)) ^^ n) (world ?s), errs := es\<rparr>)"
      using Suc.IH [of ?s] False by blast
    moreover have "((\<lambda>w. rd (wr w)) ^^ n) ?w = ((\<lambda>w. rd (wr w)) ^^ Suc n) (world s)" using funpow_swap1 [of "\<lambda>w. rd (wr w)" n "world s"] by simp
    ultimately show ?thesis using once
      by (intro exI [of _ es]) (simp add: fprintf_def del: funpow.simps)
  qed
qed

section \<open>Draining and arguments\<close>

text \<open>Draining ends when the socket holds finitely many datagrams.\<close>

lemma drain_loop_ends:
  assumes "\<And>w r b w'. p_read os fd 4096 w = (r, b, w') \<Longrightarrow> 0 < r \<Longrightarrow> pending w' < (pending w :: nat)"
  shows "\<exists>w0 r b w'. drain_loop os fd w = Some w' \<and> p_read os fd 4096 w0 = (r, b, w') \<and> r \<le> 0"
proof (induction "pending w" arbitrary: w rule: less_induct)
  case less
  obtain r b w' where a: "p_read os fd 4096 w = (r, b, w')" by (metis prod_cases3)
  show ?case
  proof (cases "0 < r")
    case True
    then have "drain_loop os fd w = drain_loop os fd w'" using a by (subst drain_loop.simps) simp
    then show ?thesis using less [OF assms [OF a True]] by metis
  next
    case False
    then have "drain_loop os fd w = Some w'" using a by (subst drain_loop.simps) simp
    then show ?thesis using a False by (metis not_less)
  qed
qed

abbreviation (input) is_option :: "string \<Rightarrow> bool" where "is_option a \<equiv> a \<noteq> [] \<and> hd a = CHR ''-''"

text \<open>What the command line means: exactly one file name, and no option but \<open>-1\<close>.\<close>

lemma parse_args_gen:
  "parse_args args fn once =
     (let names = (case fn of None \<Rightarrow> [] | Some f \<Rightarrow> [f]) @ filter (\<lambda>a. \<not> is_option a) args in
      if (\<forall>a\<in>set args. is_option a \<longrightarrow> a = ''-1'') \<and> length names = 1
      then Some (hd names, if ''-1'' \<in> set args then 1 else once) else None)"
proof (induction args arbitrary: fn once)
  case Nil
  then show ?case by (cases fn) simp_all
next
  case (Cons a as)
  consider "\<not> is_option a" | "a = ''-1''" | "is_option a" "a \<noteq> ''-1''" by blast
  then show ?case
  proof cases
    case 1
    then have "a \<noteq> ''-1''" by auto
    then show ?thesis using 1 Cons.IH by (cases fn) (auto simp: Let_def)
  next
    case 2
    then show ?thesis using Cons.IH [of fn 1] by (auto simp: Let_def)
  next
    case 3
    then show ?thesis by (auto simp: Let_def)
  qed
qed

section \<open>Opening the file\<close>

text \<open>When the first message is acknowledged, the blocks are sent, then the order to boot.\<close>

lemma xfer_socket_opened:
  assumes op: "talk os fd (nbmsg (nbs_cookie s) NB_SEND_FILE 0 @ asc ''kernel.bin'' @ [0]) (nbs_cookie s) 0 5 False (world s) True w1"
    and msg: "length msg = 2048"
  shows "\<exists>e es. length e = 2032 \<and> xfer_socket os fd fp fn msg s =
     do { (m, s) \<leftarrow> xfer_loop os fd fp fn (mbuf NB_MAGIC (nbs_cookie s) NB_DATA 0 e) 0
            (s\<lparr>world := w1, nbs_cookie := nbs_cookie s + 1, errs := es\<rparr>);
          (case m of None \<Rightarrow> Some s
           | Some msg \<Rightarrow> do {
               msg \<leftarrow> wr32 8 NB_BOOT msg;
               msg \<leftarrow> wr32 12 0 msg;
               (r, msg, s) \<leftarrow> io os fd msg 16 s;
               Some (if r \<noteq> 0 then fprintf ''\<newline>%s: failed to send boot command\<newline>'' [PStr (Some (appname s))] s
                     else fprintf ''\<newline>%s: sent boot command\<newline>'' [PStr (Some (appname s))] s) }) }"
proof -
  obtain m k c0 a where m: "msg = mbuf m k c0 a (drop 16 msg)" using mbuf_exists [of msg] msg by auto
  define e0 where "e0 = drop 16 msg"
  have m': "msg = mbuf m k c0 a e0" using m by (simp add: e0_def)
  let ?nm = "asc ''kernel.bin'' @ [0]"
  let ?e = "?nm @ drop 11 e0"
  have e: "length ?e = 2032" "take 11 ?e = ?nm" using msg by (simp_all add: e0_def)
  obtain es where io1: "io os fd (mbuf m k NB_SEND_FILE 0 ?e) (16 + 11) s =
      Some (0, mbuf NB_MAGIC (nbs_cookie s) NB_SEND_FILE 0 ?e, s\<lparr>world := w1, nbs_cookie := nbs_cookie s + 1, errs := es\<rparr>)"
    using io_talk [of os fd s NB_SEND_FILE 0 11 ?e True w1 m k] op unfolding e(2) by auto
  have nm: "wrn 16 ?nm (mbuf m k NB_SEND_FILE 0 e0) = Some (mbuf m k NB_SEND_FILE 0 ?e)"
    using mbuf_data [of ?nm e0 m k NB_SEND_FILE 0] msg by (simp add: e0_def)
  show ?thesis
    by (intro exI [of _ ?e] exI [of _ es] conjI e(1)) (use io1 nm in \<open>simp add: xfer_socket_def m' mbuf_write\<close>)
qed

text \<open>A block that is never acknowledged ends the transfer with an error.\<close>

lemma xfer_socket_stops:
  assumes op: "talk os fd (nbmsg (nbs_cookie s) NB_SEND_FILE 0 @ asc ''kernel.bin'' @ [0]) (nbs_cookie s) 0 5 False (world s) True w1"
    and rd: "p_fread os fp 1024 w1 = (blk, w2)" "blk \<noteq> []" "length blk \<le> 1024"
    and un: "talk os fd (nbmsg (nbs_cookie s + 1) NB_DATA 0 @ blk) (nbs_cookie s + 1) 0 5 False w2 False w3"
    and msg: "length msg = 2048"
  shows "\<exists>s'. xfer_socket os fd fp fn msg s = Some s' \<and> world s' = w3 \<and>
    last (errs s') = (''\<newline>%s: error: sending '' @ quoted ''%s'' @ ''\<newline>'', [PStr (Some (appname s)), PStr (Some (asc fn @ [0]))])"
proof -
  obtain e es where x: "length e = 2032" "xfer_socket os fd fp fn msg s =
     do { (m, s) \<leftarrow> xfer_loop os fd fp fn (mbuf NB_MAGIC (nbs_cookie s) NB_DATA 0 e) 0
            (s\<lparr>world := w1, nbs_cookie := nbs_cookie s + 1, errs := es\<rparr>);
          (case m of None \<Rightarrow> Some s
           | Some msg \<Rightarrow> do {
               msg \<leftarrow> wr32 8 NB_BOOT msg;
               msg \<leftarrow> wr32 12 0 msg;
               (r, msg, s) \<leftarrow> io os fd msg 16 s;
               Some (if r \<noteq> 0 then fprintf ''\<newline>%s: failed to send boot command\<newline>'' [PStr (Some (appname s))] s
                     else fprintf ''\<newline>%s: sent boot command\<newline>'' [PStr (Some (appname s))] s) }) }"
    using xfer_socket_opened [OF op msg] by blast
  let ?s = "s\<lparr>world := w2, nbs_cookie := nbs_cookie s + 1, errs := es\<rparr>" and ?e = "blk @ drop (length blk) e"
  have wb: "wrn 16 blk (mbuf NB_MAGIC (nbs_cookie s) NB_DATA 0 e) = Some (mbuf NB_MAGIC (nbs_cookie s) NB_DATA 0 ?e)"
    using rd(3) x(1) by (intro mbuf_data) simp
  obtain es' where io: "io os fd (mbuf NB_MAGIC (nbs_cookie s) NB_DATA 0 ?e) (16 + length blk) ?s =
      Some (-1, mbuf NB_MAGIC (nbs_cookie s + 1) NB_DATA 0 ?e, ?s\<lparr>world := w3, nbs_cookie := nbs_cookie s + 1 + 1, errs := es'\<rparr>)"
    using io_talk [of os fd ?s NB_DATA 0 "length blk" ?e False w3 NB_MAGIC "nbs_cookie s"] un by auto
  have small: "int (length blk) < 32 * 1024" using rd(3) by simp
  show ?thesis
    unfolding x(2) using rd(1,2) wb io small
    by (subst xfer_loop.simps) (cases s, simp add: fprintf_def Let_def)
qed

section \<open>A peer that keeps to the protocol\<close>

text \<open>
  The interface of the connection and the file. \<open>peer w c g\<close> says that in the world \<open>w\<close> the other end
  saw the cookie \<open>c\<close> last and holds the bytes \<open>g\<close> of the kernel if it has opened one, \<open>booted w x\<close>
  that it went on to boot \<open>x\<close>; \<open>left w\<close> is what is still unread of the file, \<open>k0\<close> the cookie of the
  message that opens it. Every message but the last is answered; a machine that boots may do so
  without an answer that arrives.
\<close>

locale netboot_peer =
  fixes os :: "('w, 'x) posix_scheme" and fd :: int and fp :: u64 and k0 :: u32
    and peer :: "'w \<Rightarrow> u32 \<Rightarrow> bytes option \<Rightarrow> bool" and booted :: "'w \<Rightarrow> bytes \<Rightarrow> bool"
    and bootable :: "bytes \<Rightarrow> bool" and left :: "'w \<Rightarrow> bytes" and cap :: nat
  assumes open_law: "peer w c g \<Longrightarrow> k0 \<noteq> c \<Longrightarrow>
      \<exists>w'. talk os fd (nbmsg k0 NB_SEND_FILE 0 @ asc ''kernel.bin'' @ [0]) k0 0 5 False w True w' \<and>
        peer w' k0 (Some []) \<and> left w' = left w"
    and data_law: "peer w c (Some got) \<Longrightarrow> blk \<noteq> [] \<Longrightarrow> length blk \<le> 1024 \<Longrightarrow> length got + length blk \<le> cap \<Longrightarrow>
      \<exists>w'. talk os fd (nbmsg (c + 1) NB_DATA (of_nat (length got)) @ blk) (c + 1) (of_nat (length got)) 5 False w True w' \<and>
        peer w' (c + 1) (Some (got @ blk)) \<and> left w' = left w"
    and boot_law: "peer w c (Some got) \<Longrightarrow> bootable got \<Longrightarrow>
      \<exists>ok w'. talk os fd (nbmsg (c + 1) NB_BOOT 0) (c + 1) 0 5 False w ok w' \<and> booted w' got"
    and fread_law: "\<exists>w'. p_fread os fp 1024 w = (take 1024 (left w), w') \<and> left w' = drop 1024 (left w) \<and>
        (\<forall>c g. peer w c g \<longrightarrow> peer w' c g) \<and> \<not> p_ferror os fp w'"
begin

lemma xfer_loop_delivers:
  assumes "peer (world s) c (Some g)" and "nbs_cookie s = c + 1" and "length g + length (left (world s)) \<le> cap"
    and "length e = 2032"
  shows "\<exists>m' k' a' e' s' c'. xfer_loop os fd fp fn (mbuf m k NB_DATA (of_nat (length g)) e) n s =
      Some (Some (mbuf m' k' NB_DATA a' e'), s') \<and> length e' = 2032 \<and>
    peer (world s') c' (Some (g @ left (world s))) \<and> nbs_cookie s' = c' + 1"
  using assms
proof (induction "length (left (world s))" arbitrary: s c g e m k n rule: less_induct)
  case less
  let ?blk = "take 1024 (left (world s))"
  obtain w1 where f: "p_fread os fp 1024 (world s) = (?blk, w1)" "left w1 = drop 1024 (left (world s))"
      "\<forall>c g. peer (world s) c g \<longrightarrow> peer w1 c g" "\<not> p_ferror os fp w1"
    using fread_law by blast
  show ?case
  proof (cases "left (world s) = []")
    case True
    have "xfer_loop os fd fp fn (mbuf m k NB_DATA (of_nat (length g)) e) n s =
        Some (Some (mbuf m k NB_DATA (of_nat (length g)) e), s\<lparr>world := w1\<rparr>)"
      using f True by (subst xfer_loop.simps) simp
    moreover have "peer w1 c (Some g)" using f(3) less.prems(1) by blast
    ultimately show ?thesis using True less.prems(2,4) by fastforce
  next
    case False
    let ?e = "?blk @ drop (length ?blk) e" and ?a = "of_nat (length g) :: u32"
    have lb: "?blk \<noteq> []" "length ?blk \<le> 1024" "length ?e = 2032" using less.prems(4) False by auto
    define n' where "n' = n + int (length ?blk)"
    define s1 where "s1 = (if 32 * 1024 \<le> n' then fprintf ''#'' [] (s\<lparr>world := w1\<rparr>) else s\<lparr>world := w1\<rparr>)"
    have s1: "world s1 = w1" "nbs_cookie s1 = c + 1" using less.prems(2) by (simp_all add: s1_def fprintf_def)
    have p1: "peer (world s1) c (Some g)" using f(3) less.prems(1) s1 by blast
    have le: "length g + length ?blk \<le> cap" using less.prems(3) by simp
    obtain w3 where d: "talk os fd (nbmsg (c + 1) NB_DATA ?a @ ?blk) (c + 1) ?a 5 False (world s1) True w3"
        "peer w3 (c + 1) (Some (g @ ?blk))" "left w3 = left (world s1)"
      using data_law [OF p1 lb(1,2) le] by blast
    have tk: "take (length x) (x @ y) = x" for x y :: bytes by simp
    obtain es where io: "io os fd (mbuf m k NB_DATA ?a ?e) (16 + length ?blk) s1 =
        Some (0, mbuf NB_MAGIC (c + 1) NB_DATA ?a ?e, s1\<lparr>world := w3, nbs_cookie := c + 1 + 1, errs := es\<rparr>)"
      using io_talk [of os fd s1 NB_DATA ?a "length ?blk" ?e True w3 m k] d(1) unfolding tk s1(2) by auto
    let ?s = "s1\<lparr>world := w3, nbs_cookie := c + 1 + 1, errs := es\<rparr>"
    have wb: "wrn 16 ?blk (mbuf m k NB_DATA ?a e) = Some (mbuf m k NB_DATA ?a ?e)"
      using lb(2) less.prems(4) by (intro mbuf_data) simp
    have a: "?a + of_nat (length ?blk) = of_nat (length (g @ ?blk))" by simp
    have step: "xfer_loop os fd fp fn (mbuf m k NB_DATA ?a e) n s =
        xfer_loop os fd fp fn (mbuf NB_MAGIC (c + 1) NB_DATA (of_nat (length (g @ ?blk))) ?e)
          (if n' \<ge> 32 * 1024 then 0 else n') ?s"
      unfolding xfer_loop.simps [of os fd fp fn "mbuf m k NB_DATA ?a e"] f(1) prod.case if_not_P [OF lb(1)] wb
        Option.bind.simps Let_def n'_def [symmetric] s1_def [symmetric] io
      by (simp only: prod.case Option.bind.simps mbuf_read mbuf_write a if_False simp_thms)
    have "length (left (world ?s)) < length (left (world s))" using d(3) s1(1) f(2) False by simp
    moreover have "length (g @ ?blk) + length (left (world ?s)) \<le> cap"
      using less.prems(3) d(3) s1(1) f(2) by simp
    moreover have "peer (world ?s) (c + 1) (Some (g @ ?blk))" "nbs_cookie ?s = c + 1 + 1" using d(2) by simp_all
    moreover have "(g @ ?blk) @ left (world ?s) = g @ left (world s)" using d(3) s1(1) f(2) by simp
    ultimately show ?thesis
      using less.hyps [of ?s "c + 1" "g @ ?blk" ?e NB_MAGIC "c + 1"] lb(3) unfolding step by metis
  qed
qed

text \<open>The three phases.\<close>

lemma xfer_socket_boots:
  assumes p: "peer (world s) c g" and new: "nbs_cookie s = k0" "k0 \<noteq> c" and len: "length (left (world s)) \<le> cap"
    and boot: "bootable (left (world s))" and msg: "length msg = 2048"
  shows "\<exists>s'. xfer_socket os fd fp fn msg s = Some s' \<and> booted (world s') (left (world s))"
proof -
  obtain w2 where o: "talk os fd (nbmsg k0 NB_SEND_FILE 0 @ asc ''kernel.bin'' @ [0]) k0 0 5 False (world s) True w2"
      "peer w2 k0 (Some [])" "left w2 = left (world s)"
    using open_law [OF p new(2)] by blast
  obtain e es1 where e: "length e = 2032" "xfer_socket os fd fp fn msg s =
     do { (m, s) \<leftarrow> xfer_loop os fd fp fn (mbuf NB_MAGIC k0 NB_DATA 0 e) 0 (s\<lparr>world := w2, nbs_cookie := k0 + 1, errs := es1\<rparr>);
          (case m of None \<Rightarrow> Some s
           | Some msg \<Rightarrow> do {
               msg \<leftarrow> wr32 8 NB_BOOT msg;
               msg \<leftarrow> wr32 12 0 msg;
               (r, msg, s) \<leftarrow> io os fd msg 16 s;
               Some (if r \<noteq> 0 then fprintf ''\<newline>%s: failed to send boot command\<newline>'' [PStr (Some (appname s))] s
                     else fprintf ''\<newline>%s: sent boot command\<newline>'' [PStr (Some (appname s))] s) }) }"
    using xfer_socket_opened [of os fd s w2 msg fp fn] o(1) msg unfolding new(1) by blast
  let ?s1 = "s\<lparr>world := w2, nbs_cookie := k0 + 1, errs := es1\<rparr>"
  obtain m' k' a' e' s2 c2 where x: "xfer_loop os fd fp fn (mbuf NB_MAGIC k0 NB_DATA (of_nat (length ([] :: bytes))) e) 0 ?s1 =
      Some (Some (mbuf m' k' NB_DATA a' e'), s2)" "length e' = 2032"
      "peer (world s2) c2 (Some ([] @ left (world ?s1)))" "nbs_cookie s2 = c2 + 1"
    using xfer_loop_delivers [of ?s1 k0 "[]" e] o(2,3) len e(1) by fastforce
  have "bootable ([] @ left (world ?s1))" using boot o(3) by simp
  then obtain ok w4 where bt: "talk os fd (nbmsg (c2 + 1) NB_BOOT 0) (c2 + 1) 0 5 False (world s2) ok w4"
      "booted w4 ([] @ left (world ?s1))"
    using boot_law [OF x(3)] by blast
  obtain es3 where io3: "io os fd (mbuf m' k' NB_BOOT 0 e') 16 s2 =
      Some (if ok then 0 else -1, mbuf NB_MAGIC (c2 + 1) NB_BOOT 0 e', s2\<lparr>world := w4, nbs_cookie := c2 + 1 + 1, errs := es3\<rparr>)"
    using io_talk [of os fd s2 NB_BOOT 0 0 e' ok w4 m' k'] bt(1) unfolding x(4) by auto
  let ?s3 = "s2\<lparr>world := w4, nbs_cookie := c2 + 1 + 1, errs := es3\<rparr>"
  have "xfer_socket os fd fp fn msg s =
      Some (if ok then fprintf ''\<newline>%s: sent boot command\<newline>'' [PStr (Some (appname ?s3))] ?s3
            else fprintf ''\<newline>%s: failed to send boot command\<newline>'' [PStr (Some (appname ?s3))] ?s3)"
    unfolding e(2) using x(1) io3 by (simp add: mbuf_write)
  then show ?thesis using bt(2) o(3) by (cases ok) (simp_all add: fprintf_def)
qed

end

end
