(* ===== verification/Link.thy ===== *)
theory Link
  imports Nbserver_Spec Boot_Examples
begin

unbundle bit_operations_syntax

text \<open>
  The two ends of the protocol joined: the client program \<^verbatim>\<open>src/nbserver.c\<close> runs over a
  network at whose other end the boot loader \<^verbatim>\<open>src/osboot.c\<close> runs its server loop, down to the
  IPv6 stack and the Ethernet driver. A datagram the client writes is framed and waits in the interface
  when the machine does its next round; what the machine transmits is what the client reads. The
  network may lose a request or an answer, deliver an answer late and a request twice.
\<close>

section \<open>The machine\<close>

text \<open>Its firmware: the network of the examples, a timer that runs out whenever \<open>t\<close> says so, and
  boot services that grant memory; the kernel gets the address it asks for.\<close>

definition link_fw :: "(ex_st \<Rightarrow> bool) \<Rightarrow> ex_st boot_fw" where
  "link_fw t = boot_of (ex_fw\<lparr>CheckEvent := \<lambda>e f. (if t f then 0 else 6, f),
     AllocatePages := \<lambda>k ty n a f.
       if k = AllocateAddress then (if a = 0x100000 \<and> unat n \<le> 2097152 then (0, a, f) else (9, 0, f))
       else if unat n \<le> 65536 then (0, if a = 0xFF000 then 0x90000 else 0x1000000, f) else (9, 0, f)\<rparr>)"

lemma link_fw_net [simp]:
  "Transmit (link_fw t) = Transmit ex_fw" "GetStatus (link_fw t) = GetStatus ex_fw" "Receive (link_fw t) = Receive ex_fw"
  "SetTimer (link_fw t) = SetTimer ex_fw" "CheckEvent (link_fw t) = (\<lambda>e f. (if t f then 0 else 6, f))"
  "Shutdown (link_fw t) = Shutdown ex_fw" "Stop (link_fw t) = Stop ex_fw" "CloseEvent (link_fw t) = CloseEvent ex_fw"
  "AllocatePages (link_fw t) = (\<lambda>k ty n a f.
     if k = AllocateAddress then (if a = 0x100000 \<and> unat n \<le> 2097152 then (0, a, f) else (9, 0, f))
     else if unat n \<le> 65536 then (0, if a = 0xFF000 then 0x90000 else 0x1000000, f) else (9, 0, f))"
  "Mode (link_fw t) = Mode ex_fw" "Start (link_fw t) = Start ex_fw" "Initialize (link_fw t) = Initialize ex_fw"
  "ReceiveFilters (link_fw t) = ReceiveFilters ex_fw" "CreateEvent (link_fw t) = CreateEvent ex_fw"
  "LocateHandle (link_fw t) = LocateHandle ex_fw" "OpenSNP (link_fw t) = OpenSNP ex_fw"
  by (simp_all add: link_fw_def boot_of_defs)

lemma link_contracts: "tx_contract (link_fw t) ex_inflight" "rx_contract (link_fw t)" "open_contract (link_fw t) ex_inflight"
proof -
  show "open_contract (link_fw t) ex_inflight"
    unfolding open_contract_def by (auto simp: ex_fw_def ex_mode_def split: if_splits)
qed (use ex_tx ex_rx in \<open>simp_all add: tx_contract_def rx_contract_def\<close>)

text \<open>The machine runs its server loop until a boot attempt ended. What is outside the networking
  layers and does not change when a message passes them:\<close>

datatype target = Running "ex_st osboot" | Ended "ex_st osboot boot_end"

definition proto :: "ex_st osboot \<Rightarrow> nbfile_id option \<times> (nbfile_id \<Rightarrow> nbfile) \<times> int \<times> int \<times> u32 \<times> u32 \<times> u32 \<times> u32 \<times>
    \<lparr>e820table :: e820entry list, gop :: u64\<rparr>" where
  "proto s = (item s, nb_files s, nb_boot_now s, nb_online s, last_cookie s, last_cmd s, last_ack_cmd s, last_ack_arg s,
     netboot.more s)"

lemma proto_more: "inet6.more s' = inet6.more s \<Longrightarrow> proto s' = proto s"
  by (cases s; cases s') (simp add: proto_def)

lemma proto_upd [simp]:
  "proto (s\<lparr>fw := f\<rparr>) = proto s" "proto (s\<lparr>nb_active := b\<rparr>) = proto s" "proto (s\<lparr>nb_fastcount := n\<rparr>) = proto s"
  "proto (s\<lparr>last_arg := a\<rparr>) = proto s" "proto (printf fmt args s) = proto s"
  by (simp_all add: proto_def printf_def)

abbreviation (input) ex_port :: u16 where "ex_port \<equiv> 40000"

text \<open>The frame the client's operating system makes of a datagram to the machine, and which frames of
  the machine are answers to the client.\<close>

definition to_host :: "ex_st osboot \<Rightarrow> bytes \<Rightarrow> bytes" where
  "to_host s msg = udp6_frame (ll_mac_addr s) ex_peer_mac ex_peer (ll_ip6_addr s) ex_port NB_SERVER_PORT msg"

definition dst_port :: "bytes \<Rightarrow> bytes" where
  "dst_port d = take 2 (drop 56 d)"

definition answers :: "bytes list \<Rightarrow> bytes list" where
  "answers ds = map (drop 62) (filter (\<lambda>d. dst_port d = be16 ex_port) ds)"

lemma answers_simps [simp]: "answers [] = []" "answers (ds @ es) = answers ds @ answers es"
  by (simp_all add: answers_def)

lemma udp6_frame_parts:
  assumes "length dmac = 6" "length smac = 6" "length src = 16" "length dst = 16"
  shows "drop 62 (udp6_frame dmac smac src dst sport dport data) = data"
    and "dst_port (udp6_frame dmac smac src dst sport dport data) = be16 dport"
  using assms by (simp_all add: udp6_frame_def udp6_segment_def eth_ip6_header_def dst_port_def be16_def)

text \<open>Invariant, and a buffer to send with.\<close>

definition up :: "(ex_st \<Rightarrow> bool) \<Rightarrow> u64 set \<Rightarrow> ex_st osboot \<Rightarrow> bool" where
  "up t A s = (nb_good (link_fw t) ex_inflight A s \<and> A \<noteq> {})"

lemma up_more:
  assumes "up t A s" and "stack_ok (link_fw t) ex_inflight A s'" and "inet6.more s' = inet6.more s"
  shows "up t A s'"
  using assms files_ok_more [OF assms(3)] by (simp add: up_def nb_good_def)

lemma up_fw: "up t A s \<Longrightarrow> ex_inflight f = ex_inflight (fw s) \<Longrightarrow> up t A (s\<lparr>fw := f\<rparr>)"
  by (simp add: up_def good_fw)

section \<open>One datagram in, one out\<close>

lemma ex_buffers:
  assumes "up t A s" and "owned (fw s) = []"
  shows "eth_buffers s \<noteq> NULL"
proof -
  obtain as where as: "pool s A as" "set as = A"
    using assms by (auto simp: up_def nb_good_def stack_ok_def drv_idle_def accounted_def ex_inflight_def)
  then have "as \<noteq> []" "chain (buffer_heap s) (eth_buffers s) as" using assms(1) by (auto simp: pool_def up_def)
  then show ?thesis by (cases as) auto
qed

text \<open>A poll takes back a buffer first, so that one is free afterwards.\<close>

lemma status_frees:
  assumes ok: "up t A s"
  shows "\<exists>tx f s1. GetStatus ex_fw (fw s) = (0, 1, tx, f) \<and>
    (if tx \<noteq> NULL then eth_put_buffer tx (s\<lparr>fw := f\<rparr>) else Some (s\<lparr>fw := f\<rparr>)) = Some s1 \<and>
    up t A s1 \<and> inet6.more s1 = inet6.more s \<and> untouched s1 = untouched s \<and> eth_buffers s1 \<noteq> NULL \<and>
    sent (fw s1) = sent (fw s) \<and> inbox (fw s1) = inbox (fw s)"
proof -
  have st: "stack_ok (link_fw t) ex_inflight A s" using ok by (simp add: up_def nb_good_def)
  obtain tx f where g: "GetStatus ex_fw (fw s) = (0, 1, tx, f)" "sent f = sent (fw s)" "inbox f = inbox (fw s)"
      "tx = NULL \<longrightarrow> owned (fw s) = [] \<and> f = fw s"
  proof (cases "owned (fw s)")
    case Nil
    then show ?thesis by (intro that [of 0 "fw s"]) (simp_all add: ex_fw_def)
  next
    case (Cons p ps)
    have "buf_base p \<in> ex_inflight (fw s)" using Cons by (simp add: ex_inflight_def)
    moreover obtain as where "pool s A as" "ex_inflight (fw s) \<union> set as = A"
      using st by (auto simp: stack_ok_def drv_idle_def accounted_def)
    ultimately have "buf_base p \<in> dom (buffer_heap s)" "slots_ok (buffer_heap s)" by (auto simp: pool_def)
    then have "buf_base p \<noteq> 0" by (auto simp: slots_ok_def)
    then have "p \<noteq> 0" by (auto simp: buf_base_def)
    then show ?thesis using Cons
      by (intro that [of p "(fw s)\<lparr>owned := filter (\<lambda>q. buf_base q \<noteq> buf_base p) ps\<rparr>"]) (simp_all add: ex_fw_def)
  qed
  obtain s1 where s1: "(if tx \<noteq> NULL then eth_put_buffer tx (s\<lparr>fw := f\<rparr>) else Some (s\<lparr>fw := f\<rparr>)) = Some s1"
      "stack_ok (link_fw t) ex_inflight A s1" "inet6.more s1 = inet6.more s" "fw s1 = f" "untouched s1 = untouched s"
    using poll_status [OF st, of 1 tx f] g(1) by auto
  have u: "up t A s1" using up_more [OF ok s1(2,3)] .
  have "eth_buffers s1 \<noteq> NULL"
  proof (cases "tx = NULL")
    case True
    then show ?thesis using ex_buffers [OF ok] g(4) s1(1) by auto
  next
    case False
    then obtain b where "buffer_heap s (buf_base tx) = Some b" "eth_buffers s1 = buf_base tx"
      using s1(1) by (auto simp: eth_put_buffer_def Let_def split: bind_splits if_splits)
    moreover have "slots_ok (buffer_heap s)" using st by (auto simp: stack_ok_def drv_idle_def accounted_def pool_def)
    ultimately show ?thesis by (auto simp: slots_ok_def)
  qed
  then show ?thesis using g s1 u by auto
qed

lemma map_nth_pad:
  assumes "length x \<le> n"
  shows "map (\<lambda>i. if i < length x then x ! i else 0) [0..<n] = x @ replicate (n - length x) 0"
  using assms by (intro nth_equalityI) (auto simp: nth_append)

text \<open>The datagram in the interface is handed to the client of the stack.\<close>

lemma poll_frame:
  assumes ok: "up t A s" and msg: "length msg \<le> 1450" and inb: "inbox (fw s) = [to_host s msg]"
  shows "\<exists>d s1. netifc_poll (link_fw t) recv s =
      recv d 62 (length msg) (ll_ip6_addr s) NB_SERVER_PORT ex_peer ex_port s1 \<and>
    length d = 1514 \<and> take (length msg) (drop 62 d) = msg \<and> up t A s1 \<and> eth_buffers s1 \<noteq> NULL \<and>
    sent (fw s1) = sent (fw s) \<and> inet6.more s1 = inet6.more s \<and> next_hop s1 ex_peer = Some ex_peer_mac"
proof -
  have snp: "snp s \<noteq> NULL" using ok by (simp add: up_def nb_good_def stack_ok_def drv_idle_def accounted_def)
  obtain tx f s1 where g: "GetStatus ex_fw (fw s) = (0, 1, tx, f)"
      "(if tx \<noteq> NULL then eth_put_buffer tx (s\<lparr>fw := f\<rparr>) else Some (s\<lparr>fw := f\<rparr>)) = Some s1"
      "up t A s1" "inet6.more s1 = inet6.more s" "untouched s1 = untouched s" "eth_buffers s1 \<noteq> NULL"
      "sent (fw s1) = sent (fw s)" "inbox (fw s1) = inbox (fw s)"
    using status_frees [OF ok] by blast
  note u = untouched_inet6 [OF g(5)]
  let ?f = "to_host s msg" and ?n = "length msg"
  have ad: "addrs_ok s" using ok by (simp add: up_def nb_good_def stack_ok_def)
  then have lens: "length (ll_mac_addr s) = 6" "length ex_peer_mac = 6" "length ex_peer = 16" "length (ll_ip6_addr s) = 16"
    by (simp_all add: addrs_ok_def ex_lens ex_hop)
  have lf: "length ?f = 62 + ?n" using lens by (simp add: to_host_def)
  let ?s2 = "s1\<lparr>fw := (fw s1)\<lparr>inbox := []\<rparr>\<rparr>"
  have ll: "ll_ip6_addr ?s2 = ll_ip6_addr s" using u(4) by simp
  have st2: "up t A ?s2" using up_fw [OF g(3)] by (simp add: ex_inflight_def)
  have rx: "Receive ex_fw 1514 (fw s1) = (0, \<lambda>i. if i < length ?f then ?f ! i else 0, 62 + ?n, (fw s1)\<lparr>inbox := []\<rparr>)"
    using g(8) inb msg lf by (simp add: ex_fw_def)
  have dm: "map (\<lambda>i. if i < length ?f then ?f ! i else 0) [0..<1514] = ?f @ replicate (1514 - (62 + ?n)) 0"
    using map_nth_pad [of ?f 1514] lf msg by simp
  have "netifc_poll (link_fw t) recv s = eth_recv (link_fw t) recv (?f @ replicate (1514 - (62 + ?n)) 0) (62 + ?n) ?s2"
    unfolding netifc_poll_def if_not_P [OF snp] link_fw_net g(1) Let_def prod.case g(2) Option.bind.simps
    by (simp add: rx dm)
  moreover obtain d where d: "length d = length (?f @ replicate (1514 - (62 + ?n)) (0 :: u8))" "take ?n (drop 62 d) = msg"
      "eth_recv (link_fw t) recv (?f @ replicate (1514 - (62 + ?n)) 0) (62 + ?n) ?s2 =
       recv d 62 ?n (ll_ip6_addr s) NB_SERVER_PORT ex_peer ex_port (?s2\<lparr>rx_mac_addr := ex_peer_mac, rx_ip6_addr := ex_peer\<rparr>)"
  proof (rule eth_recv_udp6_frame [OF lens, where data = msg and rest = "replicate (1514 - (62 + ?n)) 0" and flen = "62 + ?n"
        and s = ?s2 and efi = "link_fw t" and recv = recv and sport = ex_port and dport = NB_SERVER_PORT
        and d = "?f @ replicate (1514 - (62 + ?n)) 0"])
    show "addrs_ok ?s2" using st2 by (simp add: up_def nb_good_def stack_ok_def)
  qed (erule (2) that | use msg ll in \<open>simp add: to_host_def\<close>)+
  moreover define s3 where "s3 = ?s2\<lparr>rx_mac_addr := ex_peer_mac, rx_ip6_addr := ex_peer\<rparr>"
  have m: "inet6.more s3 = inet6.more s" using g(4) by (simp add: s3_def)
  have "stack_ok (link_fw t) ex_inflight A s3"
    using st2 lens by (auto simp: s3_def up_def nb_good_def stack_ok_def drv_idle_def accounted_def pool_def addrs_ok_def)
  then have "up t A s3" using up_more [OF ok _ m] by simp
  moreover have "sent (fw s3) = sent (fw s)" "eth_buffers s3 \<noteq> NULL" using g(6,7) by (simp_all add: s3_def)
  moreover have "next_hop s3 ex_peer = Some ex_peer_mac"
    using ll ex_hop(1) by (auto simp: s3_def next_hop_def ex_peer_def ll_addr_def)
  ultimately show ?thesis
    using m lf msg unfolding s3_def [symmetric] by (intro exI [of _ d] exI [of _ s3]) simp
qed

text \<open>Sending: the frame is on the wire if a buffer is free, and nothing is otherwise.\<close>

lemma link_send:
  assumes ok: "up t A s" and dst: "length dst = 16" "next_hop s dst = Some mac" and n: "n \<le> length data" "n \<le> 1452"
  shows "\<exists>r s'. udp6_send (link_fw t) data 0 n dst dport sport s = Some (r, s') \<and> up t A s' \<and>
    inet6.more s' = inet6.more s \<and> inbox (fw s') = inbox (fw s) \<and> to_host s' = to_host s \<and>
    sent (fw s') = sent (fw s) @ (if eth_buffers s \<noteq> NULL
      then [udp6_frame mac (ll_mac_addr s) (ll_ip6_addr s) dst sport dport (take n data)] else [])"
proof -
  have st: "stack_ok (link_fw t) ex_inflight A s" using ok by (simp add: up_def nb_good_def)
  then have "drv_idle (link_fw t) ex_inflight A s" "addrs_ok s" by (simp_all add: stack_ok_def)
  from udp6_send_sent [OF this dst(1), of 0 n data dport sport] n
  obtain r s' where s': "udp6_send (link_fw t) data 0 n dst dport sport s = Some (r, s')"
      "drv_idle (link_fw t) ex_inflight A s'" "untouched s' = untouched s"
      "sent_as (link_fw t) True dst (\<lambda>dmac. udp6_frame dmac (ll_mac_addr s) (ll_ip6_addr s) dst sport dport
         (take n data)) s r (fw s')" by auto
  note fr = drv_idle_frame [OF s'(3,2) st]
  have "inbox (fw s') = inbox (fw s) \<and> sent (fw s') = sent (fw s) @ (if eth_buffers s \<noteq> NULL
      then [udp6_frame mac (ll_mac_addr s) (ll_ip6_addr s) dst sport dport (take n data)] else [])"
    using s'(4) dst(2) by (auto simp: sent_as_def ex_fw_def split: if_splits dest!: sym [of _ "fw s'"])
  then show ?thesis using s'(1) fr up_more [OF ok fr] untouched_inet6 [OF s'(3)] by (auto simp: to_host_def fun_eq_iff)
qed

section \<open>One round\<close>

definition beacon_frame :: "ex_st osboot \<Rightarrow> bytes" where
  "beacon_frame s = udp6_frame ([0x33, 0x33] @ drop 12 ip6_ll_all_nodes) (ll_mac_addr s) (ll_ip6_addr s) ip6_ll_all_nodes
     NB_SERVER_PORT NB_ADVERT_PORT (nbmsg 0 NB_ADVERTISE 0 @ advertise_data)"

lemma beacon_lens:
  assumes "up t A s"
  shows "length ([0x33, 0x33] @ drop 12 ip6_ll_all_nodes) = 6" "length (ll_mac_addr s) = 6" "length (ll_ip6_addr s) = 16"
    "length ip6_ll_all_nodes = 16"
  using assms by (simp_all add: ip6_ll_all_nodes_def up_def nb_good_def stack_ok_def addrs_ok_def)

lemma advertise_wire:
  assumes ok: "up t A s"
  shows "\<exists>s'. advertise (link_fw t) s = Some s' \<and> up t A s' \<and> inet6.more s' = inet6.more s \<and>
    inbox (fw s') = inbox (fw s) \<and> to_host s' = to_host s \<and>
    sent (fw s') = sent (fw s) @ (if eth_buffers s \<noteq> NULL then [beacon_frame s] else [])"
proof -
  have b: "wrn 0 (nbmsg 0 NB_ADVERTISE 0) (replicate 256 0) = Some (nbmsg 0 NB_ADVERTISE 0 @ replicate 240 0)"
    by (simp add: wrn_def)
  have c: "memcpy (nbmsg 0 NB_ADVERTISE 0 @ replicate 240 0) 16 advertise_data 0 43 =
      Some (nbmsg 0 NB_ADVERTISE 0 @ advertise_data @ replicate 197 0)"
    by (simp add: memcpy_slice wrn_def length_advertise_data)
  have h: "length ip6_ll_all_nodes = 16" "next_hop s ip6_ll_all_nodes = Some ([0x33, 0x33] @ drop 12 ip6_ll_all_nodes)"
    by (simp_all add: ip6_ll_all_nodes_def next_hop_def)
  from link_send [OF ok h, of 59 "nbmsg 0 NB_ADVERTISE 0 @ advertise_data @ replicate 197 0" NB_ADVERT_PORT NB_SERVER_PORT]
  show ?thesis using b c by (auto simp: advertise_def length_advertise_data beacon_frame_def)
qed

lemma up_nb [simp]:
  "up t A (s\<lparr>nb_active := b\<rparr>) = up t A s" "up t A (s\<lparr>nb_fastcount := n\<rparr>) = up t A s" "up t A (s\<lparr>nb_boot_now := n\<rparr>) = up t A s"
  "up t A (s\<lparr>nb_online := n\<rparr>) = up t A s" "up t A (printf fmt args s) = up t A s"
  by (simp_all add: up_def)

lemma link_timer [simp]: "netifc_set_timer (link_fw t) ms s = s"
  by (simp add: netifc_set_timer_def ex_fw_def)

text \<open>The timer may send a beacon, but no answer, and what was sent before stays.\<close>

lemma tick_wire:
  assumes ok: "up t A s"
  shows "\<exists>s'. netboot_tick (link_fw t) s = Some s' \<and> up t A s' \<and> proto s' = proto s \<and> inbox (fw s') = inbox (fw s) \<and>
    to_host s' = to_host s \<and> answers (sent (fw s')) = answers (sent (fw s)) \<and> (\<exists>bs. sent (fw s') = sent (fw s) @ bs)"
proof -
  obtain e where e: "netifc_timer_expired (link_fw t) s = (e, s)"
    by (rule that [of "net_timer s \<noteq> NULL \<and> t (fw s)"]) (simp add: netifc_timer_expired_def)
  define s1 where "s1 = (if nb_fastcount s \<noteq> 0 then s\<lparr>nb_fastcount := nb_fastcount s - 1\<rparr> else s)"
  have s1: "up t A s1" "proto s1 = proto s" "fw s1 = fw s" "to_host s1 = to_host s" "nb_active s1 = nb_active s"
    using ok by (auto simp: s1_def to_host_def)
  obtain s2 where s2: "advertise (link_fw t) s1 = Some s2" "up t A s2" "inet6.more s2 = inet6.more s1"
      "inbox (fw s2) = inbox (fw s1)" "to_host s2 = to_host s1"
      "sent (fw s2) = sent (fw s1) @ (if eth_buffers s1 \<noteq> NULL then [beacon_frame s1] else [])"
    using advertise_wire [OF s1(1)] by blast
  have "answers [beacon_frame s1] = []"
    using udp6_frame_parts(2) [OF beacon_lens [OF s1(1)]] by (simp add: answers_def beacon_frame_def be16_def)
  then have a: "answers (sent (fw s2)) = answers (sent (fw s))" using s2(6) s1(3) by auto
  consider "\<not> e" | "e" "nb_active s \<noteq> 0" | "e" "nb_active s = 0" by blast
  then show ?thesis
  proof cases
    case 1
    then show ?thesis using ok e by (simp add: netboot_tick_def)
  next
    case 2
    then have "netboot_tick (link_fw t) s = Some (s1\<lparr>nb_active := 0\<rparr>)"
      using e s1(5) by (simp add: netboot_tick_def s1_def)
    then show ?thesis using s1 by (simp add: to_host_def fun_eq_iff)
  next
    case 3
    then have "netboot_tick (link_fw t) s = Some s2"
      using e s1(5) s2(1) by (simp add: netboot_tick_def s1_def split: if_splits)
    then show ?thesis using s2 s1 a proto_more [OF s2(3)] by simp
  qed
qed

text \<open>The poll of a machine that is on line: the server gets the message.\<close>

lemma poll_message:
  assumes ok: "up t A s" "nb_online s \<noteq> 0" and msg: "length msg \<le> 1450" and inb: "inbox (fw s) = [to_host s msg]"
  shows "\<exists>d s1. netboot_poll (link_fw t) s =
      do { s \<leftarrow> udp6_recv (link_fw t) d 62 (length msg) (ll_ip6_addr s) NB_SERVER_PORT ex_peer ex_port s1;
           if nb_boot_now s \<noteq> 0 then Some (1, s\<lparr>nb_boot_now := 0\<rparr>) else Some (0, s) } \<and>
    length d = 1514 \<and> take (length msg) (drop 62 d) = msg \<and> up t A s1 \<and> eth_buffers s1 \<noteq> NULL \<and> proto s1 = proto s \<and>
    answers (sent (fw s1)) = answers (sent (fw s)) \<and> next_hop s1 ex_peer = Some ex_peer_mac"
proof -
  obtain s0 where s0: "netboot_tick (link_fw t) s = Some s0" "up t A s0" "proto s0 = proto s" "inbox (fw s0) = inbox (fw s)"
      "to_host s0 = to_host s" "answers (sent (fw s0)) = answers (sent (fw s))"
    using tick_wire [OF ok(1)] by blast
  have act: "netifc_active s"
    using ok(1) by (simp add: netifc_active_def up_def nb_good_def stack_ok_def drv_idle_def accounted_def)
  obtain d s1 where p: "netifc_poll (link_fw t) (udp6_recv (link_fw t)) s0 =
      udp6_recv (link_fw t) d 62 (length msg) (ll_ip6_addr s0) NB_SERVER_PORT ex_peer ex_port s1"
      "length d = 1514" "take (length msg) (drop 62 d) = msg" "up t A s1" "eth_buffers s1 \<noteq> NULL"
      "sent (fw s1) = sent (fw s0)" "inet6.more s1 = inet6.more s0" "next_hop s1 ex_peer = Some ex_peer_mac"
    using poll_frame [OF s0(2) msg, of "udp6_recv (link_fw t)"] s0(4,5) inb by auto
  have "udp6_recv (link_fw t) d 62 (length msg) (ll_ip6_addr s0) NB_SERVER_PORT ex_peer ex_port s1 =
      udp6_recv (link_fw t) d 62 (length msg) (ll_ip6_addr s) NB_SERVER_PORT ex_peer ex_port s1"
    by (simp only: udp6_recv_def)
  then have "netboot_poll (link_fw t) s =
      do { s \<leftarrow> udp6_recv (link_fw t) d 62 (length msg) (ll_ip6_addr s) NB_SERVER_PORT ex_peer ex_port s1;
           if nb_boot_now s \<noteq> 0 then Some (1, s\<lparr>nb_boot_now := 0\<rparr>) else Some (0, s) }"
    unfolding netboot_poll_def if_P [OF act] if_not_P [OF ok(2)] Option.bind.simps s0(1) p(1) by simp
  then show ?thesis using p s0 proto_more [OF p(7)] by (intro exI [of _ d] exI [of _ s1]) simp
qed

section \<open>What the server does with a message\<close>

lemma up_last [simp]:
  "up t A (s\<lparr>last_arg := a\<rparr>) = up t A s"
  "up t A (s\<lparr>last_cookie := k, last_cmd := c, last_arg := a, last_ack_cmd := ac, last_ack_arg := aa\<rparr>) = up t A s"
  by (simp_all add: up_def nb_good_def)

lemma next_hop_nb [simp]:
  fixes s :: "('f, 'a) netboot_scheme"
  shows "next_hop (s\<lparr>nb_active := b\<rparr>) = next_hop s" "next_hop (s\<lparr>last_arg := a\<rparr>) = next_hop s"
    "next_hop (s\<lparr>last_cookie := c, last_cmd := m, last_arg := a, last_ack_cmd := ac, last_ack_arg := aa\<rparr>) = next_hop s"
  by (simp_all add: next_hop_def fun_eq_iff)

text \<open>An answer to the client.\<close>

lemma answer_sent:
  assumes ok: "up t A s" "eth_buffers s \<noteq> NULL" and hop: "next_hop s ex_peer = Some ex_peer_mac"
  shows "\<exists>s'. nb_transmit (link_fw t) (nbmsg k c a) ex_peer ex_port s = Some s' \<and> up t A s' \<and> proto s' = proto s \<and>
    answers (sent (fw s')) = answers (sent (fw s)) @ [nbmsg k c a]"
proof -
  let ?s = "s\<lparr>nb_active := 1\<rparr>"
  let ?F = "udp6_frame ex_peer_mac (ll_mac_addr s) (ll_ip6_addr s) ex_peer NB_SERVER_PORT ex_port (nbmsg k c a)"
  obtain r s' where s': "udp6_send (link_fw t) (nbmsg k c a) 0 16 ex_peer ex_port NB_SERVER_PORT ?s = Some (r, s')"
      "up t A s'" "inet6.more s' = inet6.more ?s" "sent (fw s') = sent (fw s) @ [?F]"
    using link_send [of t A ?s ex_peer ex_peer_mac 16 "nbmsg k c a" ex_port NB_SERVER_PORT] ok hop ex_hop(2) by auto
  have "answers [?F] = [nbmsg k c a]"
    using udp6_frame_parts [of ex_peer_mac "ll_mac_addr s" "ll_ip6_addr s" ex_peer] beacon_lens [OF ok(1)] ex_lens ex_hop(2)
    by (simp add: answers_def)
  then show ?thesis using s' proto_more [OF s'(3)] by (simp add: nb_transmit_def)
qed

text \<open>A command leaves the layers below alone.\<close>

lemma nb_command_lower:
  fixes s :: "('f, 'a) netboot_scheme"
  assumes "nb_command d data len cmd arg s = Some (a, s')"
  shows "fw s' = fw s" "eth_buffers s' = eth_buffers s" "next_hop s' x = next_hop s x"
  using assms
  by (auto simp: nb_command_def Let_def nb_file_upd_def printf_def next_hop_def
      split: if_splits option.splits bind_splits)

lemma packet_of:
  assumes "take (16 + length payload) (drop 62 d) = nbmsg k cmd arg @ payload" and "62 \<le> length d"
  shows "d = nb_packet (take 62 d) k cmd arg payload (drop (78 + length payload) d)"
  using assms append_take_drop_id [of "16 + length payload" "drop 62 d"] append_take_drop_id [of 62 d]
  by (simp add: nb_packet_def add.commute)

text \<open>A message that is not taken for a repeated one runs its command; \<open>R\<close> is what the command does.\<close>

lemma poll_process:
  assumes ok: "up t A s" "nb_online s \<noteq> 0" and len: "length payload \<le> 1434"
    and inb: "inbox (fw s) = [to_host s (nbmsg k cmd arg @ payload)]"
    and new: "\<not> (last_cookie s = k \<and> last_cmd s = cmd \<and> arg \<noteq> 0)"
    and com: "\<forall>s1 d pre rest. proto s1 = proto s \<longrightarrow> up t A s1 \<longrightarrow> length pre = 62 \<longrightarrow>
      d = nb_packet pre k cmd arg payload rest \<longrightarrow> length d = 1514 \<longrightarrow>
      (\<exists>ack s2. nb_command d 78 (length payload) cmd arg s1 = Some (ack, s2) \<and> up t A s2 \<and> R ack s2)"
  shows "\<exists>ack s2 s3. R ack s2 \<and> up t A s3 \<and>
    netboot_poll (link_fw t) s = Some (if nb_boot_now s3 \<noteq> 0 then (1, s3\<lparr>nb_boot_now := 0\<rparr>) else (0, s3)) \<and>
    (case ack of None \<Rightarrow> proto s3 = proto s2 \<and> answers (sent (fw s3)) = answers (sent (fw s))
     | Some (c, a) \<Rightarrow> proto s3 = proto (s2\<lparr>last_cookie := k, last_cmd := cmd, last_arg := arg, last_ack_cmd := c, last_ack_arg := a\<rparr>) \<and>
         answers (sent (fw s3)) = answers (sent (fw s)) @ [nbmsg k c a])"
proof -
  let ?m = "nbmsg k cmd arg @ payload"
  have lm: "length ?m = 16 + length payload" "length ?m \<le> 1450" using len by simp_all
  obtain d s1 where p: "netboot_poll (link_fw t) s =
      do { s \<leftarrow> udp6_recv (link_fw t) d 62 (length ?m) (ll_ip6_addr s) NB_SERVER_PORT ex_peer ex_port s1;
           if nb_boot_now s \<noteq> 0 then Some (1, s\<lparr>nb_boot_now := 0\<rparr>) else Some (0, s) }"
      "length d = 1514" "take (length ?m) (drop 62 d) = ?m" "up t A s1" "eth_buffers s1 \<noteq> NULL" "proto s1 = proto s"
      "answers (sent (fw s1)) = answers (sent (fw s))" "next_hop s1 ex_peer = Some ex_peer_mac"
    using poll_message [OF ok lm(2) inb] by blast
  have pk: "d = nb_packet (take 62 d) k cmd arg payload (drop (78 + length payload) d)"
    using packet_of [of payload d] p(2,3) unfolding lm(1) by simp
  have l62: "length (take 62 d) = 62" using p(2) by simp
  define s1' where "s1' = snd (nb_repeated k cmd arg s1)"
  have s1': "proto s1' = proto s" "up t A s1'" "fw s1' = fw s1" "eth_buffers s1' = eth_buffers s1"
      "next_hop s1' = next_hop s1"
    using p(4,6) by (simp_all add: s1'_def nb_repeated_def)
  have rep: "nb_repeated k cmd arg s1 = (False, s1')"
    using new p(6) by (auto simp: s1'_def nb_repeated_def proto_def)
  obtain ack s2 where s2: "nb_command d 78 (length payload) cmd arg s1' = Some (ack, s2)" "up t A s2" "R ack s2"
    using com [rule_format, OF s1'(1,2) l62 pk p(2)] by blast
  note lo = nb_command_lower [OF s2(1)]
  have run: "udp6_recv (link_fw t) d 62 (length ?m) (ll_ip6_addr s) NB_SERVER_PORT ex_peer ex_port s1 =
      (case ack of None \<Rightarrow> Some s2
       | Some (c, a) \<Rightarrow> nb_transmit (link_fw t) (nbmsg k c a) ex_peer ex_port
           (s2\<lparr>last_cookie := k, last_cmd := cmd, last_arg := arg, last_ack_cmd := c, last_ack_arg := a\<rparr>))"
    unfolding lm(1) using nb_packet_reads(1-3) [OF l62, of k cmd arg payload "drop (78 + length payload) d"] rep s2(1)
    by (simp add: udp6_recv_def pk [symmetric])
  show ?thesis
  proof (cases ack)
    case None
    then show ?thesis using p(1,7) run s2 lo(1) s1'(3)
      by (intro exI [of _ ack] exI [of _ s2] exI [of _ s2]) simp
  next
    case (Some x)
    obtain c a where x: "x = (c, a)" by (cases x)
    let ?s = "s2\<lparr>last_cookie := k, last_cmd := cmd, last_arg := arg, last_ack_cmd := c, last_ack_arg := a\<rparr>"
    obtain s3 where s3: "nb_transmit (link_fw t) (nbmsg k c a) ex_peer ex_port ?s = Some s3" "up t A s3" "proto s3 = proto ?s"
        "answers (sent (fw s3)) = answers (sent (fw s2)) @ [nbmsg k c a]"
      using answer_sent [of t A ?s k c a] s2(2) lo s1'(4,5) p(5,8) by auto
    then show ?thesis using p(1,7) run s2 lo(1) s1'(3) Some x
      by (intro exI [of _ ack] exI [of _ s2] exI [of _ s3]) simp
  qed
qed

text \<open>A message that is taken for a repeated one is answered as the last one was.\<close>

lemma poll_repeated:
  assumes ok: "up t A s" "nb_online s \<noteq> 0" and len: "length payload \<le> 1434"
    and inb: "inbox (fw s) = [to_host s (nbmsg k cmd arg @ payload)]"
    and rep: "last_cookie s = k" "last_cmd s = cmd" "arg \<noteq> 0"
  shows "\<exists>s3. netboot_poll (link_fw t) s = Some (if nb_boot_now s3 \<noteq> 0 then (1, s3\<lparr>nb_boot_now := 0\<rparr>) else (0, s3)) \<and>
    up t A s3 \<and> proto s3 = proto s \<and>
    answers (sent (fw s3)) = answers (sent (fw s)) @ [nbmsg k (last_ack_cmd s) (last_ack_arg s)]"
proof -
  let ?m = "nbmsg k cmd arg @ payload"
  have lm: "length ?m = 16 + length payload" "length ?m \<le> 1450" using len by simp_all
  obtain d s1 where p: "netboot_poll (link_fw t) s =
      do { s \<leftarrow> udp6_recv (link_fw t) d 62 (length ?m) (ll_ip6_addr s) NB_SERVER_PORT ex_peer ex_port s1;
           if nb_boot_now s \<noteq> 0 then Some (1, s\<lparr>nb_boot_now := 0\<rparr>) else Some (0, s) }"
      "length d = 1514" "take (length ?m) (drop 62 d) = ?m" "up t A s1" "eth_buffers s1 \<noteq> NULL" "proto s1 = proto s"
      "answers (sent (fw s1)) = answers (sent (fw s))" "next_hop s1 ex_peer = Some ex_peer_mac"
    using poll_message [OF ok lm(2) inb] by blast
  have pk: "d = nb_packet (take 62 d) k cmd arg payload (drop (78 + length payload) d)"
    using packet_of [of payload d] p(2,3) unfolding lm(1) by simp
  have l62: "length (take 62 d) = 62" using p(2) by simp
  let ?s = "s1\<lparr>last_arg := arg\<rparr>"
  have r: "nb_repeated k cmd arg s1 = (True, ?s)" "last_cookie s1 = k" "last_ack_cmd s1 = last_ack_cmd s" "last_ack_arg s1 = last_ack_arg s"
    using rep p(6) by (auto simp: nb_repeated_def proto_def)
  obtain s3 where s3: "nb_transmit (link_fw t) (nbmsg k (last_ack_cmd s) (last_ack_arg s)) ex_peer ex_port ?s = Some s3"
      "up t A s3" "proto s3 = proto ?s"
      "answers (sent (fw s3)) = answers (sent (fw ?s)) @ [nbmsg k (last_ack_cmd s) (last_ack_arg s)]"
    using answer_sent [of t A ?s k "last_ack_cmd s" "last_ack_arg s"] p(4,5,8) by auto
  have "udp6_recv (link_fw t) d 62 (length ?m) (ll_ip6_addr s) NB_SERVER_PORT ex_peer ex_port s1 = Some s3"
    unfolding lm(1) using nb_packet_reads(1-3) [OF l62, of k cmd arg payload "drop (78 + length payload) d"] r s3(1)
    by (simp add: udp6_recv_def pk [symmetric])
  then show ?thesis using p(1,6,7) s3(2-4) by (intro exI [of _ s3]) simp
qed

section \<open>The network\<close>

text \<open>The machine does one round with datagrams of the client in its interface: what it is then, and
  the frames it transmitted.\<close>

fun end_state :: "'s boot_end \<Rightarrow> 's" where
  "end_state (Returned r s) = s"
| "end_state (Started entry zp k s) = s"

fun react :: "(ex_st \<Rightarrow> bool) \<Rightarrow> u64 \<Rightarrow> bytes list \<Rightarrow> target \<Rightarrow> (target \<times> bytes list) option" where
  "react t img msgs (Ended e) = Some (Ended e, [])"
| "react t img msgs (Running s) =
     (case netboot_round (link_fw t) img (s\<lparr>fw := (fw s)\<lparr>inbox := map (to_host s) msgs, sent := []\<rparr>\<rparr>) of
        None \<Rightarrow> None
      | Some (Inl s) \<Rightarrow> Some (Running s, sent (fw s))
      | Some (Inr e) \<Rightarrow> Some (Ended e, sent (fw (end_state e))))"

text \<open>What happens to one transmission of a message, and the world of the client: the machine, the
  file, the faults to come for the transmissions of each message (by its cookie), the datagrams that
  arrived and those still under way, the beacons that arrived, and the number of sockets.\<close>

datatype fault = Lost_Request | Lost_Answer | Late_Answer | Duplicated

record link =
  target :: target
  unread :: bytes
  faults :: "u32 \<Rightarrow> fault list"
  inbound :: "bytes list"
  late :: "bytes list"
  beacons :: "bytes list"
  sockets :: nat

definition arrive :: "bytes list \<Rightarrow> bytes list \<Rightarrow> bytes list \<Rightarrow> link \<Rightarrow> link" where
  "arrive now later out w = w\<lparr>inbound := inbound w @ late w @ now, late := later,
     beacons := beacons w @ filter (\<lambda>d. dst_port d = be16 NB_ADVERT_PORT) out\<rparr>"

definition link_write :: "(ex_st \<Rightarrow> bool) \<Rightarrow> u64 \<Rightarrow> int \<Rightarrow> bytes \<Rightarrow> link \<Rightarrow> int \<times> link" where
  "link_write t img fd msg w =
     (case rd32 4 msg of None \<Rightarrow> (-1, w)
      | Some k \<Rightarrow>
          let f = (case faults w k of [] \<Rightarrow> None | f # fs \<Rightarrow> Some f);
              w = w\<lparr>faults := (faults w)(k := tl (faults w k))\<rparr>
          in if f = Some Lost_Request then (int (length msg), arrive [] [] [] w)
          else case react t img [msg] (target w) of None \<Rightarrow> (-1, w)
          | Some (m, out) \<Rightarrow>
              let w = w\<lparr>target := m\<rparr>
              in case f of None \<Rightarrow> (int (length msg), arrive (answers out) [] out w)
              | Some Late_Answer \<Rightarrow> (int (length msg), arrive [] (answers out) out w)
              | Some Duplicated \<Rightarrow>
                  (case react t img [msg] m of None \<Rightarrow> (-1, w)
                   | Some (m', out') \<Rightarrow> (int (length msg), arrive (answers out @ answers out') [] (out @ out') (w\<lparr>target := m'\<rparr>)))
              | Some _ \<Rightarrow> (int (length msg), arrive [] [] out w))"

definition link_recvfrom :: "int \<Rightarrow> nat \<Rightarrow> link \<Rightarrow> int \<times> bytes \<times> sockaddr_in6 \<times> link" where
  "link_recvfrom fd n w =
     (case beacons w of [] \<Rightarrow> (-1, [], \<lparr>sin6_addr = [], sin6_port = 0\<rparr>, w)
      | d # ds \<Rightarrow> (int (length d - 62), drop 62 d,
          \<lparr>sin6_addr = take 16 (drop 22 d), sin6_port = of_le (take 2 (drop 54 d))\<rparr>, w\<lparr>beacons := ds\<rparr>))"

text \<open>The first socket, 3, is the one for beacons.\<close>

definition link_read :: "int \<Rightarrow> nat \<Rightarrow> link \<Rightarrow> int \<times> bytes \<times> link" where
  "link_read fd n w =
     (if fd = 3 then (case link_recvfrom fd n w of (r, b, a, w) \<Rightarrow> (r, b, w))
      else case inbound w of [] \<Rightarrow> (-1, [], w) | d # ds \<Rightarrow> (int (length d), d, w\<lparr>inbound := ds\<rparr>))"

definition link_os :: "(ex_st \<Rightarrow> bool) \<Rightarrow> u64 \<Rightarrow> link posix" where
  "link_os t img = \<lparr>
     p_write = link_write t img,
     p_read = link_read,
     errno = (\<lambda>w. 11),
     p_fopen = (\<lambda>fn w. (1, w)),
     p_fread = (\<lambda>fp n w. (take n (unread w), w\<lparr>unread := drop n (unread w)\<rparr>)),
     p_ferror = (\<lambda>fp w. False),
     p_fclose = (\<lambda>fp w. w),
     p_socket = (\<lambda>w. (int (3 + sockets w), w\<lparr>sockets := sockets w + 1\<rparr>)),
     p_setsockopt = (\<lambda>fd w. w),
     p_connect = (\<lambda>fd a w. (0, w)),
     p_bind = (\<lambda>fd a w. (0, w)),
     p_close = (\<lambda>fd w. w),
     p_recvfrom = link_recvfrom,
     p_fcntl = (\<lambda>fd m w. (0, w)),
     p_ntop = (\<lambda>a. [0])\<rparr>"

lemma link_os_io [simp]:
  "p_write (link_os t img) = link_write t img" "p_read (link_os t img) = link_read" "errno (link_os t img) w = 11"
  by (simp_all add: link_os_def)

section \<open>One message on this network\<close>

text \<open>Reading: old answers are skipped, the acknowledgement ends it, and an empty queue times out.\<close>

abbreviation (input) olds :: "u32 \<Rightarrow> bytes list \<Rightarrow> bool" where
  "olds k q \<equiv> \<forall>d\<in>set q. \<exists>k' c a. k' \<noteq> k \<and> d = nbmsg k' c a"

lemma read_olds:
  assumes "olds k q" and "fd \<noteq> 3" and "talk (link_os t img) fd msg k a n True (w\<lparr>inbound := r\<rparr>) ok w'"
    and "inbound w = q @ r"
  shows "talk (link_os t img) fd msg k a n True w ok w'"
  using assms
proof (induction q arbitrary: w)
  case Nil
  then show ?case by (cases w) simp
next
  case (Cons d q)
  obtain k' c' a' where d: "k' \<noteq> k" "d = nbmsg k' c' a'" using Cons.prems(1) by auto
  let ?w = "w\<lparr>inbound := q @ r\<rparr>"
  have "talk (link_os t img) fd msg k a n True ?w ok w'" using Cons by simp
  moreover have "link_read fd 2048 w = (16, nbmsg k' c' a', ?w)"
    using Cons.prems(2,4) d(2) by (simp add: link_read_def)
  ultimately show ?case using d(1) by (intro talk.old [of _ fd w k' c' a' ?w]) simp_all
qed

lemma read_acked:
  assumes "olds k q" and "fd \<noteq> 3" and "inbound w = q @ nbmsg k NB_ACK a # r"
  shows "talk (link_os t img) fd msg k a n True w True (w\<lparr>inbound := r\<rparr>)"
proof (rule read_olds [OF assms(1,2) _ assms(3)])
  show "talk (link_os t img) fd msg k a n True (w\<lparr>inbound := nbmsg k NB_ACK a # r\<rparr>) True (w\<lparr>inbound := r\<rparr>)"
    using assms(2) by (intro talk.acked) (simp add: link_read_def)
qed

lemma read_empty:
  assumes "olds k (inbound w)" and "fd \<noteq> 3"
    and "if n = 0 then \<not> ok \<and> w' = w\<lparr>inbound := []\<rparr> else talk (link_os t img) fd msg k a n False (w\<lparr>inbound := []\<rparr>) ok w'"
  shows "talk (link_os t img) fd msg k a (Suc n) True w ok w'"
proof (rule read_olds [OF assms(1,2)])
  have r: "link_read fd 2048 (w\<lparr>inbound := []\<rparr>) = (-1, [], w\<lparr>inbound := []\<rparr>)" using assms(2) by (simp add: link_read_def)
  show "talk (link_os t img) fd msg k a (Suc n) True (w\<lparr>inbound := []\<rparr>) ok w'"
  proof (cases "n = 0")
    case True
    then show ?thesis using r assms(3) by (auto intro: talk.gave_up)
  next
    case False
    then show ?thesis using r assms(3) by (auto intro: talk.timeout)
  qed
qed simp

text \<open>
  Sending, for any message: \<open>P\<close> holds of a machine that did not see it yet and \<open>Q\<close> of one that did;
  the first copy is answered, and another one if \<open>resent\<close>.
\<close>

lemma set_replicate_all: "set xs \<subseteq> {x} \<Longrightarrow> xs = replicate (length xs) x"
  by (induction xs) auto

lemma link_write_step:
  assumes k: "rd32 4 msg = Some k"
    and fresh: "\<And>m. P m \<Longrightarrow> \<exists>m' out. react t img [msg] m = Some (m', out) \<and> answers out = [ack] \<and> Q m'"
    and again: "\<And>m. Q m \<Longrightarrow> \<exists>m' out. react t img [msg] m = Some (m', out) \<and> answers out = (if resent then [ack] else []) \<and> Q m'"
    and pq: "P (target w) \<or> Q (target w)"
  shows "\<exists>w1 now later. link_write t img fd msg w = (int (length msg), w1) \<and> unread w1 = unread w \<and>
    faults w1 = (faults w)(k := tl (faults w k)) \<and>
    inbound w1 = inbound w @ late w @ now \<and> late w1 = later \<and> set (now @ later) \<subseteq> {ack} \<and>
    (if \<exists>fs. faults w k = Lost_Request # fs then target w1 = target w \<and> now @ later = []
     else Q (target w1) \<and> (P (target w) \<or> resent \<longrightarrow> (faults w k = [] \<longrightarrow> ack \<in> set now) \<and>
       ((\<forall>fs. faults w k \<noteq> Lost_Answer # fs) \<longrightarrow> ack \<in> set (now @ later))))"
proof (cases "\<exists>fs. faults w k = Lost_Request # fs")
  case True
  then show ?thesis using k by (auto simp: link_write_def arrive_def)
next
  case False
  obtain m out where m: "react t img [msg] (target w) = Some (m, out)" "set (answers out) \<subseteq> {ack}" "Q m"
      "P (target w) \<or> resent \<longrightarrow> answers out = [ack]"
    using fresh [of "target w"] again [of "target w"] pq by (metis empty_subsetI list.set(1,2) order_refl)
  obtain m' out' where m': "react t img [msg] m = Some (m', out')" "set (answers out') \<subseteq> {ack}" "Q m'"
    using again [OF m(3)] by (metis empty_subsetI list.set(1,2) order_refl)
  have ne: "(case faults w k of [] \<Rightarrow> None | f # fs \<Rightarrow> Some f) \<noteq> Some Lost_Request"
    using False by (auto split: list.splits)
  show ?thesis
  proof (cases "faults w k")
    case Nil
    then show ?thesis using k m ne by (simp add: link_write_def arrive_def)
  next
    case (Cons f fs)
    then show ?thesis using k m m' ne
      by (cases f) (simp_all add: link_write_def arrive_def)
  qed
qed

text \<open>What a write leaves behind when the socket holds old datagrams and then copies of the answer.\<close>

abbreviation (input) fewer_faults :: "u32 \<Rightarrow> link \<Rightarrow> link \<Rightarrow> bool" where
  "fewer_faults k w w' \<equiv> \<forall>i. set (faults w' i) \<subseteq> set (faults w i) \<and> length (faults w' i) \<le> length (faults w i) \<and>
     (i \<noteq> k \<longrightarrow> faults w' i = faults w i)"

lemma fewer_faults_trans: "fewer_faults k w w1 \<Longrightarrow> fewer_faults k w1 w' \<Longrightarrow> fewer_faults k w w'"
  by (metis order_trans)

lemma link_write_queue:
  assumes k: "rd32 4 msg = Some k"
    and fresh: "\<And>m. P m \<Longrightarrow> \<exists>m' out. react t img [msg] m = Some (m', out) \<and> answers out = [ack] \<and> Q m'"
    and again: "\<And>m. Q m \<Longrightarrow> \<exists>m' out. react t img [msg] m = Some (m', out) \<and> answers out = (if resent then [ack] else []) \<and> Q m'"
    and pq: "P (target w) \<or> Q (target w)" and q: "inbound w @ late w = q @ replicate j ack"
  shows "\<exists>w1 a b. link_write t img fd msg w = (int (length msg), w1) \<and> unread w1 = unread w \<and>
    fewer_faults k w w1 \<and> faults w1 k = tl (faults w k) \<and>
    inbound w1 = q @ replicate (j + a) ack \<and> late w1 = replicate b ack \<and>
    (if \<exists>fs. faults w k = Lost_Request # fs then target w1 = target w \<and> a = 0 \<and> b = 0
     else Q (target w1) \<and> (P (target w) \<or> resent \<longrightarrow> (faults w k = [] \<longrightarrow> 0 < a) \<and>
       ((\<forall>fs. faults w k \<noteq> Lost_Answer # fs) \<longrightarrow> 0 < a + b)))"
proof -
  obtain w1 now later where w1: "link_write t img fd msg w = (int (length msg), w1)" "unread w1 = unread w"
      "faults w1 = (faults w)(k := tl (faults w k))" "inbound w1 = inbound w @ late w @ now" "late w1 = later"
      "set (now @ later) \<subseteq> {ack}"
      "if \<exists>fs. faults w k = Lost_Request # fs then target w1 = target w \<and> now @ later = []
       else Q (target w1) \<and> (P (target w) \<or> resent \<longrightarrow> (faults w k = [] \<longrightarrow> ack \<in> set now) \<and>
         ((\<forall>fs. faults w k \<noteq> Lost_Answer # fs) \<longrightarrow> ack \<in> set (now @ later)))"
    using link_write_step [where P = P and Q = Q and resent = resent and w = w and fd = fd, OF k fresh again pq] by blast
  have now: "now = replicate (length now) ack" "later = replicate (length later) ack"
    using w1(6) by (auto intro: set_replicate_all)
  have "fewer_faults k w w1" using w1(3) by (cases "faults w k") auto
  moreover have "inbound w1 = q @ replicate (j + length now) ack" using w1(4) q now(1) by (simp add: replicate_add)
  moreover have "if \<exists>fs. faults w k = Lost_Request # fs then target w1 = target w \<and> length now = 0 \<and> length later = 0
     else Q (target w1) \<and> (P (target w) \<or> resent \<longrightarrow> (faults w k = [] \<longrightarrow> 0 < length now) \<and>
       ((\<forall>fs. faults w k \<noteq> Lost_Answer # fs) \<longrightarrow> 0 < length now + length later))"
    using w1(7) by (auto split: if_splits)
  ultimately show ?thesis using w1(1-3,5) now(2) by (intro exI [of _ w1] exI [of _ "length now"] exI [of _ "length later"]) simp
qed

lemma link_talk:
  assumes k: "rd32 4 msg = Some k" and ack: "ack = nbmsg k NB_ACK a" and fd: "fd \<noteq> 3"
    and fresh: "\<And>m. P m \<Longrightarrow> \<exists>m' out. react t img [msg] m = Some (m', out) \<and> answers out = [ack] \<and> Q m'"
    and again: "\<And>m. Q m \<Longrightarrow> \<exists>m' out. react t img [msg] m = Some (m', out) \<and> answers out = (if resent then [ack] else []) \<and> Q m'"
  shows "P (target w) \<and> length (faults w k) < n \<and> j = 0 \<or> Q (target w) \<and> 0 < n \<Longrightarrow>
    inbound w @ late w = q @ replicate j ack \<Longrightarrow> olds k q \<Longrightarrow>
    \<exists>ok w'. talk (link_os t img) fd msg k a n False w ok w' \<and> Q (target w') \<and> unread w' = unread w \<and>
      fewer_faults k w w' \<and> (ok \<longrightarrow> set (inbound w' @ late w') \<subseteq> {ack}) \<and>
      (length (faults w k) < n \<longrightarrow>
        resent \<or> Lost_Answer \<notin> set (faults w k) \<and> (P (target w) \<or> 0 < j) \<longrightarrow> ok)"
proof (induction n arbitrary: w q j)
  case 0
  then show ?case by auto
next
  case (Suc n)
  have pq: "P (target w) \<or> Q (target w)" using Suc.prems(1) by blast
  obtain w1 x y where w1: "link_write t img fd msg w = (int (length msg), w1)" "unread w1 = unread w"
      "fewer_faults k w w1" "faults w1 k = tl (faults w k)" "inbound w1 = q @ replicate (j + x) ack" "late w1 = replicate y ack"
      "if \<exists>fs. faults w k = Lost_Request # fs then target w1 = target w \<and> x = 0 \<and> y = 0
       else Q (target w1) \<and> (P (target w) \<or> resent \<longrightarrow> (faults w k = [] \<longrightarrow> 0 < x) \<and>
         ((\<forall>fs. faults w k \<noteq> Lost_Answer # fs) \<longrightarrow> 0 < x + y))"
    using link_write_queue [where P = P and Q = Q and resent = resent and fd = fd, OF k fresh again pq Suc.prems(2)] by blast
  have send: "talk (link_os t img) fd msg k a (Suc n) False w ok w'" if "talk (link_os t img) fd msg k a (Suc n) True w1 ok w'" for ok w'
    using that w1(1) by (intro talk.send [of _ fd msg w "int (length msg)" w1]) simp_all
  show ?case
  proof (cases "j + x")
    case (Suc r)
    let ?w = "w1\<lparr>inbound := replicate r ack\<rparr>"
    have t: "talk (link_os t img) fd msg k a (Suc n) True w1 True ?w"
      using read_acked [OF Suc.prems(3) fd, of w1 a "replicate r ack" t img msg "Suc n"] w1(5) Suc ack by simp
    have "Q (target w1)" using w1(7) Suc.prems(1) Suc by (auto split: if_splits)
    then show ?thesis using send [OF t] w1(2,3,6) by (intro exI [of _ True] exI [of _ ?w]) auto
  next
    case 0
    then have z: "j = 0" "x = 0" "inbound w1 = q" using w1(5) by simp_all
    let ?w = "w1\<lparr>inbound := []\<rparr>"
    have live: "\<exists>f fs. faults w k = f # fs \<and> (resent \<or> Lost_Answer \<notin> set fs \<and> (P (target w1) \<or> 0 < y))"
      if "resent \<or> Lost_Answer \<notin> set (faults w k) \<and> P (target w)"
      using that w1(7) z(2) by (cases "faults w k") (auto split: if_splits)
    show ?thesis
    proof (cases "n = 0")
      case True
      have t: "talk (link_os t img) fd msg k a (Suc n) True w1 False ?w"
        by (rule read_empty) (use Suc.prems(3) z(3) fd True in simp_all)
      have "Q (target w1)" using w1(7) Suc.prems(1) True by (auto split: if_splits)
      then show ?thesis using send [OF t] w1(2,3) live z(1) True by (intro exI [of _ False] exI [of _ ?w]) auto
    next
      case False
      have pq: "P (target ?w) \<and> length (faults ?w k) < n \<and> y = 0 \<or> Q (target ?w) \<and> 0 < n"
        using w1(4,7) Suc.prems(1) False by (cases "faults w k") (auto split: if_splits)
      obtain ok w' where ih: "talk (link_os t img) fd msg k a n False ?w ok w'" "Q (target w')" "unread w' = unread ?w"
          "fewer_faults k w1 w'" "ok \<longrightarrow> set (inbound w' @ late w') \<subseteq> {ack}"
          "length (faults ?w k) < n \<longrightarrow> resent \<or> Lost_Answer \<notin> set (faults ?w k) \<and> (P (target ?w) \<or> 0 < y) \<longrightarrow> ok"
        using Suc.IH [OF pq, of "[]"] w1(6) by auto
      have t: "talk (link_os t img) fd msg k a (Suc n) True w1 ok w'"
        by (rule read_empty) (use Suc.prems(3) z(3) fd False ih(1) in simp_all)
      have "ok" if "length (faults w k) < Suc n" "resent \<or> Lost_Answer \<notin> set (faults w k) \<and> (P (target w) \<or> 0 < j)"
        using live that ih(6) w1(4) z(1) by auto
      then show ?thesis
        using send [OF t] ih(2,3,5) w1(2) fewer_faults_trans [OF w1(3) ih(4)] by (intro exI [of _ ok] exI [of _ w']) simp
    qed
  qed
qed

text \<open>A machine that saw the message and answers no copy of it: every transmission times out.\<close>

lemma talk_unanswered:
  assumes k: "rd32 4 msg = Some k" and fd: "fd \<noteq> 3"
    and again: "\<And>m. Q m \<Longrightarrow> \<exists>m' out. react t img [msg] m = Some (m', out) \<and> answers out = [] \<and> Q m'"
  shows "Q (target w) \<Longrightarrow> 0 < n \<Longrightarrow> olds k (inbound w @ late w) \<Longrightarrow>
    \<exists>w'. talk (link_os t img) fd msg k a n False w False w' \<and> Q (target w')"
proof (induction n arbitrary: w)
  case (Suc n)
  have ag: "\<exists>m' out. react t img [msg] m = Some (m', out) \<and>
      answers out = (if False then [nbmsg (k + 1) 0 0] else []) \<and> Q m'" if "Q m" for m
    using again [OF that] by simp
  obtain w1 now later where w1: "link_write t img fd msg w = (int (length msg), w1)"
      "inbound w1 = inbound w @ late w @ now" "late w1 = later" "set (now @ later) \<subseteq> {nbmsg (k + 1) 0 0}"
      "if \<exists>fs. faults w k = Lost_Request # fs then target w1 = target w \<and> now @ later = [] else Q (target w1) \<and>
         (False \<or> False \<longrightarrow> (faults w k = [] \<longrightarrow> nbmsg (k + 1) 0 0 \<in> set now) \<and>
         ((\<forall>fs. faults w k \<noteq> Lost_Answer # fs) \<longrightarrow> nbmsg (k + 1) 0 0 \<in> set (now @ later)))"
    using link_write_step [where P = "\<lambda>_. False" and Q = Q and resent = False and w = w and fd = fd, OF k _ ag] Suc.prems(1)
    by blast
  have qt: "Q (target w1)" using w1(5) Suc.prems(1) by (simp split: if_splits)
  have "olds k (now @ later)"
  proof
    fix d assume "d \<in> set (now @ later)"
    then have "k + 1 \<noteq> k \<and> d = nbmsg (k + 1) 0 0" using w1(4) by auto
    then show "\<exists>k' c a. k' \<noteq> k \<and> d = nbmsg k' c a" by blast
  qed
  then have o: "olds k (inbound w1)" "olds k (late w1)" using Suc.prems(3) w1(2,3) by (simp_all add: ball_Un)
  let ?w = "w1\<lparr>inbound := []\<rparr>"
  have "\<exists>w'. Q (target w') \<and> (if n = 0 then \<not> False \<and> w' = ?w else talk (link_os t img) fd msg k a n False ?w False w')"
  proof (cases "n = 0")
    case False
    then show ?thesis using Suc.IH [of ?w] qt o(2) by auto
  qed (use qt in auto)
  then obtain w' where w': "Q (target w')"
      "if n = 0 then \<not> False \<and> w' = ?w else talk (link_os t img) fd msg k a n False ?w False w'" by blast
  have "talk (link_os t img) fd msg k a (Suc n) True w1 False w'" by (rule read_empty [OF o(1) fd w'(2)])
  then have "talk (link_os t img) fd msg k a (Suc n) False w False w'"
    using w1(1) by (intro talk.send [of _ fd msg w "int (length msg)" w1]) simp_all
  then show ?case using w'(1) by blast
qed simp

text \<open>In particular when its only answer is lost.\<close>

lemma talk_lost:
  assumes k: "rd32 4 msg = Some k" and fd: "fd \<noteq> 3"
    and fresh: "\<exists>m' out. react t img [msg] (target w) = Some (m', out) \<and> Q m'"
    and again: "\<And>m. Q m \<Longrightarrow> \<exists>m' out. react t img [msg] m = Some (m', out) \<and> answers out = [] \<and> Q m'"
    and lost: "faults w k = Lost_Answer # fs" and n: "1 < n" and old: "olds k (inbound w @ late w)"
  shows "\<exists>w'. talk (link_os t img) fd msg k a n False w False w' \<and> Q (target w')"
proof -
  obtain m out where m: "react t img [msg] (target w) = Some (m, out)" "Q m" using fresh by blast
  define w1 where "w1 = arrive [] [] out (w\<lparr>faults := (faults w)(k := fs), target := m\<rparr>)"
  have w1: "link_write t img fd msg w = (int (length msg), w1)" "Q (target w1)" "inbound w1 = inbound w @ late w" "late w1 = []"
    using k lost m by (simp_all add: link_write_def w1_def arrive_def)
  obtain n' where n': "n = Suc n'" "0 < n'" using n by (cases n) auto
  obtain w' where w': "talk (link_os t img) fd msg k a n' False (w1\<lparr>inbound := []\<rparr>) False w'" "Q (target w')"
    using talk_unanswered [OF k fd again, of "w1\<lparr>inbound := []\<rparr>" n'] w1(2,4) n'(2) by auto
  have "talk (link_os t img) fd msg k a (Suc n') True w1 False w'"
    by (rule read_empty) (use old w1(3) fd w'(1) n'(2) in simp_all)
  then have "talk (link_os t img) fd msg k a n False w False w'"
    unfolding n'(1) using w1(1) by (intro talk.send [of _ fd msg w "int (length msg)" w1]) simp_all
  then show ?thesis using w'(2) by blast
qed

end
