(* ===== verification/Session.thy ===== *)
theory Session
  imports Link
begin

unbundle bit_operations_syntax

text \<open>
  A whole boot session: the loader keeps to the protocol, so that the client's transfer over the
  network of \<^verbatim>\<open>Link\<close> ends with the kernel running on the machine.
\<close>

section \<open>The loader keeps to the protocol\<close>

text \<open>A machine that serves, and has what it needs to boot.\<close>

definition ready :: "(ex_st \<Rightarrow> bool) \<Rightarrow> u64 set \<Rightarrow> nat \<Rightarrow> ex_st osboot \<Rightarrow> bool" where
  "ready t A cap s = (up t A s \<and> nb_online s \<noteq> 0 \<and> nb_boot_now s = 0 \<and> caps s NbKernel = cap \<and> cap < 2 ^ 32 \<and>
     4095 \<le> caps s NbCmdline \<and> gop s \<noteq> NULL \<and> length (e820table s) = 128)"

definition has_kernel :: "bytes \<Rightarrow> ex_st osboot \<Rightarrow> bool" where
  "has_kernel x s = (item s = Some NbKernel \<and> content (nb_files s NbKernel) = x)"

lemma osboot_more:
  fixes s s' :: "ex_st osboot"
  assumes "netboot.more s' = netboot.more s"
  shows "gop s' = gop s" "e820table s' = e820table s"
  using assms by (cases s; cases s'; simp)+

lemma ready_cong:
  assumes "up t A s'" and "ready t A cap s" and "nb_files s' = nb_files s" "nb_boot_now s' = nb_boot_now s"
    "nb_online s' = nb_online s" "netboot.more s' = netboot.more s"
  shows "ready t A cap s'"
  using assms osboot_more [OF assms(6)] by (simp add: ready_def caps_def)

lemma ready_proto: "proto s' = proto s \<Longrightarrow> up t A s' \<Longrightarrow> ready t A cap s \<Longrightarrow> ready t A cap s'"
  by (rule ready_cong) (simp_all add: proto_def)

lemma has_kernel_proto: "proto s' = proto s \<Longrightarrow> has_kernel x s' = has_kernel x s"
  by (simp add: proto_def has_kernel_def)

definition with_msg :: "bytes \<Rightarrow> ex_st osboot \<Rightarrow> ex_st osboot" where
  "with_msg msg s = s\<lparr>fw := (fw s)\<lparr>inbox := [to_host s msg], sent := []\<rparr>\<rparr>"

lemma with_msg:
  "proto (with_msg msg s) = proto s" "answers (sent (fw (with_msg msg s))) = []"
  "inbox (fw (with_msg msg s)) = [to_host (with_msg msg s) msg]" "ready t A cap s \<Longrightarrow> ready t A cap (with_msg msg s)"
proof -
  show p: "proto (with_msg msg s) = proto s" by (simp add: with_msg_def)
  show "ready t A cap (with_msg msg s)" if "ready t A cap s"
    using that by (intro ready_proto [OF p]) (auto simp: ready_def with_msg_def ex_inflight_def intro!: up_fw)
qed (simp_all add: with_msg_def to_host_def)

text \<open>A round that only answers.\<close>

lemma react_poll:
  assumes "netboot_poll (link_fw t) (with_msg msg s) = Some (0, s3)"
  shows "react t img [msg] (Running s) = Some (Running s3, sent (fw s3))"
  using assms by (simp add: netboot_round_def with_msg_def)

lemma react_process:
  assumes ok: "ready t A cap s" and len: "length payload \<le> 1434"
    and new: "\<not> (last_cookie s = k \<and> last_cmd s = cmd \<and> arg \<noteq> 0)"
    and com: "\<forall>s1 d pre rest. proto s1 = proto s \<longrightarrow> ready t A cap s1 \<longrightarrow> length pre = 62 \<longrightarrow>
      d = nb_packet pre k cmd arg payload rest \<longrightarrow> length d = 1514 \<longrightarrow>
      (\<exists>s2. nb_command d 78 (length payload) cmd arg s1 = Some (ack, s2) \<and> ready t A cap s2 \<and> R s2)"
  shows "\<exists>s2 s3. R s2 \<and> ready t A cap s3 \<and> react t img [nbmsg k cmd arg @ payload] (Running s) = Some (Running s3, sent (fw s3)) \<and>
    (case ack of None \<Rightarrow> proto s3 = proto s2 \<and> answers (sent (fw s3)) = []
     | Some (c, a) \<Rightarrow> proto s3 = proto (s2\<lparr>last_cookie := k, last_cmd := cmd, last_arg := arg, last_ack_cmd := c, last_ack_arg := a\<rparr>) \<and>
         answers (sent (fw s3)) = [nbmsg k c a])"
proof -
  let ?s = "with_msg (nbmsg k cmd arg @ payload) s"
  note w = with_msg(1-3) [of "nbmsg k cmd arg @ payload" s]
  have r: "ready t A cap ?s" using ok by (rule with_msg)
  then have u: "up t A ?s" "nb_online ?s \<noteq> 0" by (simp_all add: ready_def)
  have n: "\<not> (last_cookie ?s = k \<and> last_cmd ?s = cmd \<and> arg \<noteq> 0)" using new w(1) by (simp add: proto_def)
  have c: "\<forall>s1 d pre rest. proto s1 = proto ?s \<longrightarrow> up t A s1 \<longrightarrow> length pre = 62 \<longrightarrow>
      d = nb_packet pre k cmd arg payload rest \<longrightarrow> length d = 1514 \<longrightarrow>
      (\<exists>ack' s2. nb_command d 78 (length payload) cmd arg s1 = Some (ack', s2) \<and> up t A s2 \<and>
        (ack' = ack \<and> ready t A cap s2 \<and> R s2))"
  proof (intro allI impI)
    fix s1 d pre rest
    assume a: "proto s1 = proto ?s" "up t A s1" "length pre = 62" "d = nb_packet pre k cmd arg payload rest" "length d = 1514"
    have "proto s1 = proto s" "ready t A cap s1" using a(1) w(1) ready_proto [OF a(1,2) r] by simp_all
    from com [rule_format, OF this a(3-5)] show "\<exists>ack' s2. nb_command d 78 (length payload) cmd arg s1 = Some (ack', s2) \<and> up t A s2 \<and>
        (ack' = ack \<and> ready t A cap s2 \<and> R s2)" by (auto simp: ready_def)
  qed
  obtain ack' s2 s3 where p: "ack' = ack \<and> ready t A cap s2 \<and> R s2" "up t A s3"
      "netboot_poll (link_fw t) ?s = Some (if nb_boot_now s3 \<noteq> 0 then (1, s3\<lparr>nb_boot_now := 0\<rparr>) else (0, s3))"
      "case ack' of None \<Rightarrow> proto s3 = proto s2 \<and> answers (sent (fw s3)) = answers (sent (fw ?s))
       | Some (c, a) \<Rightarrow> proto s3 = proto (s2\<lparr>last_cookie := k, last_cmd := cmd, last_arg := arg, last_ack_cmd := c, last_ack_arg := a\<rparr>) \<and>
           answers (sent (fw s3)) = answers (sent (fw ?s)) @ [nbmsg k c a]"
    using poll_process [where R = "\<lambda>ack' s2. ack' = ack \<and> ready t A cap s2 \<and> R s2", OF u len w(3) n c] by blast
  have "nb_files s3 = nb_files s2" "nb_boot_now s3 = nb_boot_now s2" "nb_online s3 = nb_online s2"
      "netboot.more s3 = netboot.more s2"
    using p(1,4) by (auto simp: proto_def split: option.splits)
  then have "ready t A cap s3" using ready_cong [OF p(2)] p(1) by blast
  moreover from this have "netboot_poll (link_fw t) ?s = Some (0, s3)" using p(3) by (simp add: ready_def)
  ultimately show ?thesis using react_poll p(1,4) w(2)
    by (intro exI [of _ s2] exI [of _ s3]) (auto split: option.splits)
qed

lemma react_repeated:
  assumes ok: "ready t A cap s" and len: "length payload \<le> 1434"
    and rep: "last_cookie s = k" "last_cmd s = cmd" "arg \<noteq> 0"
  shows "\<exists>s3. react t img [nbmsg k cmd arg @ payload] (Running s) = Some (Running s3, sent (fw s3)) \<and>
    ready t A cap s3 \<and> proto s3 = proto s \<and> answers (sent (fw s3)) = [nbmsg k (last_ack_cmd s) (last_ack_arg s)]"
proof -
  let ?s = "with_msg (nbmsg k cmd arg @ payload) s"
  note w = with_msg(1-3) [of "nbmsg k cmd arg @ payload" s]
  have r: "ready t A cap ?s" using ok by (rule with_msg)
  then have u: "up t A ?s" "nb_online ?s \<noteq> 0" by (simp_all add: ready_def)
  have n: "last_cookie ?s = k" "last_cmd ?s = cmd" "last_ack_cmd ?s = last_ack_cmd s" "last_ack_arg ?s = last_ack_arg s"
    using rep w(1) by (simp_all add: proto_def)
  obtain s3 where p: "netboot_poll (link_fw t) ?s = Some (if nb_boot_now s3 \<noteq> 0 then (1, s3\<lparr>nb_boot_now := 0\<rparr>) else (0, s3))"
      "up t A s3" "proto s3 = proto ?s"
      "answers (sent (fw s3)) = answers (sent (fw ?s)) @ [nbmsg k (last_ack_cmd ?s) (last_ack_arg ?s)]"
    using poll_repeated [OF u len w(3) n(1,2) rep(3)] by blast
  have "ready t A cap s3" using ready_proto [OF p(3,2) r] .
  moreover from this have "netboot_poll (link_fw t) ?s = Some (0, s3)" using p(1) by (simp add: ready_def)
  ultimately show ?thesis using react_poll p(3,4) w(1,2) n by (intro exI [of _ s3]) simp
qed

text \<open>The three messages of the client. Opening the file:\<close>

definition kernel_opened :: "(ex_st \<Rightarrow> bool) \<Rightarrow> u64 set \<Rightarrow> nat \<Rightarrow> u32 \<Rightarrow> target \<Rightarrow> bool" where
  "kernel_opened t A cap k m = (\<exists>s. m = Running s \<and> ready t A cap s \<and> last_cookie s = k \<and> has_kernel [] s)"

lemma react_open:
  assumes "ready t A cap s"
  shows "\<exists>m' out. react t img [nbmsg k NB_SEND_FILE 0 @ asc ''kernel.bin'' @ [0]] (Running s) = Some (m', out) \<and>
    answers out = [nbmsg k NB_ACK 0] \<and> kernel_opened t A cap k m'"
proof -
  let ?n = "asc ''kernel.bin''"
  have com: "\<forall>s1 d pre rest. proto s1 = proto s \<longrightarrow> ready t A cap s1 \<longrightarrow> length pre = 62 \<longrightarrow>
      d = nb_packet pre k NB_SEND_FILE 0 (?n @ [0]) rest \<longrightarrow> length d = 1514 \<longrightarrow>
      (\<exists>s2. nb_command d 78 (length (?n @ [0])) NB_SEND_FILE 0 s1 = Some (Some (NB_ACK, 0), s2) \<and> ready t A cap s2 \<and> has_kernel [] s2)"
  proof (intro allI impI)
    fix s1 d pre rest
    assume ok: "ready t A cap s1" and pre: "length pre = 62" and d: "d = nb_packet pre k NB_SEND_FILE 0 (?n @ [0]) rest"
      and ld: "length d = 1514"
    let ?p = "pre @ nbmsg k NB_SEND_FILE 0"
    have d': "d = ?p @ (?n @ [0]) @ rest" by (simp add: d nb_packet_def)
    have f: "file_named ((?n @ [0]) @ rest) = Some NbKernel" by (simp add: file_named_def)
    have "files_ok s1" "length ?p = 78" "\<forall>c\<in>set ?n. 0x20 \<le> c \<and> c \<le> 127" "89 \<le> length d" "length ?n + 1 = length (?n @ [0])"
      using ok pre ld by (simp_all add: ready_def up_def nb_good_def)
    note opn = nb_open_refines [OF this(1,2) d' this(3,4), of 0 "link_fw t" ex_inflight A, unfolded f this(5)]
    then obtain s2 where s2: "nb_command d 78 (length (?n @ [0])) NB_SEND_FILE 0 s1 = Some (Some (NB_ACK, 0), s2)"
        "view s2 = abs_open (Some NbKernel) (view s1)" "files_ok s2" "caps s2 = caps s1" "stack_ok (link_fw t) ex_inflight A s2"
      using ok by (auto simp: ready_def up_def nb_good_def)
    have "has_kernel [] s2"
      using s2(2) by (auto simp: has_kernel_def view_def abs_open_def dest: fun_cong [of _ _ NbKernel])
    moreover have "nb_boot_now s2 = nb_boot_now s1" "nb_online s2 = nb_online s1" "netboot.more s2 = netboot.more s1"
      using s2(1) by (auto simp: nb_command_def Let_def nb_file_upd_def printf_def split: option.splits bind_splits)
    then have "ready t A cap s2"
      using ok s2(3-5) osboot_more [of s2 s1] by (simp add: ready_def up_def nb_good_def)
    ultimately show "\<exists>s2. nb_command d 78 (length (?n @ [0])) NB_SEND_FILE 0 s1 = Some (Some (NB_ACK, 0), s2) \<and>
        ready t A cap s2 \<and> has_kernel [] s2" using s2(1) by blast
  qed
  obtain s2 s3 where r: "has_kernel [] s2" "ready t A cap s3"
      "react t img [nbmsg k NB_SEND_FILE 0 @ ?n @ [0]] (Running s) = Some (Running s3, sent (fw s3))"
      "proto s3 = proto (s2\<lparr>last_cookie := k, last_cmd := NB_SEND_FILE, last_arg := 0, last_ack_cmd := NB_ACK, last_ack_arg := 0\<rparr>)"
      "answers (sent (fw s3)) = [nbmsg k NB_ACK 0]"
    using react_process [OF assms _ _ com, of img] by auto
  then show ?thesis by (auto simp: kernel_opened_def has_kernel_def proto_def)
qed

text \<open>One block, and the same block again: the machine answers as before, but ignores a repeated first
  block.\<close>

definition stored :: "(ex_st \<Rightarrow> bool) \<Rightarrow> u64 set \<Rightarrow> nat \<Rightarrow> u32 \<Rightarrow> u32 \<Rightarrow> bytes \<Rightarrow> target \<Rightarrow> bool" where
  "stored t A cap k a x m = (\<exists>s. m = Running s \<and> ready t A cap s \<and> last_cookie s = k \<and> last_cmd s = NB_DATA \<and>
     last_ack_cmd s = NB_ACK \<and> last_ack_arg s = a \<and> has_kernel x s)"

lemma react_block:
  assumes ok: "ready t A cap s" and kern: "has_kernel got s" and new: "last_cookie s \<noteq> k"
    and len: "length blk \<le> 1024" "length got + length blk \<le> cap"
  defines "a \<equiv> of_nat (length got)"
  shows "\<exists>m' out. react t img [nbmsg k NB_DATA a @ blk] (Running s) = Some (m', out) \<and>
    answers out = [nbmsg k NB_ACK a] \<and> stored t A cap k a (got @ blk) m'"
proof -
  have u: "unat a = length got" using ok len(2) by (simp add: a_def ready_def unat_of_nat take_bit_nat_eq_self)
  have com: "\<forall>s1 d pre rest. proto s1 = proto s \<longrightarrow> ready t A cap s1 \<longrightarrow> length pre = 62 \<longrightarrow>
      d = nb_packet pre k NB_DATA a blk rest \<longrightarrow> length d = 1514 \<longrightarrow>
      (\<exists>s2. nb_command d 78 (length blk) NB_DATA a s1 = Some (Some (NB_ACK, a), s2) \<and> ready t A cap s2 \<and> has_kernel (got @ blk) s2)"
  proof (intro allI impI)
    fix s1 d pre rest
    assume p: "proto s1 = proto s" and ok1: "ready t A cap s1" and pre: "length pre = 62"
      and d: "d = nb_packet pre k NB_DATA a blk rest" and ld: "length d = 1514"
    have it: "item s1 = Some NbKernel" "content (nb_files s1 NbKernel) = got" "caps s1 NbKernel = cap"
      using has_kernel_proto [OF p, of got] kern ok1 by (simp_all add: has_kernel_def ready_def)
    have "files_ok s1" "78 + length blk \<le> length d" "length blk \<le> 1514" "take (length blk) (drop 78 d) = blk"
      using ok1 d pre len(1) nb_packet_reads(4) [OF pre] by (simp_all add: ready_def up_def nb_good_def nb_packet_def)
    note nb_data_refines [OF this, of a, unfolded u]
    then obtain s2 fs where s2: "nb_command d 78 (length blk) NB_DATA a s1 = Some (Some (NB_ACK, a), s2)"
        "view s2 = abs_data (caps s1) (length got) blk (view s1)" "files_ok s2" "s2 = s1\<lparr>nb_files := fs\<rparr>" "caps s2 = caps s1"
      using it len(2) by auto
    have "has_kernel (got @ blk) s2"
      using s2(2,4) it len(2) by (auto simp: has_kernel_def view_def abs_data_def dest: fun_cong [of _ _ NbKernel])
    moreover have "ready t A cap s2"
      using ok1 s2(3-5) by (simp add: ready_def up_def nb_good_def)
    ultimately show "\<exists>s2. nb_command d 78 (length blk) NB_DATA a s1 = Some (Some (NB_ACK, a), s2) \<and>
        ready t A cap s2 \<and> has_kernel (got @ blk) s2" using s2(1) by blast
  qed
  obtain s2 s3 where r: "has_kernel (got @ blk) s2" "ready t A cap s3"
      "react t img [nbmsg k NB_DATA a @ blk] (Running s) = Some (Running s3, sent (fw s3))"
      "proto s3 = proto (s2\<lparr>last_cookie := k, last_cmd := NB_DATA, last_arg := a, last_ack_cmd := NB_ACK, last_ack_arg := a\<rparr>)"
      "answers (sent (fw s3)) = [nbmsg k NB_ACK a]"
    using react_process [OF ok _ _ com, of img] len(1) new by auto
  then show ?thesis by (auto simp: stored_def has_kernel_def proto_def)
qed

lemma react_block_again:
  assumes ok: "stored t A cap k a (got @ blk) m" and len: "blk \<noteq> []" "length blk \<le> 1024" "length got + length blk \<le> cap"
    and a: "a = of_nat (length got)"
  shows "\<exists>m' out. react t img [nbmsg k NB_DATA a @ blk] m = Some (m', out) \<and>
    answers out = (if got \<noteq> [] then [nbmsg k NB_ACK a] else []) \<and> stored t A cap k a (got @ blk) m'"
proof -
  obtain s where s: "m = Running s" "ready t A cap s" "last_cookie s = k" "last_cmd s = NB_DATA"
     "last_ack_cmd s = NB_ACK" "last_ack_arg s = a" "has_kernel (got @ blk) s"
    using ok by (auto simp: stored_def)
  have u: "unat a = length got" using s(2) len(3) by (simp add: a ready_def unat_of_nat take_bit_nat_eq_self)
  show ?thesis
  proof (cases "got = []")
    case False
    then have "a \<noteq> 0" using u by auto
    from react_repeated [OF s(2) _ s(3,4) this, of blk img] len(2) s False show ?thesis
      by (auto simp: stored_def has_kernel_def proto_def)
  next
    case True
    have com: "\<forall>s1 d pre rest. proto s1 = proto s \<longrightarrow> ready t A cap s1 \<longrightarrow> length pre = 62 \<longrightarrow>
        d = nb_packet pre k NB_DATA 0 blk rest \<longrightarrow> length d = 1514 \<longrightarrow>
        (\<exists>s2. nb_command d 78 (length blk) NB_DATA 0 s1 = Some (None, s2) \<and> ready t A cap s2 \<and> proto s2 = proto s)"
    proof (intro allI impI)
      fix s1 :: "ex_st osboot" and d :: bytes
      assume p: "proto s1 = proto s" and ok1: "ready t A cap s1"
      have it: "item s1 = Some NbKernel" "content (nb_files s1 NbKernel) = blk"
        using has_kernel_proto [OF p, of blk] s(7) True by (simp_all add: has_kernel_def)
      moreover have "file_ok (nb_files s1 NbKernel)" using ok1 by (simp add: ready_def up_def nb_good_def files_ok_def)
      ultimately have "nb_offset (nb_files s1 NbKernel) \<noteq> 0" using length_content len(1) by fastforce
      then show "\<exists>s2. nb_command d 78 (length blk) NB_DATA 0 s1 = Some (None, s2) \<and> ready t A cap s2 \<and> proto s2 = proto s"
        using it(1) ok1 p by (simp add: nb_command_def)
    qed
    have a0: "a = 0" using a True by simp
    obtain s2 s3 where r: "proto s2 = proto s" "ready t A cap s3"
        "react t img [nbmsg k NB_DATA 0 @ blk] (Running s) = Some (Running s3, sent (fw s3))"
        "proto s3 = proto s2" "answers (sent (fw s3)) = []"
      using react_process [OF s(2) _ _ com, of img] len(2) by auto
    then show ?thesis using s True a0 by (auto simp: stored_def has_kernel_def proto_def)
  qed
qed

text \<open>The order to boot. A kernel that is large enough, not an EFI program, and consistent:\<close>

definition bootable :: "u8 \<Rightarrow> u32 \<Rightarrow> bytes \<Rightarrow> bool" where
  "bootable sects syssize x = (32768 \<le> length x \<and> is_efi_binary x = Some False \<and> (\<exists>jump. kernel_header x sects syssize jump) \<and>
     image_fits x (of_nat (length x)) sects syssize)"

text \<open>The machine has left the firmware and jumped to the image that was sent.\<close>

definition runs_kernel :: "u8 \<Rightarrow> u32 \<Rightarrow> bytes \<Rightarrow> target \<Rightarrow> bool" where
  "runs_kernel sects syssize x m = (\<exists>k s. m = Ended (Started 0x100200 0x90000 k s) \<and>
     take (16 * unat syssize) (image_mem k) = take (16 * unat syssize) (drop (512 * (unat sects + 1)) x))"

lemma rd_prefix:
  "off + 1 \<le> length x \<Longrightarrow> rd8 off (x @ y) = rd8 off x" "off + 2 \<le> length x \<Longrightarrow> rd16 off (x @ y) = rd16 off x"
  "off + 4 \<le> length x \<Longrightarrow> rd32 off (x @ y) = rd32 off x"
  by (simp_all add: rd8_def rd16_def rd32_def rdn_def nth_append)

lemma bootable_prefix:
  assumes b: "bootable sects syssize x" and y: "length x + length y + 15 < 2 ^ 64"
  shows "is_efi_binary (x @ y) = Some False" "\<exists>jump. kernel_header (x @ y) sects syssize jump"
    "image_fits (x @ y) (of_nat (length x)) sects syssize"
proof -
  have l: "1024 \<le> length x" using b by (simp add: bootable_def)
  have "is_efi_binary (x @ y) = is_efi_binary x" using l by (simp add: is_efi_binary_def rd_prefix)
  then show "is_efi_binary (x @ y) = Some False" using b by (simp add: bootable_def)
  show "\<exists>jump. kernel_header (x @ y) sects syssize jump"
    using b l by (simp add: bootable_def kernel_header_def rd_prefix)
  show "image_fits (x @ y) (of_nat (length x)) sects syssize" using b by (simp add: bootable_def image_fits_def)
qed

lemma link_close: "snp s \<noteq> NULL \<Longrightarrow> netboot_close (link_fw t) s = Some s"
  by (simp add: netboot_close_def netifc_close_def ex_fw_def)

lemma link_leaves: "leaves (link_fw t) img f ex_descs f"
proof -
  have "GetMemoryMap (link_fw t) = GetMemoryMap ex_boot" "ExitBootServices (link_fw t) = ExitBootServices ex_boot"
    by (simp_all add: link_fw_def ex_boot_defs)
  then show ?thesis using ex_leaves [of img f] by (simp add: leaves_def memmap_result_def)
qed

lemma link_alloc: "\<exists>k0. alloc_kernel (link_fw t) n f = (None, k0, f) \<and> kimage k0 = 0x100000 \<and> zeropage k0 = 0x90000"
proof -
  have "unat ((n + 4095) div 4096 + 1) \<le> unat ((n + 4095) div 4096) + 1" by (simp add: unat_word_ariths)
  also have "unat ((n + 4095) div 4096) \<le> 1048575" using unat_bound [of "n + 4095"] by (simp add: unat_div)
  finally show ?thesis by (simp add: alloc_kernel_def no_kernel_def unat_ucast_up)
qed

lemma boot_received:
  assumes ok: "up t A s" "gop s \<noteq> NULL" "length (e820table s) = 128" "4095 \<le> caps s NbCmdline"
    and kern: "content (nb_files s NbKernel) = x" "bootable sects syssize x"
  shows "\<exists>k s'. boot_kernel (link_fw t) img (blob_of_file (nb_files s NbKernel)) (blob_of_file (nb_files s NbRamdisk))
      ((blob_of_file (nb_files s NbCmdline))\<lparr>b_size := 4096\<rparr>) s = Some (Started 0x100200 0x90000 k s') \<and>
    fw s' = fw s \<and>
    take (16 * unat syssize) (image_mem k) = take (16 * unat syssize) (drop (512 * (unat sects + 1)) x)"
proof -
  let ?f = "nb_files s NbKernel"
  have f: "file_ok (nb_files s i)" for i using ok(1) by (simp add: up_def nb_good_def files_ok_def)
  have l: "length x = unat (nb_offset ?f)" using length_content [OF f [of NbKernel]] kern(1) by simp
  define y where "y = drop (length x) (nb_data ?f)"
  have d: "nb_data ?f = x @ y"
    using append_take_drop_id [of "length x" "nb_data ?f"] kern(1) unfolding l y_def content_def by simp
  have sz: "nb_offset ?f = of_nat (length x)" using l by simp
  have "length x + length y + 15 < 2 ^ 64" using f [of NbKernel] d by (simp add: file_ok_def)
  note b = bootable_prefix [OF kern(2) this]
  obtain jump where j: "kernel_header (x @ y) sects syssize jump" using b(2) by blast
  obtain k0 where k0: "alloc_kernel (link_fw t) (syssize * 16) (fw s) = (None, k0, fw s)" "kimage k0 = 0x100000" "zeropage k0 = 0x90000"
    using link_alloc by blast
  have cfg: "\<forall>(g, tb)\<in>set (ConfigurationTable (link_fw t) (fw s)). length g = 16"
    by (simp add: link_fw_def boot_of_defs Acpi2TableGUID_def guid_def)
  let ?c = "(blob_of_file (nb_files s NbCmdline))\<lparr>b_size := 4096\<rparr>"
  have cmd: "b_addr ?c \<noteq> NULL \<longrightarrow> cmd_len ?c \<le> length (b_data ?c)"
    using ok(4) f [of NbCmdline] by (simp add: cmd_len_def blob_of_file_def file_ok_def caps_def)
  have n: "length (e820_of ex_descs) < 128" by (simp add: ex_table)
  have kb: "kernel_header (b_data (blob_of_file ?f)) sects syssize jump"
      "image_fits (b_data (blob_of_file ?f)) (b_size (blob_of_file ?f)) sects syssize"
    using j b(3) d sz by (simp_all add: blob_of_file_def)
  obtain k acpi s' where h: "boot_kernel (link_fw t) img (blob_of_file ?f) (blob_of_file (nb_files s NbRamdisk)) ?c s =
      Some (Started (kimage k0 + 0x200) (zeropage k0) k s')" "fw s' = fw s"
      "take (16 * unat syssize) (image_mem k) = take (16 * unat syssize) (drop (512 * (unat sects + 1)) (b_data (blob_of_file ?f)))"
    using boot_kernel_hands_over [OF kb k0(1) ok(2,3) cfg cmd link_leaves n, of img "blob_of_file (nb_files s NbRamdisk)"] by blast
  have "512 * (unat sects + 1) + 16 * unat syssize \<le> length x" using kern(2) by (simp add: bootable_def image_fits_def)
  then show ?thesis using h k0(2,3) d by (auto simp: blob_of_file_def)
qed

lemma react_boot:
  assumes ok: "ready t A cap s" and kern: "has_kernel x s" "bootable sects syssize x"
  shows "\<exists>m' out. react t img [nbmsg k NB_BOOT 0] (Running s) = Some (m', out) \<and>
    answers out = [nbmsg k NB_ACK 0] \<and> runs_kernel sects syssize x m'"
proof -
  let ?s = "with_msg (nbmsg k NB_BOOT 0) s"
  note w = with_msg(1-3) [of "nbmsg k NB_BOOT 0" s]
  have r: "ready t A cap ?s" using ok by (rule with_msg)
  then have u: "up t A ?s" "nb_online ?s \<noteq> 0" by (simp_all add: ready_def)
  have com: "\<forall>s1 d pre rest. proto s1 = proto ?s \<longrightarrow> up t A s1 \<longrightarrow> length pre = 62 \<longrightarrow>
      d = nb_packet pre k NB_BOOT 0 [] rest \<longrightarrow> length d = 1514 \<longrightarrow>
      (\<exists>ack s2. nb_command d 78 (length ([] :: bytes)) NB_BOOT 0 s1 = Some (ack, s2) \<and> up t A s2 \<and>
        (ack = Some (NB_ACK, 0) \<and> proto s2 = proto (?s\<lparr>nb_boot_now := 1\<rparr>)))"
    by (simp add: nb_command_def) (simp add: proto_def printf_def)
  have inb: "inbox (fw ?s) = [to_host ?s (nbmsg k NB_BOOT 0 @ [])]" using w(3) by simp
  obtain ack s2 s3 where p: "ack = Some (NB_ACK, 0) \<and> proto s2 = proto (?s\<lparr>nb_boot_now := 1\<rparr>)" "up t A s3"
      "netboot_poll (link_fw t) ?s = Some (if nb_boot_now s3 \<noteq> 0 then (1, s3\<lparr>nb_boot_now := 0\<rparr>) else (0, s3))"
      "case ack of None \<Rightarrow> proto s3 = proto s2 \<and> answers (sent (fw s3)) = answers (sent (fw ?s))
       | Some (c, a) \<Rightarrow> proto s3 = proto (s2\<lparr>last_cookie := k, last_cmd := NB_BOOT, last_arg := 0, last_ack_cmd := c, last_ack_arg := a\<rparr>) \<and>
           answers (sent (fw s3)) = answers (sent (fw ?s)) @ [nbmsg k c a]"
    using poll_process [where R = "\<lambda>ack s2. ack = Some (NB_ACK, 0) \<and> proto s2 = proto (?s\<lparr>nb_boot_now := 1\<rparr>)",
      OF u _ inb _ com] by auto
  have pr: "nb_boot_now s3 = 1" "nb_files s3 = nb_files s" "netboot.more s3 = netboot.more s" "answers (sent (fw s3)) = [nbmsg k NB_ACK 0]"
    using p(1,4) w(1,2) by (auto simp: proto_def)
  let ?s3 = "s3\<lparr>nb_boot_now := 0\<rparr>"
  have f: "file_ok (nb_files s NbKernel)" using ok by (simp add: ready_def up_def nb_good_def files_ok_def)
  have x: "content (nb_files s NbKernel) = x" using kern(1) by (simp add: has_kernel_def)
  have l: "length x = unat (nb_offset (nb_files s NbKernel))" using length_content [OF f] x by simp
  have big: "\<not> nb_offset (nb_files ?s3 NbKernel) < 32768"
    using l kern(2) pr(2) by (simp add: bootable_def word_less_nat_alt)
  define y where "y = drop (length x) (nb_data (nb_files s NbKernel))"
  have d: "nb_data (nb_files s NbKernel) = x @ y"
    using append_take_drop_id [of "length x" "nb_data (nb_files s NbKernel)"] x unfolding l y_def content_def by simp
  have "length x + length y + 15 < 2 ^ 64" using f d by (simp add: file_ok_def)
  then have mz: "is_efi_binary (nb_data (nb_files ?s3 NbKernel)) = Some False"
    using bootable_prefix(1) [OF kern(2)] d pr(2) by simp
  have snp: "snp ?s3 \<noteq> NULL" using p(2) by (simp add: up_def nb_good_def stack_ok_def drv_idle_def accounted_def)
  have env: "up t A ?s3" "gop ?s3 \<noteq> NULL" "length (e820table ?s3) = 128" "4095 \<le> caps ?s3 NbCmdline"
      "content (nb_files ?s3 NbKernel) = x"
    using p(2) ok pr(2) osboot_more [OF pr(3)] x by (simp_all add: ready_def caps_def)
  obtain kk s' where b: "boot_kernel (link_fw t) img (blob_of_file (nb_files ?s3 NbKernel)) (blob_of_file (nb_files ?s3 NbRamdisk))
      ((blob_of_file (nb_files ?s3 NbCmdline))\<lparr>b_size := 4096\<rparr>) ?s3 = Some (Started 0x100200 0x90000 kk s')" "fw s' = fw ?s3"
      "take (16 * unat syssize) (image_mem kk) = take (16 * unat syssize) (drop (512 * (unat sects + 1)) x)"
    using boot_received [OF env kern(2), of img] by blast
  have "netboot_poll (link_fw t) ?s = Some (1, ?s3)" using p(3) pr(1) by simp
  then have "netboot_round (link_fw t) img ?s = Some (Inr (Started 0x100200 0x90000 kk s'))"
    unfolding netboot_round_def using big mz link_close [OF snp, of t] b(1) by simp
  then have "react t img [nbmsg k NB_BOOT 0] (Running s) = Some (Ended (Started 0x100200 0x90000 kk s'), sent (fw s'))"
    by (simp add: with_msg_def)
  then show ?thesis using b(2,3) pr(4) by (auto simp: runs_kernel_def)
qed

section \<open>The laws of the peer\<close>

text \<open>The machine serves; up to four transmissions of a message go wrong, and what is under way are
  answers to the message before. An answer to the first block is not lost, for a repeated first block is not
  answered.\<close>

definition link_peer :: "(ex_st \<Rightarrow> bool) \<Rightarrow> u64 set \<Rightarrow> nat \<Rightarrow> u32 \<Rightarrow> link \<Rightarrow> u32 \<Rightarrow> bytes option \<Rightarrow> bool" where
  "link_peer t A cap k0 w c g =
     ((\<exists>s. target w = Running s \<and> ready t A cap s \<and> last_cookie s = c \<and> (\<forall>x. g = Some x \<longrightarrow> has_kernel x s)) \<and>
      (g = Some [] \<longrightarrow> c = k0) \<and> (\<forall>k. length (faults w k) \<le> 4) \<and> Lost_Answer \<notin> set (faults w (k0 + 1)) \<and>
      (\<forall>d\<in>set (inbound w @ late w). \<exists>x y. d = nbmsg c x y))"

lemma rd_cookie: "rd32 4 (nbmsg k c a @ x) = Some k"
  using rd_prefix(3) [of 4 "nbmsg k c a" x] by (simp add: nbmsg_read)

lemma peer_talk:
  assumes p: "link_peer t A cap k0 w c g" and new: "k \<noteq> c" and k: "rd32 4 msg = Some k" and fd: "fd \<noteq> 3"
    and fresh: "\<And>m. P m \<Longrightarrow> \<exists>m' out. react t img [msg] m = Some (m', out) \<and> answers out = [nbmsg k NB_ACK a] \<and> Q m'"
    and again: "\<And>m. Q m \<Longrightarrow> \<exists>m' out. react t img [msg] m = Some (m', out) \<and>
      answers out = (if resent then [nbmsg k NB_ACK a] else []) \<and> Q m'"
    and start: "P (target w)"
  shows "\<exists>ok w'. talk (link_os t img) fd msg k a 5 False w ok w' \<and> Q (target w') \<and> unread w' = unread w \<and>
    (\<forall>i. length (faults w' i) \<le> 4) \<and> Lost_Answer \<notin> set (faults w' (k0 + 1)) \<and>
    (ok \<longrightarrow> (\<forall>d\<in>set (inbound w' @ late w'). \<exists>x y. d = nbmsg k x y)) \<and> (resent \<or> Lost_Answer \<notin> set (faults w k) \<longrightarrow> ok)"
proof -
  have fl: "length (faults w i) \<le> 4" for i using p by (simp add: link_peer_def)
  have pq: "P (target w) \<and> length (faults w k) < 5 \<and> (0 :: nat) = 0 \<or> Q (target w) \<and> (0 :: nat) < 5"
    using start fl [of k] by simp
  have q: "inbound w @ late w = (inbound w @ late w) @ replicate 0 (nbmsg k NB_ACK a)" by simp
  have o: "olds k (inbound w @ late w)" using p new unfolding link_peer_def by (metis (no_types, lifting))
  obtain ok w' where t: "talk (link_os t img) fd msg k a 5 False w ok w'" "Q (target w')" "unread w' = unread w"
      "\<forall>i. set (faults w' i) \<subseteq> set (faults w i) \<and> length (faults w' i) \<le> length (faults w i) \<and>
        (i \<noteq> k \<longrightarrow> faults w' i = faults w i)"
      "ok \<longrightarrow> set (inbound w' @ late w') \<subseteq> {nbmsg k NB_ACK a}"
      "length (faults w k) < 5 \<longrightarrow> resent \<or> Lost_Answer \<notin> set (faults w k) \<and> (P (target w) \<or> (0 :: nat) < 0) \<longrightarrow> ok"
    using link_talk [where P = P and Q = Q and resent = resent, OF k refl fd fresh again pq q o] by blast
  have "length (faults w' i) \<le> 4" for i using t(4) [rule_format, of i] fl [of i] by linarith
  moreover have "Lost_Answer \<notin> set (faults w' (k0 + 1))" using t(4) p by (auto simp: link_peer_def)
  moreover have "resent \<or> Lost_Answer \<notin> set (faults w k) \<longrightarrow> ok" using t(6) fl [of k] start by auto
  moreover have "ok \<longrightarrow> (\<forall>d\<in>set (inbound w' @ late w'). \<exists>x y. d = nbmsg k x y)" using t(5) by blast
  ultimately show ?thesis using t(1-3) by blast
qed

lemma peer_open:
  assumes p: "link_peer t A cap k0 w c g" and new: "k0 \<noteq> c" and fd: "fd \<noteq> 3"
  shows "\<exists>w'. talk (link_os t img) fd (nbmsg k0 NB_SEND_FILE 0 @ asc ''kernel.bin'' @ [0]) k0 0 5 False w True w' \<and>
    link_peer t A cap k0 w' k0 (Some []) \<and> unread w' = unread w"
proof -
  let ?P = "\<lambda>m. \<exists>s. m = Running s \<and> ready t A cap s" and ?Q = "kernel_opened t A cap k0"
  have fresh: "\<exists>m' out. react t img [nbmsg k0 NB_SEND_FILE 0 @ asc ''kernel.bin'' @ [0]] m = Some (m', out) \<and>
      answers out = [nbmsg k0 NB_ACK 0] \<and> ?Q m'" if "?P m" for m
    using that react_open [of t A cap _ img k0] by blast
  have again: "\<exists>m' out. react t img [nbmsg k0 NB_SEND_FILE 0 @ asc ''kernel.bin'' @ [0]] m = Some (m', out) \<and>
      answers out = (if True then [nbmsg k0 NB_ACK 0] else []) \<and> ?Q m'" if "?Q m" for m
    unfolding if_True using fresh that unfolding kernel_opened_def by blast
  obtain ok w' where "talk (link_os t img) fd (nbmsg k0 NB_SEND_FILE 0 @ asc ''kernel.bin'' @ [0]) k0 0 5 False w ok w'"
      "?Q (target w')" "unread w' = unread w" "\<forall>i. length (faults w' i) \<le> 4" "Lost_Answer \<notin> set (faults w' (k0 + 1))"
      "ok \<longrightarrow> (\<forall>d\<in>set (inbound w' @ late w'). \<exists>x y. d = nbmsg k0 x y)" "True \<or> Lost_Answer \<notin> set (faults w k0) \<longrightarrow> ok"
    using peer_talk [where P = ?P and Q = ?Q and resent = True, OF p new rd_cookie fd fresh again] p
    by (auto simp: link_peer_def)
  then show ?thesis by (auto simp: link_peer_def kernel_opened_def)
qed

lemma peer_data:
  assumes p: "link_peer t A cap k0 w c (Some got)" and fd: "fd \<noteq> 3"
    and len: "blk \<noteq> []" "length blk \<le> 1024" "length got + length blk \<le> cap"
  defines "a \<equiv> of_nat (length got)"
  shows "\<exists>w'. talk (link_os t img) fd (nbmsg (c + 1) NB_DATA a @ blk) (c + 1) a 5 False w True w' \<and>
    link_peer t A cap k0 w' (c + 1) (Some (got @ blk)) \<and> unread w' = unread w"
proof -
  let ?P = "\<lambda>m. \<exists>s. m = Running s \<and> ready t A cap s \<and> last_cookie s = c \<and> has_kernel got s"
    and ?Q = "stored t A cap (c + 1) a (got @ blk)"
  have fresh: "\<exists>m' out. react t img [nbmsg (c + 1) NB_DATA a @ blk] m = Some (m', out) \<and>
      answers out = [nbmsg (c + 1) NB_ACK a] \<and> ?Q m'" if "?P m" for m
    using that react_block [of t A cap _ got "c + 1" blk img] len by (auto simp: a_def)
  have again: "\<exists>m' out. react t img [nbmsg (c + 1) NB_DATA a @ blk] m = Some (m', out) \<and>
      answers out = (if got \<noteq> [] then [nbmsg (c + 1) NB_ACK a] else []) \<and> ?Q m'" if "?Q m" for m
    using react_block_again [OF that len] by (simp add: a_def)
  have lost: "got \<noteq> [] \<or> Lost_Answer \<notin> set (faults w (c + 1))" using p by (auto simp: link_peer_def)
  obtain ok w' where "talk (link_os t img) fd (nbmsg (c + 1) NB_DATA a @ blk) (c + 1) a 5 False w ok w'"
      "?Q (target w')" "unread w' = unread w" "\<forall>i. length (faults w' i) \<le> 4" "Lost_Answer \<notin> set (faults w' (k0 + 1))"
      "ok \<longrightarrow> (\<forall>d\<in>set (inbound w' @ late w'). \<exists>x y. d = nbmsg (c + 1) x y)"
      "got \<noteq> [] \<or> Lost_Answer \<notin> set (faults w (c + 1)) \<longrightarrow> ok"
    using peer_talk [where P = ?P and Q = ?Q and resent = "got \<noteq> []", OF p _ rd_cookie fd fresh again] p
    by (auto simp: link_peer_def)
  then show ?thesis using lost len(1) by (auto simp: link_peer_def stored_def)
qed

lemma peer_boot:
  assumes p: "link_peer t A cap k0 w c (Some got)" and fd: "fd \<noteq> 3" and boot: "bootable sects syssize got"
  shows "\<exists>ok w'. talk (link_os t img) fd (nbmsg (c + 1) NB_BOOT 0) (c + 1) 0 5 False w ok w' \<and>
    runs_kernel sects syssize got (target w')"
proof -
  let ?P = "\<lambda>m. \<exists>s. m = Running s \<and> ready t A cap s \<and> has_kernel got s" and ?Q = "runs_kernel sects syssize got"
  have fresh: "\<exists>m' out. react t img [nbmsg (c + 1) NB_BOOT 0] m = Some (m', out) \<and>
      answers out = [nbmsg (c + 1) NB_ACK 0] \<and> ?Q m'" if "?P m" for m
    using that react_boot [OF _ _ boot, of t A cap _ img "c + 1"] by auto
  have again: "\<exists>m' out. react t img [nbmsg (c + 1) NB_BOOT 0] m = Some (m', out) \<and>
      answers out = (if False then [nbmsg (c + 1) NB_ACK 0] else []) \<and> ?Q m'" if "?Q m" for m
    using that by (auto simp: runs_kernel_def)
  show ?thesis
    using peer_talk [where P = ?P and Q = ?Q and resent = False, OF p _ nbmsg_read(2) fd fresh again] p
    by (auto simp: link_peer_def)
qed

interpretation link: netboot_peer "link_os t img" 4 fp k0 "link_peer t A cap k0"
  "\<lambda>w x. runs_kernel sects syssize x (target w)" "bootable sects syssize" unread cap
  for t img fp k0 A cap sects syssize
proof (unfold_locales, goal_cases)
  case (1 w c g)
  then show ?case by (intro peer_open) simp_all
next
  case (2 w c got blk)
  then show ?case by (intro peer_data) simp_all
next
  case (3 w c got)
  then show ?case by (intro peer_boot) simp_all
next
  case (4 w)
  then show ?case by (auto simp: link_os_def link_peer_def)
qed

section \<open>A whole session\<close>

text \<open>The machine comes on line in its first round, and a beacon is the first frame it sends.\<close>

lemma idle_poll:
  assumes ok: "up t A s" and inb: "inbox (fw s) = []"
  shows "\<exists>s'. netifc_poll (link_fw t) recv s = Some s' \<and> up t A s' \<and> inet6.more s' = inet6.more s \<and> sent (fw s') = sent (fw s)"
proof -
  have snp: "snp s \<noteq> NULL" using ok by (simp add: up_def nb_good_def stack_ok_def drv_idle_def accounted_def)
  obtain tx f s1 where g: "GetStatus ex_fw (fw s) = (0, 1, tx, f)"
      "(if tx \<noteq> NULL then eth_put_buffer tx (s\<lparr>fw := f\<rparr>) else Some (s\<lparr>fw := f\<rparr>)) = Some s1"
      "up t A s1" "inet6.more s1 = inet6.more s" "sent (fw s1) = sent (fw s)" "inbox (fw s1) = inbox (fw s)"
    using status_frees [OF ok] by blast
  have rx: "Receive ex_fw 1514 (fw s1) = (6, \<lambda>_. 0, 0, fw s1)" using g(6) inb by (simp add: ex_fw_def)
  have "netifc_poll (link_fw t) recv s = Some s1"
    unfolding netifc_poll_def if_not_P [OF snp] link_fw_net g(1) Let_def prod.case g(2) Option.bind.simps
    by (simp add: rx)
  then show ?thesis using g(3-5) by blast
qed

lemma first_poll:
  assumes ok: "up t A s" "eth_buffers s \<noteq> NULL" and off: "nb_online s = 0" "nb_boot_now s = 0"
    and fw: "inbox (fw s) = []" "sent (fw s) = []"
  shows "\<exists>s' bs. netboot_poll (link_fw t) s = Some (0, s') \<and> up t A s' \<and> proto s' = proto (s\<lparr>nb_online := 1\<rparr>) \<and>
    sent (fw s') = beacon_frame s # bs"
proof -
  define s0 where "s0 = (printf ''netboot: interface online\<newline>'' [] s)\<lparr>nb_online := 1, nb_fastcount := 20\<rparr>"
  have s0: "up t A s0" "fw s0 = fw s" "eth_buffers s0 \<noteq> NULL" "beacon_frame s0 = beacon_frame s" "proto s0 = proto (s\<lparr>nb_online := 1\<rparr>)"
    using ok by (simp add: s0_def, simp_all add: s0_def beacon_frame_def proto_def printf_def)
  have act: "netifc_active s"
    using ok(1) by (simp add: netifc_active_def up_def nb_good_def stack_ok_def drv_idle_def accounted_def)
  obtain s1 where s1: "advertise (link_fw t) s0 = Some s1" "up t A s1" "inet6.more s1 = inet6.more s0" "inbox (fw s1) = []"
      "sent (fw s1) = [beacon_frame s]"
    using advertise_wire [OF s0(1)] s0(2-4) fw by auto
  obtain s2 bs where s2: "netboot_tick (link_fw t) s1 = Some s2" "up t A s2" "proto s2 = proto s1" "inbox (fw s2) = []"
      "sent (fw s2) = beacon_frame s # bs"
    using tick_wire [OF s1(2)] s1(4,5) by auto
  obtain s3 where s3: "netifc_poll (link_fw t) (udp6_recv (link_fw t)) s2 = Some s3" "up t A s3" "inet6.more s3 = inet6.more s2"
      "sent (fw s3) = sent (fw s2)"
    using idle_poll [OF s2(2,4)] by blast
  have p: "proto s3 = proto (s\<lparr>nb_online := 1\<rparr>)" using proto_more [OF s3(3)] s2(3) proto_more [OF s1(3)] s0(5) by simp
  then have "nb_boot_now s3 = 0" using off(2) by (simp add: proto_def)
  moreover have "advertise (link_fw t) (netifc_set_timer (link_fw t) FAST_TICK
      ((printf ''netboot: interface online\<newline>'' [] s)\<lparr>nb_online := 1, nb_fastcount := 20\<rparr>)) = Some s1"
    using s1(1) by (simp add: s0_def)
  ultimately have "netboot_poll (link_fw t) s = Some (0, s3)"
    unfolding netboot_poll_def if_P [OF act] if_P [OF off(1)] by (simp only: Option.bind.simps s2(1) s3(1)) simp
  then show ?thesis using s3(2,4) s2(5) p by (intro exI [of _ s3] exI [of _ bs]) simp
qed

text \<open>A machine that is off line, but could boot.\<close>

definition startable :: "(ex_st \<Rightarrow> bool) \<Rightarrow> u64 set \<Rightarrow> ex_st osboot \<Rightarrow> bool" where
  "startable t A s = (up t A s \<and> eth_buffers s \<noteq> NULL \<and> nb_online s = 0 \<and> nb_boot_now s = 0 \<and>
     take 2 (ll_ip6_addr s) = [0xFE, 0x80] \<and> caps s NbKernel < 2 ^ 32 \<and> 4095 \<le> caps s NbCmdline \<and>
     gop s \<noteq> NULL \<and> length (e820table s) = 128)"

text \<open>The loader when it turns to the network, with its variables as they were at the start but for the
  screen it found; \<open>power_on\<close> is what it does until the server loop.\<close>

definition unstarted :: "ex_st osboot \<Rightarrow> bool" where
  "unstarted s = (pristine ex_inflight s \<and> (\<forall>i. nb_offset (nb_files s i) = 0) \<and> nb_online s = 0 \<and> nb_boot_now s = 0 \<and>
     gop s \<noteq> NULL \<and> length (e820table s) = 128)"

definition power_on :: "(ex_st \<Rightarrow> bool) \<Rightarrow> u64 \<Rightarrow> ex_st osboot \<Rightarrow> ex_st osboot option" where
  "power_on t cmd s =
     (let (ok1, s) = alloc_file (link_fw t) NbKernel KBUFSIZE s; (ok2, s) = alloc_file (link_fw t) NbRamdisk RBUFSIZE s
      in if \<not> ok1 \<or> \<not> ok2 then None
      else do { (r, s) \<leftarrow> netboot_init (link_fw t) (init_cmdline cmd s);
                if r \<noteq> 0 then None else Some (printf ''\<newline>NetBoot Server Started...\<newline>\<newline>'' [] s) })"

lemma network_boot_power_on:
  assumes "power_on t cmd s = Some s'"
  shows "network_boot (link_fw t) img cmd s =
    do { e \<leftarrow> netboot_loop (link_fw t) img s'; case e of Returned r s \<Rightarrow> boot_failure (link_fw t) s | e \<Rightarrow> Some e }"
  using assms unfolding power_on_def network_boot_def
  by (auto simp: Let_def split: prod.splits if_splits bind_splits)

lemma link_open_succeeds:
  assumes "netifc_open (link_fw t) s = Some (r, s')"
  shows "r = 0"
  using assms
  by (auto simp: netifc_open_def install_filters_def force_promisc_def start_snp_def ex_fw_def ex_mode_def Let_def
      split: bind_splits if_splits option.splits)

lemma power_on_startable:
  assumes ok: "unstarted s"
  shows "\<exists>A s'. power_on t cmd s = Some s' \<and> startable t A s' \<and> caps s' NbKernel = unat KBUFSIZE \<and> last_cookie s' = last_cookie s"
proof -
  obtain s1 where s1: "alloc_file (link_fw t) NbKernel KBUFSIZE s = (True, s1)" "caps s1 NbKernel = unat KBUFSIZE"
      "last_cookie s1 = last_cookie s" "nb_online s1 = 0" "nb_boot_now s1 = 0" "netboot.more s1 = netboot.more s"
    using ok by (simp add: alloc_file_def nb_file_upd_def caps_def unstarted_def)
  obtain s2 where s2: "alloc_file (link_fw t) NbRamdisk RBUFSIZE s1 = (True, s2)" "caps s2 NbKernel = unat KBUFSIZE"
      "last_cookie s2 = last_cookie s" "nb_online s2 = 0" "nb_boot_now s2 = 0" "netboot.more s2 = netboot.more s"
    using s1 by (simp add: alloc_file_def nb_file_upd_def caps_def)
  let ?s = "init_cmdline cmd s2"
  have pr: "pristine ex_inflight ?s" "files_ok ?s"
    using server_prepared [OF link_contracts(3) _ _ s1(1) s2(1), of cmd] ok by (simp_all add: unstarted_def)
  obtain r s3 where s3: "netifc_open (link_fw t) ?s = Some (r, s3)" "r = 0 \<longrightarrow> opened (link_fw t) ex_inflight s3"
      "inet6.more s3 = inet6.more ?s"
    using netifc_open_ok [OF link_contracts(3,1) pr(1)] by blast
  have r: "r = 0" using link_open_succeeds [OF s3(1)] .
  let ?A = "set (slots (eth_buffers_base s3) 16)" and ?s' = "printf ''\<newline>NetBoot Server Started...\<newline>\<newline>'' [] s3"
  obtain mac where o: "stack_ok (link_fw t) ex_inflight ?A s3" "pool s3 ?A (rev (slots (eth_buffers_base s3) 16))"
      "ll_ip6_addr s3 = ll_addr mac"
    using s3(2) r by (auto simp: opened_def)
  have p: "proto s3 = proto ?s" by (rule proto_more [OF s3(3)])
  have f: "nb_files s3 = nb_files ?s" "nb_online s3 = 0" "nb_boot_now s3 = 0" "last_cookie s3 = last_cookie s"
      "netboot.more s3 = netboot.more s"
    using p s2 by (simp_all add: proto_def init_cmdline_def nb_file_upd_def)
  have c: "caps s3 NbKernel = unat KBUFSIZE" "caps s3 NbCmdline = 4096"
    using f(1) s2(2) by (simp_all add: caps_def init_cmdline_def nb_file_upd_def)
  have sl: "slots (eth_buffers_base s3) 16 \<noteq> []" by (metis length_slots length_0_conv zero_neq_numeral)
  then have "eth_buffers s3 \<noteq> NULL"
    using o(2) by (cases "rev (slots (eth_buffers_base s3) 16)") (auto simp: pool_def)
  moreover have "up t ?A s3"
    using o(1) sl pr(2) files_ok_more [OF s3(3)] by (simp add: up_def nb_good_def)
  ultimately have "startable t ?A s3"
    using o(3) f c osboot_more [OF f(5)] ok by (simp add: startable_def unstarted_def ll_addr_def)
  then have "startable t ?A ?s'" by (simp add: startable_def) (simp add: caps_def printf_def)
  moreover have "power_on t cmd s = Some ?s'"
    using s1(1) s2(1) s3(1) r by (simp add: power_on_def netboot_init_def)
  ultimately show ?thesis using c(1) f(4)
    by (intro exI [of _ ?A] exI [of _ ?s']) (simp add: caps_def printf_def)
qed

text \<open>The world of the client when the machine has been switched on and did its first round.\<close>

definition switched_on :: "(ex_st \<Rightarrow> bool) \<Rightarrow> u64 \<Rightarrow> u64 \<Rightarrow> ex_st osboot \<Rightarrow> bytes \<Rightarrow> (u32 \<Rightarrow> fault list) \<Rightarrow> link option" where
  "switched_on t img cmd s file fs =
     do { s \<leftarrow> power_on t cmd s;
          (m, out) \<leftarrow> react t img [] (Running s);
          Some (arrive [] [] out \<lparr>target = m, unread = file, faults = fs, inbound = [], late = [], beacons = [], sockets = 0\<rparr>) }"

lemma switched_on_ready:
  assumes off: "unstarted s"
  shows "\<exists>w A s' s1 ds. switched_on t img cmd s file fs = Some w \<and> target w = Running s' \<and> ready t A (unat KBUFSIZE) s' \<and>
    last_cookie s' = last_cookie s \<and> unread w = file \<and> faults w = fs \<and> inbound w = [] \<and> late w = [] \<and> sockets w = 0 \<and>
    beacons w = beacon_frame s1 # ds \<and> up t A s1 \<and> take 2 (ll_ip6_addr s1) = [0xFE, 0x80]"
proof -
  obtain A s0 where s0: "power_on t cmd s = Some s0" "startable t A s0" "caps s0 NbKernel = unat KBUFSIZE"
      "last_cookie s0 = last_cookie s"
    using power_on_startable [OF off] by blast
  let ?s = "s0\<lparr>fw := (fw s0)\<lparr>inbox := [], sent := []\<rparr>\<rparr>"
  have u: "up t A ?s" using s0(2) by (intro up_fw) (simp_all add: startable_def ex_inflight_def)
  obtain s' bs where p: "netboot_poll (link_fw t) ?s = Some (0, s')" "up t A s'" "proto s' = proto (?s\<lparr>nb_online := 1\<rparr>)"
      "sent (fw s') = beacon_frame ?s # bs"
    using first_poll [OF u] s0(2) by (auto simp: startable_def)
  have r: "react t img [] (Running s0) = Some (Running s', sent (fw s'))" using p(1) by (simp add: netboot_round_def)
  have f: "nb_files s' = nb_files s0" "nb_boot_now s' = 0" "nb_online s' = 1" "last_cookie s' = last_cookie s0"
      "netboot.more s' = netboot.more s0"
    using p(3) s0(2) by (simp_all add: proto_def startable_def)
  have "ready t A (unat KBUFSIZE) s'"
    using p(2) f(1-3) osboot_more [OF f(5)] s0(2,3) by (simp add: ready_def startable_def caps_def)
  moreover have "dst_port (beacon_frame ?s) = be16 NB_ADVERT_PORT"
    using udp6_frame_parts(2) [OF beacon_lens [OF u]] by (simp add: beacon_frame_def)
  moreover have "take 2 (ll_ip6_addr ?s) = [0xFE, 0x80]" using s0(2) by (simp add: startable_def)
  ultimately show ?thesis using r f(4) p(4) s0(1,4) u
    by (auto simp: switched_on_def arrive_def intro!: exI [of _ A] exI [of _ ?s])
qed

text \<open>What the client does on this network comes down to the transfer: the first thing it reads is a
  beacon, the first socket is that for the beacons, and the second one that of the transfer.\<close>

lemma bind_pair: "Option.bind x (\<lambda>s. Some (f s)) = map_option f x"
  by (cases x) simp_all

lemma xfer_link:
  assumes "sockets (world s) = 1"
  shows "xfer (link_os t img) addr fn msgbuf s =
    xfer_socket (link_os t img) 4 1 fn msgbuf (s\<lparr>world := (world s)\<lparr>sockets := 2\<rparr>\<rparr>)"
  using assms by (simp add: xfer_def link_os_def numeral_2_eq_2 bind_pair option.map_ident)

lemma main_beacon:
  assumes f: "beacons (world s) = beacon_frame s1 # ds" and u: "up t A s1" and src: "take 2 (ll_ip6_addr s1) = [0xFE, 0x80]"
    and so: "sockets (world s) = 1"
  shows "\<exists>es. main_loop (link_os t img) 3 fn 1 msgbuf s =
    xfer_socket (link_os t img) 4 1 fn msgbuf (s\<lparr>world := (world s)\<lparr>beacons := ds, sockets := 2\<rparr>, errs := es\<rparr>)"
proof -
  let ?w = "(world s)\<lparr>beacons := ds\<rparr>" and ?d = "nbmsg 0 NB_ADVERTISE 0 @ advertise_data" and ?os = "link_os t img"
  define ra where "ra = \<lparr>sin6_addr = ll_ip6_addr s1, sin6_port = of_le (take 2 (drop 54 (beacon_frame s1)))\<rparr>"
  note l = beacon_lens [OF u]
  have "take 16 (drop 22 (beacon_frame s1)) = ll_ip6_addr s1"
    using l by (simp add: beacon_frame_def udp6_frame_def eth_ip6_header_def to_le_4_v6)
  moreover have "drop 62 (beacon_frame s1) = ?d" "length (beacon_frame s1) = 62 + length ?d"
    using udp6_frame_parts(1) [OF l] l unfolding beacon_frame_def by (simp_all add: length_udp6_frame)
  ultimately have rcv: "p_recvfrom ?os 3 4096 (world s) = (int (length ?d), ?d, ra, ?w)"
    using f by (simp add: link_os_def link_recvfrom_def ra_def)
  have r2: "rd8 0 (ll_ip6_addr s1) = Some 0xFE" "rd8 1 (ll_ip6_addr s1) = Some 0x80"
    using src l(3) by (auto simp: rd8_def take_2)
  have b: "beacon (int (length ?d)) ?d ra (s\<lparr>world := ?w\<rparr>) = Some (True, s\<lparr>world := ?w\<rparr>)"
    using r2 by (simp add: beacon_def ra_def nbmsg_def rd32_def rdn_def of_le_to_le nat_add_distrib)
  let ?s = "fprintf (''%s: sending '' @ quoted ''%s'' @ ''...\<newline>'') [PStr (Some (appname s)), PStr (Some (asc fn @ [0]))]
    (fprintf ''%s: got beacon from [%s]%d\<newline>'' [PStr (Some (appname s)), PStr (Some (p_ntop ?os (sin6_addr ra))),
       PInt (ucast (swap16 (sin6_port ra)))] (s\<lparr>world := ?w\<rparr>))"
  have "main_loop ?os 3 fn 1 msgbuf s = xfer ?os ra fn msgbuf ?s"
    using rcv b by (subst main_loop.simps) (simp add: fprintf_def)
  also have "\<dots> = xfer_socket ?os 4 1 fn msgbuf (?s\<lparr>world := (world ?s)\<lparr>sockets := 2\<rparr>\<rparr>)"
    using so by (intro xfer_link) (simp add: fprintf_def)
  also have "?s\<lparr>world := (world ?s)\<lparr>sockets := 2\<rparr>\<rparr> = s\<lparr>world := (world s)\<lparr>beacons := ds, sockets := 2\<rparr>, errs := errs ?s\<rparr>"
    by (cases s) (simp add: fprintf_def)
  finally show ?thesis by blast
qed

lemma client_session:
  assumes f: "beacons w = beacon_frame s1 # ds" and u: "up t A s1" and src: "take 2 (ll_ip6_addr s1) = [0xFE, 0x80]"
    and so: "sockets w = 0" and fn: "fn = [] \<or> hd fn \<noteq> CHR ''-''"
  shows "\<exists>es. nbserver_main (link_os t img) argv0 [''-1'', fn] msgbuf (c\<lparr>world := w\<rparr>) =
    map_option (Pair 0) (xfer_socket (link_os t img) 4 1 fn msgbuf
      (c\<lparr>world := w\<lparr>beacons := ds, sockets := 2\<rparr>, appname := asc argv0 @ [0], errs := es\<rparr>))"
proof -
  let ?loc = "[PStr (Some (asc argv0 @ [0])), PStr (Some [0]), PInt (ucast (swap16 (swap16 NB_ADVERT_PORT)))]"
  let ?c = "fprintf ''%s: listening on [%s]%d\<newline>'' ?loc (c\<lparr>world := w\<lparr>sockets := 1\<rparr>, appname := asc argv0 @ [0]\<rparr>)"
  obtain es where es: "main_loop (link_os t img) 3 fn 1 msgbuf ?c =
      xfer_socket (link_os t img) 4 1 fn msgbuf (?c\<lparr>world := (world ?c)\<lparr>beacons := ds, sockets := 2\<rparr>, errs := es\<rparr>)"
    using main_beacon [OF _ u src, of ?c ds img fn msgbuf] f by (auto simp: fprintf_def)
  have c: "?c\<lparr>world := (world ?c)\<lparr>beacons := ds, sockets := 2\<rparr>, errs := es\<rparr> =
      c\<lparr>world := w\<lparr>beacons := ds, sockets := 2\<rparr>, appname := asc argv0 @ [0], errs := es\<rparr>"
    by (cases c) (simp add: fprintf_def)
  have a: "parse_args [''-1'', fn] None 0 = Some (fn, 1)" using fn by auto
  have "nbserver_main (link_os t img) argv0 [''-1'', fn] msgbuf (c\<lparr>world := w\<rparr>) =
      map_option (Pair 0) (main_loop (link_os t img) 3 fn 1 msgbuf ?c)"
    using so unfolding nbserver_main_def a by (cases c) (simp add: link_os_def bind_pair)
  then show ?thesis unfolding es c by blast
qed

text \<open>Opening the file, whatever is wrong with the network for other messages; and the first block
  when its acknowledgement is lost.\<close>

lemma first_message:
  assumes w: "target w = Running s" "ready t A cap s" "inbound w = []" "late w = []" and fs: "length (faults w k0) \<le> 4"
    and fd: "fd \<noteq> 3"
  shows "\<exists>w'. talk (link_os t img) fd (nbmsg k0 NB_SEND_FILE 0 @ asc ''kernel.bin'' @ [0]) k0 0 5 False w True w' \<and>
    kernel_opened t A cap k0 (target w') \<and> unread w' = unread w \<and> faults w' (k0 + 1) = faults w (k0 + 1) \<and>
    set (inbound w' @ late w') \<subseteq> {nbmsg k0 NB_ACK 0}"
proof -
  let ?P = "\<lambda>m. \<exists>s. m = Running s \<and> ready t A cap s" and ?Q = "kernel_opened t A cap k0"
  have fresh: "\<exists>m' out. react t img [nbmsg k0 NB_SEND_FILE 0 @ asc ''kernel.bin'' @ [0]] m = Some (m', out) \<and>
      answers out = [nbmsg k0 NB_ACK 0] \<and> ?Q m'" if "?P m" for m
    using that react_open [of t A cap _ img k0] by blast
  have again: "\<exists>m' out. react t img [nbmsg k0 NB_SEND_FILE 0 @ asc ''kernel.bin'' @ [0]] m = Some (m', out) \<and>
      answers out = (if True then [nbmsg k0 NB_ACK 0] else []) \<and> ?Q m'" if "?Q m" for m
    unfolding if_True using fresh that unfolding kernel_opened_def by blast
  have pq: "?P (target w) \<and> length (faults w k0) < 5 \<and> (0 :: nat) = 0 \<or> ?Q (target w) \<and> (0 :: nat) < 5" using w(1,2) fs by simp
  have q: "inbound w @ late w = [] @ replicate 0 (nbmsg k0 NB_ACK 0)" using w(3,4) by simp
  obtain ok w' where "talk (link_os t img) fd (nbmsg k0 NB_SEND_FILE 0 @ asc ''kernel.bin'' @ [0]) k0 0 5 False w ok w'"
      "?Q (target w')" "unread w' = unread w"
      "\<forall>i. set (faults w' i) \<subseteq> set (faults w i) \<and> length (faults w' i) \<le> length (faults w i) \<and>
        (i \<noteq> k0 \<longrightarrow> faults w' i = faults w i)"
      "ok \<longrightarrow> set (inbound w' @ late w') \<subseteq> {nbmsg k0 NB_ACK 0}"
      "length (faults w k0) < 5 \<longrightarrow> True \<or> Lost_Answer \<notin> set (faults w k0) \<and> (?P (target w) \<or> (0 :: nat) < 0) \<longrightarrow> ok"
    using link_talk [where P = ?P and Q = ?Q and resent = True, OF rd_cookie refl fd fresh again pq q] by auto
  then show ?thesis using fs by (intro exI [of _ w']) auto
qed

lemma first_block_lost:
  assumes op: "kernel_opened t A cap k0 (target w)" and len: "blk \<noteq> []" "length blk \<le> 1024" "length blk \<le> cap"
    and lost: "faults w (k0 + 1) = Lost_Answer # fs" and old: "set (inbound w @ late w) \<subseteq> {nbmsg k0 NB_ACK 0}" and fd: "fd \<noteq> 3"
  shows "\<exists>w'. talk (link_os t img) fd (nbmsg (k0 + 1) NB_DATA 0 @ blk) (k0 + 1) 0 5 False w False w' \<and>
    stored t A cap (k0 + 1) 0 blk (target w')"
proof -
  let ?Q = "stored t A cap (k0 + 1) 0 blk"
  obtain s where s: "target w = Running s" "ready t A cap s" "has_kernel [] s" "last_cookie s \<noteq> k0 + 1"
    using op by (auto simp: kernel_opened_def)
  have fresh: "\<exists>m' out. react t img [nbmsg (k0 + 1) NB_DATA 0 @ blk] (target w) = Some (m', out) \<and> ?Q m'"
    using react_block [OF s(2-4), of blk img] len unfolding s(1) by (auto simp del: react.simps)
  have again: "\<exists>m' out. react t img [nbmsg (k0 + 1) NB_DATA 0 @ blk] m = Some (m', out) \<and> answers out = [] \<and> ?Q m'" if "?Q m" for m
    using react_block_again [of t A cap "k0 + 1" 0 "[]" blk m img] that len by simp
  have "olds (k0 + 1) (inbound w @ late w)"
  proof
    fix d assume "d \<in> set (inbound w @ late w)"
    then have "k0 \<noteq> k0 + 1 \<and> d = nbmsg k0 NB_ACK 0" using old by auto
    then show "\<exists>k' c a. k' \<noteq> k0 + 1 \<and> d = nbmsg k' c a" by blast
  qed
  then show ?thesis using talk_lost [where Q = ?Q, OF rd_cookie fd fresh again lost] by simp
qed

section \<open>An example\<close>

text \<open>A machine that was just started, a kernel, and a client.\<close>

definition ex_off :: "ex_st osboot" where
  "ex_off = ex_os \<lparr>sent = [], owned = [], inbox = []\<rparr>"

lemma ex_unstarted: "unstarted ex_off" "last_cookie ex_off = 0"
  by (simp_all add: unstarted_def pristine_def ex_off_def ex_os_def ex_inflight_def addrs_ok_def filters_ok_def ex_file_def
      ex_lens ex_peer_def)

definition ex_kernel :: bytes where
  "ex_kernel = ex_image 2000 @ replicate 31984 0x90"

lemma length_ex_kernel: "length ex_kernel = 33024"
  by (simp add: ex_kernel_def length_ex_image)

lemma ex_bootable: "bootable 1 2000 ex_kernel"
proof -
  have "is_efi_binary ex_kernel = Some False"
    by (simp add: is_efi_binary_def ex_kernel_def ex_image_def rd8_def nth_append)
  moreover have "kernel_header ex_kernel 1 2000 0x66"
    using ex_image_header [of 2000] length_ex_image [of 2000]
    by (simp add: ex_kernel_def kernel_header_def rd_prefix)
  ultimately show ?thesis by (auto simp: bootable_def image_fits_def length_ex_kernel)
qed

definition ex_idle_link :: link where
  "ex_idle_link = \<lparr>target = Running ex_off, unread = [], faults = \<lambda>_. [], inbound = [], late = [], beacons = [], sockets = 0\<rparr>"

definition ex_client :: "link \<Rightarrow> link nbs" where
  "ex_client w = \<lparr>world = w, nbs_cookie = 1, appname = [], errs = []\<rparr>"

end
