(* ===== verification/Headers.thy ===== *)
theory Headers
  imports Inet6_Recv
begin

unbundle bit_operations_syntax

text \<open>
  The packed structures of \<^verbatim>\<open>src/inet6.h\<close>. A structure is a record with the values the processor
  loads from its fields; \<open>..._bytes\<close> is its image in memory and \<open>..._at\<close> what a pointer of that type
  into an object reads. The frames the stack sends are described by them, as the standards do.
\<close>

section \<open>Layouts\<close>

text \<open>The interface: a structure of \<open>size\<close> bytes, with arrays of the declared lengths (\<open>wf\<close>).\<close>

locale struct_layout =
  fixes wf :: "'h \<Rightarrow> bool" and enc :: "'h \<Rightarrow> bytes" and dec :: "bytes \<Rightarrow> nat \<Rightarrow> 'h option" and size :: nat
  assumes size: "wf h \<Longrightarrow> length (enc h) = size"
    and dec_enc: "wf h \<Longrightarrow> length pre = off \<Longrightarrow> dec (pre @ enc h @ rest) off = Some h"
    and dec_image: "dec d off = Some h \<Longrightarrow> off + size \<le> length d \<and> wf h \<and> take size (drop off d) = enc h"
begin

lemma dec_iff: "dec d off = Some h \<longleftrightarrow> off + size \<le> length d \<and> wf h \<and> take size (drop off d) = enc h"
proof
  assume r: "off + size \<le> length d \<and> wf h \<and> take size (drop off d) = enc h"
  then have "take off d @ enc h @ drop size (drop off d) = d" by (metis append_take_drop_id)
  then show "dec d off = Some h" using dec_enc [of h "take off d" off "drop size (drop off d)"] r by simp
qed (rule dec_image)

lemma enc_inj:
  assumes "wf g" and "wf h" and "enc g = enc h"
  shows "g = h"
  using dec_enc [of g "[]" 0 "[]"] dec_enc [of h "[]" 0 "[]"] assms by simp

text \<open>A structure is not changed by a write behind or before it.\<close>

lemma dec_wrn:
  assumes "wrn o' bs d = Some d'" and "off + size \<le> o' \<or> o' + length bs \<le> off"
  shows "dec d' off = dec d off"
proof -
  have "rdn off size d' = rdn off size d" using rdn_wrn_disjoint [OF assms(1), of off size] assms(2) by auto
  then have "off + size \<le> length d' \<and> take size (drop off d') = e \<longleftrightarrow> off + size \<le> length d \<and> take size (drop off d) = e" for e
    by (auto simp: rdn_def split: if_splits)
  then have "dec d' off = Some h \<longleftrightarrow> dec d off = Some h" for h unfolding dec_iff by blast
  then show ?thesis by (metis option.exhaust)
qed

end

lemma slice_join:
  "k = m + n \<Longrightarrow> o' = off + m \<Longrightarrow> take m (drop off d) = x \<Longrightarrow> take n (drop o' d) = y \<Longrightarrow> take k (drop off d) = x @ y"
  by (simp add: take_add add.commute)

lemma rd_bytes_at:
  "rd8 off d = Some b \<longleftrightarrow> off + 1 \<le> length d \<and> take 1 (drop off d) = [b]"
  "rd16 off d = Some h \<longleftrightarrow> off + 2 \<le> length d \<and> take 2 (drop off d) = to_le 2 h"
  "rd32 off d = Some w \<longleftrightarrow> off + 4 \<le> length d \<and> take 4 (drop off d) = to_le 4 w"
proof -
  show "rd8 off d = Some b \<longleftrightarrow> off + 1 \<le> length d \<and> take 1 (drop off d) = [b]"
    by (auto simp: rd8_def take_Suc hd_drop_conv_nth)
  show "rd16 off d = Some h \<longleftrightarrow> off + 2 \<le> length d \<and> take 2 (drop off d) = to_le 2 h"
    by (auto simp: rd16_def rdn_def to_le_of_le of_le_to_le)
  show "rd32 off d = Some w \<longleftrightarrow> off + 4 \<le> length d \<and> take 4 (drop off d) = to_le 4 w"
    by (auto simp: rd32_def rdn_def to_le_of_le of_le_to_le)
qed

lemma to_le_inject: "to_le 2 h = to_le 2 h' \<longleftrightarrow> h = h'" "to_le 4 w = to_le 4 w' \<longleftrightarrow> w = w'" for h h' :: u16 and w w' :: u32
proof -
  have "of_le (to_le 2 h) = h" "of_le (to_le 4 w) = w" for h :: u16 and w :: u32 by (simp_all add: of_le_to_le)
  then show "to_le 2 h = to_le 2 h' \<longleftrightarrow> h = h'" "to_le 4 w = to_le 4 w' \<longleftrightarrow> w = w'" by metis+
qed

lemmas struct_simps = rd_bytes_at rdn_eq_Some to_le_inject

section \<open>The structures\<close>

record ip6_hdr =
  ih_ver_tc_flow :: u32
  ih_length :: u16
  ih_next_header :: u8
  ih_hop_limit :: u8
  ih_src :: bytes
  ih_dst :: bytes

definition ip6_hdr_wf :: "ip6_hdr \<Rightarrow> bool" where
  "ip6_hdr_wf h = (length (ih_src h) = 16 \<and> length (ih_dst h) = 16)"

definition ip6_hdr_bytes :: "ip6_hdr \<Rightarrow> bytes" where
  "ip6_hdr_bytes h = to_le 4 (ih_ver_tc_flow h) @ to_le 2 (ih_length h) @ [ih_next_header h] @ [ih_hop_limit h] @ ih_src h @ ih_dst h"

definition ip6_hdr_at :: "bytes \<Rightarrow> nat \<Rightarrow> ip6_hdr option" where
  "ip6_hdr_at d off =
     do { v \<leftarrow> rd32 off d; l \<leftarrow> rd16 (off + 4) d; n \<leftarrow> rd8 (off + 6) d; h \<leftarrow> rd8 (off + 7) d;
          src \<leftarrow> rdn (off + 8) 16 d; dst \<leftarrow> rdn (off + 24) 16 d;
          Some \<lparr>ih_ver_tc_flow = v, ih_length = l, ih_next_header = n, ih_hop_limit = h, ih_src = src, ih_dst = dst\<rparr> }"

record udp_hdr =
  uh_src_port :: u16
  uh_dst_port :: u16
  uh_length :: u16
  uh_checksum :: u16

definition udp_hdr_bytes :: "udp_hdr \<Rightarrow> bytes" where
  "udp_hdr_bytes h = to_le 2 (uh_src_port h) @ to_le 2 (uh_dst_port h) @ to_le 2 (uh_length h) @ to_le 2 (uh_checksum h)"

definition udp_hdr_at :: "bytes \<Rightarrow> nat \<Rightarrow> udp_hdr option" where
  "udp_hdr_at d off =
     do { s \<leftarrow> rd16 off d; t \<leftarrow> rd16 (off + 2) d; l \<leftarrow> rd16 (off + 4) d; c \<leftarrow> rd16 (off + 6) d;
          Some \<lparr>uh_src_port = s, uh_dst_port = t, uh_length = l, uh_checksum = c\<rparr> }"

record icmp6_hdr =
  ic_type :: u8
  ic_code :: u8
  ic_checksum :: u16

definition icmp6_hdr_bytes :: "icmp6_hdr \<Rightarrow> bytes" where
  "icmp6_hdr_bytes h = [ic_type h] @ [ic_code h] @ to_le 2 (ic_checksum h)"

definition icmp6_hdr_at :: "bytes \<Rightarrow> nat \<Rightarrow> icmp6_hdr option" where
  "icmp6_hdr_at d off =
     do { t \<leftarrow> rd8 off d; k \<leftarrow> rd8 (off + 1) d; c \<leftarrow> rd16 (off + 2) d;
          Some \<lparr>ic_type = t, ic_code = k, ic_checksum = c\<rparr> }"

text \<open>A neighbour solicitation or advertisement extends the header of every ICMPv6 message.\<close>

record ndp_n_hdr = icmp6_hdr +
  nd_flags :: u32
  nd_target :: bytes

definition ndp_n_hdr_wf :: "ndp_n_hdr \<Rightarrow> bool" where
  "ndp_n_hdr_wf h = (length (nd_target h) = 16)"

definition ndp_n_hdr_bytes :: "ndp_n_hdr \<Rightarrow> bytes" where
  "ndp_n_hdr_bytes h = [ic_type h] @ [ic_code h] @ to_le 2 (ic_checksum h) @ to_le 4 (nd_flags h) @ nd_target h"

definition ndp_n_hdr_at :: "bytes \<Rightarrow> nat \<Rightarrow> ndp_n_hdr option" where
  "ndp_n_hdr_at d off =
     do { t \<leftarrow> rd8 off d; k \<leftarrow> rd8 (off + 1) d; c \<leftarrow> rd16 (off + 2) d; f \<leftarrow> rd32 (off + 4) d; a \<leftarrow> rdn (off + 8) 16 d;
          Some \<lparr>ic_type = t, ic_code = k, ic_checksum = c, nd_flags = f, nd_target = a\<rparr> }"

text \<open>They are laid out without gaps.\<close>

lemma bind_Some_iff: "(x \<bind> f = Some y) = (\<exists>a. x = Some a \<and> f a = Some y)"
  by (cases x) simp_all

interpretation ip6: struct_layout ip6_hdr_wf ip6_hdr_bytes ip6_hdr_at 40
proof (unfold_locales, goal_cases)
  case (1 h)
  then show ?case by (simp add: ip6_hdr_wf_def ip6_hdr_bytes_def)
next
  case (2 h pre off rest)
  then show ?case by (simp add: ip6_hdr_wf_def ip6_hdr_at_def ip6_hdr_bytes_def bind_Some_iff struct_simps)
next
  case (3 d off h)
  then have le: "off + 40 \<le> length d" and f: "take 4 (drop off d) = to_le 4 (ih_ver_tc_flow h)"
      "take 2 (drop (off + 4) d) = to_le 2 (ih_length h)"
      "take 1 (drop (off + 6) d) = [ih_next_header h]"
      "take 1 (drop (off + 7) d) = [ih_hop_limit h]"
      "take 16 (drop (off + 8) d) = ih_src h"
      "take 16 (drop (off + 24) d) = ih_dst h"
    by (auto simp: ip6_hdr_at_def bind_Some_iff struct_simps)
  have "take 40 (drop off d) = ip6_hdr_bytes h"
    unfolding ip6_hdr_bytes_def by (intro slice_join [of 40 4 36 "off + 4" "off"]
      slice_join [of 36 2 34 "off + 6" "off + 4"]
      slice_join [of 34 1 33 "off + 7" "off + 6"]
      slice_join [of 33 1 32 "off + 8" "off + 7"]
      slice_join [of 32 16 16 "off + 24" "off + 8"] f) simp_all
  then show ?case using le 3 by (auto simp: ip6_hdr_wf_def ip6_hdr_at_def bind_Some_iff struct_simps)
qed

interpretation udp: struct_layout "\<lambda>_. True" udp_hdr_bytes udp_hdr_at 8
proof (unfold_locales, goal_cases)
  case (1 h)
  then show ?case by (simp add: udp_hdr_bytes_def)
next
  case (2 h pre off rest)
  then show ?case by (simp add: udp_hdr_at_def udp_hdr_bytes_def bind_Some_iff struct_simps)
next
  case (3 d off h)
  then have le: "off + 8 \<le> length d" and f: "take 2 (drop off d) = to_le 2 (uh_src_port h)"
      "take 2 (drop (off + 2) d) = to_le 2 (uh_dst_port h)"
      "take 2 (drop (off + 4) d) = to_le 2 (uh_length h)"
      "take 2 (drop (off + 6) d) = to_le 2 (uh_checksum h)"
    by (auto simp: udp_hdr_at_def bind_Some_iff struct_simps)
  have "take 8 (drop off d) = udp_hdr_bytes h"
    unfolding udp_hdr_bytes_def by (intro slice_join [of 8 2 6 "off + 2" "off"]
      slice_join [of 6 2 4 "off + 4" "off + 2"]
      slice_join [of 4 2 2 "off + 6" "off + 4"] f) simp_all
  then show ?case using le 3 by (auto simp: udp_hdr_at_def bind_Some_iff struct_simps)
qed

interpretation icmp6: struct_layout "\<lambda>_. True" icmp6_hdr_bytes icmp6_hdr_at 4
proof (unfold_locales, goal_cases)
  case (1 h)
  then show ?case by (simp add: icmp6_hdr_bytes_def)
next
  case (2 h pre off rest)
  then show ?case by (simp add: icmp6_hdr_at_def icmp6_hdr_bytes_def bind_Some_iff struct_simps)
next
  case (3 d off h)
  then have le: "off + 4 \<le> length d" and f: "take 1 (drop off d) = [ic_type h]"
      "take 1 (drop (off + 1) d) = [ic_code h]"
      "take 2 (drop (off + 2) d) = to_le 2 (ic_checksum h)"
    by (auto simp: icmp6_hdr_at_def bind_Some_iff struct_simps)
  have "take 4 (drop off d) = icmp6_hdr_bytes h"
    unfolding icmp6_hdr_bytes_def by (intro slice_join [of 4 1 3 "off + 1" "off"]
      slice_join [of 3 1 2 "off + 2" "off + 1"] f) simp_all
  then show ?case using le 3 by (auto simp: icmp6_hdr_at_def bind_Some_iff struct_simps)
qed

interpretation ndp: struct_layout ndp_n_hdr_wf ndp_n_hdr_bytes ndp_n_hdr_at 24
proof (unfold_locales, goal_cases)
  case (1 h)
  then show ?case by (simp add: ndp_n_hdr_wf_def ndp_n_hdr_bytes_def)
next
  case (2 h pre off rest)
  then show ?case by (simp add: ndp_n_hdr_wf_def ndp_n_hdr_at_def ndp_n_hdr_bytes_def bind_Some_iff struct_simps)
next
  case (3 d off h)
  then have le: "off + 24 \<le> length d" and f: "take 1 (drop off d) = [ic_type h]"
      "take 1 (drop (off + 1) d) = [ic_code h]"
      "take 2 (drop (off + 2) d) = to_le 2 (ic_checksum h)"
      "take 4 (drop (off + 4) d) = to_le 4 (nd_flags h)"
      "take 16 (drop (off + 8) d) = nd_target h"
    by (auto simp: ndp_n_hdr_at_def bind_Some_iff struct_simps)
  have "take 24 (drop off d) = ndp_n_hdr_bytes h"
    unfolding ndp_n_hdr_bytes_def by (intro slice_join [of 24 1 23 "off + 1" "off"]
      slice_join [of 23 1 22 "off + 2" "off + 1"]
      slice_join [of 22 2 20 "off + 4" "off + 2"]
      slice_join [of 20 4 16 "off + 8" "off + 4"] f) simp_all
  then show ?case using le 3 by (auto simp: ndp_n_hdr_wf_def ndp_n_hdr_at_def bind_Some_iff struct_simps)
qed

section \<open>The frames of the stack\<close>

text \<open>The Ethernet and IPv6 headers.\<close>

definition sent_ip6_hdr :: "nat \<Rightarrow> u8 \<Rightarrow> bytes \<Rightarrow> bytes \<Rightarrow> ip6_hdr" where
  "sent_ip6_hdr len type src dst = \<lparr>ih_ver_tc_flow = 0x60, ih_length = swap16 (of_nat len), ih_next_header = type,
     ih_hop_limit = 255, ih_src = src, ih_dst = dst\<rparr>"

lemma eth_ip6_header_hdr:
  "eth_ip6_header dmac smac (of_nat len) type src dst = dmac @ smac @ [0x86, 0xDD] @ ip6_hdr_bytes (sent_ip6_hdr len type src dst)"
  by (simp add: eth_ip6_header_def ip6_hdr_bytes_def sent_ip6_hdr_def to_le_4_v6 to_le_swap16)

lemma udp6_segment_hdr:
  "udp6_segment sport dport c data = udp_hdr_bytes \<lparr>uh_src_port = swap16 sport, uh_dst_port = swap16 dport,
     uh_length = swap16 (of_nat (length data + 8)), uh_checksum = c\<rparr> @ data"
  by (simp add: udp6_segment_def udp_hdr_bytes_def to_le_swap16)

text \<open>The checksum is right in the sense of the standards: the one's complement sum over the
  pseudo header and the packet is all ones.\<close>

lemma ck_field_sum: "oc16 (n + unat (ck_field n)) = 65535"
proof (cases "oc16 n = 65535")
  case True
  then have "oc16 n \<noteq> 0" by simp
  then have "n \<noteq> 0" by (simp only: oc16_zero) simp
  then have "oc16 (n + 65535) = oc16 n" by (intro oc16_cong) simp_all
  then show ?thesis using True by (simp add: unat_ck_field)
next
  case False
  then show ?thesis using oc16_complement [of n] by (simp add: unat_ck_field)
qed

lemma udp6_checksum_ok:
  assumes "length src = 16" and "length dst = 16"
  shows "oc16 (ck_total HDR_UDP (of_nat (length data + 8)) src dst
    (udp6_segment sport dport (udp6_ck src dst sport dport data) data)) = 65535"
proof -
  let ?a = "be16 sport @ be16 dport @ be16 (of_nat (length data + 8))"
  have s: "udp6_segment sport dport c data = ?a @ to_le 2 c @ data" for c by (simp add: udp6_segment_def)
  have "even (length ?a)" by simp
  note f = ck_total_field [OF assms this, of HDR_UDP "of_nat (length data + 8)" _ data]
  show ?thesis unfolding udp6_ck_def s by (subst f) (rule ck_field_sum)
qed

text \<open>A frame that carries a datagram, by what its structures hold.\<close>

definition datagram_frame :: "bytes \<Rightarrow> bytes \<Rightarrow> bytes \<Rightarrow> bytes \<Rightarrow> u16 \<Rightarrow> u16 \<Rightarrow> bytes \<Rightarrow> bytes \<Rightarrow> bool" where
  "datagram_frame dmac smac src dst sport dport data d =
     (take 14 d = dmac @ smac @ [0x86, 0xDD] \<and>
      ip6_hdr_at d 14 = Some \<lparr>ih_ver_tc_flow = 0x60, ih_length = swap16 (of_nat (length data + 8)),
        ih_next_header = HDR_UDP, ih_hop_limit = 255, ih_src = src, ih_dst = dst\<rparr> \<and>
      (\<exists>c. c \<noteq> 0 \<and> udp_hdr_at d 54 = Some \<lparr>uh_src_port = swap16 sport, uh_dst_port = swap16 dport,
        uh_length = swap16 (of_nat (length data + 8)), uh_checksum = c\<rparr>) \<and>
      oc16 (ck_total HDR_UDP (of_nat (length data + 8)) src dst (drop 54 d)) = 65535 \<and> drop 62 d = data)"

lemma udp6_frame_datagram:
  assumes "length dmac = 6" "length smac = 6" "length src = 16" "length dst = 16"
  shows "datagram_frame dmac smac src dst sport dport data (udp6_frame dmac smac src dst sport dport data)"
proof -
  let ?h = "sent_ip6_hdr (length data + 8) HDR_UDP src dst" and ?c = "udp6_ck src dst sport dport data"
  let ?u = "\<lparr>uh_src_port = swap16 sport, uh_dst_port = swap16 dport, uh_length = swap16 (of_nat (length data + 8)), uh_checksum = ?c\<rparr>"
  let ?m = "dmac @ smac @ [0x86, 0xDD]" and ?d = "udp6_frame dmac smac src dst sport dport data"
  have wf: "ip6_hdr_wf ?h" using assms by (simp add: ip6_hdr_wf_def sent_ip6_hdr_def)
  have d: "?d = ?m @ ip6_hdr_bytes ?h @ udp_hdr_bytes ?u @ data"
    unfolding udp6_frame_def eth_ip6_header_hdr udp6_segment_hdr by simp
  have m: "length ?m = 14" "length (?m @ ip6_hdr_bytes ?h) = 54" using assms ip6.size [OF wf] by simp_all
  have "ip6_hdr_at ?d 14 = Some ?h" unfolding d by (rule ip6.dec_enc [OF wf m(1)])
  moreover have "udp_hdr_at ?d 54 = Some ?u"
    using udp.dec_enc [OF TrueI m(2), of ?u data] unfolding d by simp
  moreover have "drop 54 ?d = udp6_segment sport dport ?c data" unfolding d udp6_segment_hdr using m by simp
  moreover have "take 14 ?d = ?m" "drop 62 ?d = data" unfolding d using m(1) ip6.size [OF wf] udp.size [of ?u] by simp_all
  moreover have "?c \<noteq> 0" by (simp add: udp6_ck_def ck_field_nonzero)
  ultimately show ?thesis
    unfolding datagram_frame_def using udp6_checksum_ok [OF assms(3,4)] by (simp add: sent_ip6_hdr_def)
qed

text \<open>A packet under construction in a transmit buffer (\<open>ip6_pkt\<close>, \<open>udp_pkt\<close>): two bytes of padding and the
  Ethernet header, then the structures.\<close>

record ip6_pkt =
  pk_eth :: bytes
  pk_ip6 :: ip6_hdr

record udp_pkt = ip6_pkt +
  pk_udp :: udp_hdr

definition ip6_pkt_at :: "bytes \<Rightarrow> ip6_pkt option" where
  "ip6_pkt_at d = do { e \<leftarrow> rdn 0 16 d; h \<leftarrow> ip6_hdr_at d 16; Some \<lparr>pk_eth = e, pk_ip6 = h\<rparr> }"

definition udp_pkt_at :: "bytes \<Rightarrow> udp_pkt option" where
  "udp_pkt_at d = do { e \<leftarrow> rdn 0 16 d; h \<leftarrow> ip6_hdr_at d 16; u \<leftarrow> udp_hdr_at d 56;
     Some \<lparr>pk_eth = e, pk_ip6 = h, pk_udp = u\<rparr> }"

lemma ip6_setup_pkt:
  assumes "addrs_ok s" "length daddr = 16" "length p = 1516" and hop: "next_hop s daddr = Some dmac"
  shows "\<exists>p'. ip6_setup p daddr len type s = Some (0, p') \<and> length p' = 1516 \<and>
    ip6_pkt_at p' = Some \<lparr>pk_eth = take 2 p @ dmac @ ll_mac_addr s @ [0x86, 0xDD],
      pk_ip6 = sent_ip6_hdr len type (ll_ip6_addr s) daddr\<rparr> \<and> drop 56 p' = drop 56 p"
proof -
  define e where "e = take 2 p @ dmac @ ll_mac_addr s @ [0x86, 0xDD]"
  define h where "h = sent_ip6_hdr len type (ll_ip6_addr s) daddr"
  have wf: "ip6_hdr_wf h" using assms(1,2) by (simp add: h_def ip6_hdr_wf_def sent_ip6_hdr_def addrs_ok_def)
  have e: "length e = 16" using assms length_next_hop [OF assms(1,2) hop] by (simp add: e_def addrs_ok_def)
  have "ip6_setup p daddr len type s = Some (0, e @ ip6_hdr_bytes h @ drop 56 p)"
    using assms by (simp add: ip6_setup_eq eth_ip6_header_hdr e_def h_def)
  moreover have "rdn 0 16 (e @ ip6_hdr_bytes h @ drop 56 p) = Some e" using e by (simp add: rdn_def)
  ultimately show ?thesis
    unfolding e_def [symmetric] h_def [symmetric]
    using ip6.dec_enc [OF wf e, of "drop 56 p"] ip6.size [OF wf] e assms(3) by (simp add: ip6_pkt_at_def)
qed

lemma udp6_fill_pkt:
  assumes p: "length p = 1516" "ip6_pkt_at p = Some \<lparr>pk_eth = pre @ dmac @ smac @ [0x86, 0xDD],
      pk_ip6 = sent_ip6_hdr (dlen + 8) HDR_UDP src dst\<rparr>"
    and len: "length pre = 2" "length dmac = 6" "length smac = 6" and data: "off + dlen \<le> length data" "dlen \<le> 1452"
  defines "payload \<equiv> take dlen (drop off data)"
  shows "\<exists>p'. udp6_fill p data off dlen dport sport = Some p' \<and>
    udp_pkt_at p' = Some \<lparr>pk_eth = pre @ dmac @ smac @ [0x86, 0xDD], pk_ip6 = sent_ip6_hdr (dlen + 8) HDR_UDP src dst,
      pk_udp = \<lparr>uh_src_port = swap16 sport, uh_dst_port = swap16 dport, uh_length = swap16 (of_nat (dlen + 8)),
        uh_checksum = udp6_ck src dst sport dport payload\<rparr>\<rparr> \<and> take dlen (drop 64 p') = payload"
proof -
  define e where "e = pre @ dmac @ smac @ [0x86, 0xDD]"
  define h where "h = sent_ip6_hdr (dlen + 8) HDR_UDP src dst"
  define u where "u = \<lparr>uh_src_port = swap16 sport, uh_dst_port = swap16 dport, uh_length = swap16 (of_nat (dlen + 8)),
        uh_checksum = udp6_ck src dst sport dport payload\<rparr>"
  have r: "take 16 p = e" "ip6_hdr_at p 16 = Some h" using p(2) by (auto simp: ip6_pkt_at_def bind_Some_iff rdn_eq_Some e_def h_def)
  have h: "ip6_hdr_wf h" "take 40 (drop 16 p) = ip6_hdr_bytes h" using ip6.dec_image [OF r(2)] by simp_all
  have l: "length e = 16" "length src = 16" "length dst = 16" "length payload = dlen" "length (drop 56 p) = 1460"
    using len h(1) data(1) p(1) by (simp_all add: e_def h_def ip6_hdr_wf_def sent_ip6_hdr_def payload_def)
  have pe: "p = e @ ip6_hdr_bytes h @ drop 56 p"
    using append_take_drop_id [of 16 p] append_take_drop_id [of 40 "drop 16 p"] r(1) h(2) by simp
  then have "p = pre @ eth_ip6_header dmac smac (of_nat (dlen + 8)) HDR_UDP src dst @ drop 56 p"
    unfolding eth_ip6_header_hdr by (simp add: e_def h_def)
  then have "udp6_fill p data off dlen dport sport =
      Some (pre @ udp6_frame dmac smac src dst sport dport payload @ drop (8 + dlen) (drop 56 p))"
    unfolding payload_def using udp6_fill_eq [OF len l(2,3,5) data, of dport sport] by (simp only:)
  also have "pre @ udp6_frame dmac smac src dst sport dport payload @ drop (8 + dlen) (drop 56 p) =
      e @ ip6_hdr_bytes h @ udp_hdr_bytes u @ payload @ drop (8 + dlen) (drop 56 p)"
    unfolding udp6_frame_def eth_ip6_header_hdr udp6_segment_hdr l(4) by (simp add: e_def h_def u_def)
  finally have f: "udp6_fill p data off dlen dport sport =
      Some (e @ ip6_hdr_bytes h @ udp_hdr_bytes u @ payload @ drop (8 + dlen) (drop 56 p))" (is "_ = Some ?d") .
  have "rdn 0 16 ?d = Some e" using l(1) by (simp add: rdn_def)
  moreover have "ip6_hdr_at ?d 16 = Some h" by (rule ip6.dec_enc [OF h(1) l(1)])
  moreover have "length (e @ ip6_hdr_bytes h) = 56" using l(1) ip6.size [OF h(1)] by simp
  from udp.dec_enc [OF TrueI this, of u] have "udp_hdr_at ?d 56 = Some u" by simp
  moreover have "take dlen (drop 64 ?d) = payload" using l(1,4) ip6.size [OF h(1)] udp.size [of u] by simp
  ultimately show ?thesis unfolding e_def [symmetric] h_def [symmetric] u_def [symmetric] using f by (simp add: udp_pkt_at_def)
qed

text \<open>The advertisement that answers a solicitation: solicited, overriding, with the host's link
  address as its option.\<close>

lemma ndp_advert_hdr:
  assumes "addrs_ok s"
  shows "ndp_advert s = Some (ndp_n_hdr_bytes \<lparr>ic_type = ICMP6_NDP_N_ADVERTISE, ic_code = 0, ic_checksum = 0, nd_flags = 0x60,
    nd_target = ll_ip6_addr s\<rparr> @ [NDP_N_TGT_LL_ADDR, 1] @ ll_mac_addr s)"
  using assms
  by (simp add: ndp_advert_eq ndp_n_hdr_bytes_def to_le_4_v6 to_le_2)

end
