(* ===== verification/Spec2Isabelle.thy ===== *)
theory Spec2Isabelle
  imports Boot_Properties Session Headers
begin

unbundle bit_operations_syntax

text \<open>
  A verification of \<^emph>\<open>gigaboot20x6\<close>, a UEFI boot loader that boots a kernel from the disk or from
  the network, of the client program that sends it a kernel, and of three small programs beside it.

  \<^bold>\<open>The program.\<close> \<^verbatim>\<open>src/osboot.c\<close> is the loader: \<open>efi_main\<close> tries the local files and
  otherwise polls the netboot server. \<^verbatim>\<open>src/netboot.c\<close> is that server: it announces itself,
  receives files into the buffers \<open>osboot.c\<close> names, and acknowledges them.
  \<^verbatim>\<open>src/inet6.c\<close> is a small IPv6 stack (neighbour advertisement, echo, UDP) that calls the
  server back for each datagram, and \<^verbatim>\<open>src/netifc.c\<close> the Ethernet driver under it, over the
  firmware's network protocol. \<^verbatim>\<open>lib/goodies.c\<close>, \<^verbatim>\<open>lib/loadfile.c\<close>,
  \<^verbatim>\<open>lib/string.c\<close>, \<^verbatim>\<open>lib/console-printf.c\<close> and
  \<^verbatim>\<open>third_party/lk/src/printf.c\<close> are what all of them use. \<^verbatim>\<open>src/nbserver.c\<close> runs on
  the other machine: it waits for the server's beacon and sends a kernel, block by block.

  \<^bold>\<open>How C is modelled.\<close> \<open>Prelude\<close>: machine integers are words of their width; an object of memory is
  a byte list and every access to it is checked, so that an access outside it, like a loop that does
  not end, is the value \<open>None\<close>; return codes are ordinary values. \<open>Efi\<close>: the firmware is a record of
  functions over a state of any type, which the program threads through in the field \<open>fw\<close> of its
  own state; the state's records extend one another as the components do (\<open>machine\<close>, \<open>netifc\<close>,
  \<open>inet6\<close>, \<open>netboot\<close>, \<open>osboot\<close>). What a theorem needs of the firmware is a named predicate over
  that record (\<open>tx_contract\<close>, \<open>rx_contract\<close>, \<open>open_contract\<close>, \<open>page_contract\<close>, \<open>fs_contract\<close>,
  \<open>path_contract\<close>, \<open>usb_contract\<close>, \<open>image_contract\<close>, \<open>memmap_result\<close>, \<open>volume\<close>, \<open>keys_come\<close>), met by the firmwares of
  \<open>Examples\<close> and \<open>Boot_Examples\<close>. Calls of \<open>printf\<close> are recorded with format and arguments in
  \<open>console\<close>; \<open>Console\<close> and \<open>Printf_Spec\<close> say what such a call shows.

  \<^bold>\<open>The theories.\<close>
  \<^item> \<open>Cstring\<close>: \<^verbatim>\<open>lib/string.c\<close> and gnu-efi's memory functions.
  \<^item> \<open>Printf\<close>, \<open>Printf_Spec\<close>, \<open>Console\<close>: the printing engine with all its conversions, \<open>vsnprintf\<close>,
    and the console's output function; the text of a format and what the two outputs do with it.
  \<^item> \<open>Netifc\<close>, \<open>Netifc_Open\<close>, \<open>Driver\<close>: the driver, its buffers on a linked list, and its contract.
  \<^item> \<open>Ip6toa\<close>, \<open>Ip6toa_Spec\<close>: the text of an address.
  \<^item> \<open>Inet6\<close>, \<open>Checksum\<close>, \<open>Frames\<close>, \<open>Inet6_Send\<close>, \<open>Inet6_Recv\<close>, \<open>Headers\<close>: the stack, the one's
    complement sum, the packets as byte strings, the two directions, and the structures of
    \<^verbatim>\<open>inet6.h\<close> as views of those bytes.
  \<^item> \<open>Netboot\<close>, \<open>Netboot_Spec\<close>: the server, and the abstract append of blocks it refines.
  \<^item> \<open>Goodies\<close>: \<^verbatim>\<open>goodies.c\<close> and \<^verbatim>\<open>loadfile.c\<close>.
  \<^item> \<open>Memmap\<close>, \<open>Osboot\<close>, \<open>Osboot_Spec\<close>, \<open>Server\<close>: the memory map, the loader, what it hands to a
    kernel, and its server loop as a state machine (\<open>server_step\<close>).
  \<^item> \<open>Nbserver\<close>, \<open>Nbserver_Spec\<close>: the client over a record of system calls; what one message of it does
    on a network that loses and delays datagrams (\<open>talk\<close>), and what a whole transfer does with a peer
    that follows the protocol.
  \<^item> \<open>Link\<close>, \<open>Session\<close>: client and loader joined. \<open>Link\<close> is the network, at whose other end the loader runs
    its server loop down to the frames (\<open>react\<close>), with the faults that can befall each transmission;
    \<open>Session\<close> shows that the loader is such a peer, and follows a session from the start of the server
    (\<open>power_on\<close>) and its first beacon to the jump into the kernel.
  \<^item> \<open>Showmem\<close>, \<open>Fileio\<close>, \<open>Usbtest\<close>: the three small programs; \<^verbatim>\<open>hello.c\<close> is in \<open>Console\<close>.

  \<^bold>\<open>Interfaces.\<close> \<open>le_access\<close> (reading and writing words of 2, 4 and 8 bytes), \<open>buffer_pool\<close> (the
  driver's free list), \<open>eth_driver\<close> (what the stack relies on in the driver), \<open>slice_checksum\<close>,
  \<open>udp_service\<close> (what the stack relies on in its client), \<open>printf_sink\<close> (what the engine relies on in
  an output function; instances are the memory buffer and the console), \<open>struct_layout\<close> (a packed
  structure and its image in memory) and \<open>netboot_peer\<close> (what the client relies on in the other side; the
  instance is the loader behind the faulty network). Each is interpreted on the definitions of the model.

  \<^bold>\<open>What is shown.\<close> Here: datagrams arrive unchanged, damaged ones are dropped, no frame
  makes the stack leave its buffers, solicitations and echo requests are answered, no transmit buffer
  is ever lost, the server stores exactly what was sent (C1 to C13); addresses and formats are
  printed as they should be, but for one sign (C14 to C17); a whole session of client and machine over a
  network with faults ends with the kernel running (C36), but not when one particular answer is lost (C38);
  the client gives up and parses its arguments as it should (C37, C39). \<open>Boot_Properties\<close>:
  loading and starting a kernel (C18 to C21), and doing so from the local disk (C31), the memory map (C22,
  C23), the ACPI search (C24), the server loop (C25 to C28), how the loader ends (C40), the helpers (C29,
  C30) and the other programs (C32 to C35). C11, C15, C21, C24, C30, C35 and C38 show faults of the code: a
  lost acknowledgement of a first block (and what it does to a session), the sign of a left-justified number,
  a size check that does not protect a copy, a comparison of GUIDs with the wrong sense, and two resources
  that stay open on an error path.

  \<^bold>\<open>Loops.\<close> Loops over data are structural or have a measure. Those that depend on what is outside are
  \<open>partial_function (option)\<close>, and that they end is proved: \<open>memmap_loop\<close> and \<open>dump_loop\<close> for
  descriptors of any positive size that fill the map, \<open>WaitAnyKey\<close> with the first key (\<open>WaitAnyKey_returns\<close>), \<open>io_loop\<close> after
  five timeouts or with the acknowledgement, \<open>xfer_loop\<close> with the end of the file, \<open>drain_loop\<close> with
  finitely many datagrams, \<open>main_loop\<close> with option \<^verbatim>\<open>-1\<close>; \<open>netboot_loop\<close> runs until a boot is
  attempted, and C28 says exactly when it returns. No fuel is used.

  \<^bold>\<open>Not modelled.\<close> The firmware itself and gnu-efi's start-up, device path and print functions, which are
  fields of the records or have no effect here (\<open>InitializeLib\<close>); the headers of EFI and EDK2, but for
  the numbers used; output under \<open>TRACE\<close> and code under \<^verbatim>\<open>#if 0\<close>, which are not compiled; the
  instruction sequence of \<open>start_kernel\<close>, whose effect is the outcome \<open>Started\<close>. Separately allocated
  objects are taken not to overlap, and a program run by \<open>StartImage\<close> is taken to come back with the
  loader's own memory unchanged.
\<close>

section \<open>UDP over IPv6\<close>

text \<open>
  C1: A datagram sent by \<open>udp6_send\<close> arrives. The sender hands one frame to its interface, and
  loses no transmit buffer; a host with the destination address that receives the frame, followed
  by anything, calls its client exactly once, with the data, the ports and the addresses of the
  sender, and has noted the sender's addresses for replies.
\<close>

theorem udp_datagram_delivered:
  fixes s :: "('f, 'a) inet6_scheme" and t :: "('g, 'b) inet6_scheme"
  assumes s: "stack_ok efi inflight A s" "eth_buffers s \<noteq> NULL" and hop: "next_hop s daddr = Some dmac"
    and data: "off + dlen \<le> length data" "dlen \<le> 1452" and daddr: "length daddr = 16"
    and t: "addrs_ok t" "daddr = ll_ip6_addr t \<or> daddr = snm_ip6_addr t"
  shows "\<exists>p frame st f s'. Transmit efi p frame (fw s) = (st, f) \<and>
    udp6_send efi data off dlen daddr dport sport s = Some (if st = 0 then 0 else -1, s') \<and>
    stack_ok efi inflight A s' \<and> length frame = 62 + dlen \<and>
    (\<forall>rest. dlen mod 2 \<le> length rest \<longrightarrow>
      (\<exists>d'. length d' = length (frame @ rest) \<and> take dlen (drop 62 d') = take dlen (drop off data) \<and>
        eth_recv efi' recv (frame @ rest) (length frame) t =
          recv d' 62 dlen daddr dport (ll_ip6_addr s) sport
            (t\<lparr>rx_mac_addr := ll_mac_addr s, rx_ip6_addr := ll_ip6_addr s\<rparr>)))"
proof -
  have ok: "drv_idle efi inflight A s" "addrs_ok s" using s(1) by (simp_all add: stack_ok_def)
  let ?m = "take dlen (drop off data)"
  let ?F = "udp6_frame dmac (ll_mac_addr s) (ll_ip6_addr s) daddr sport dport ?m"
  have len: "length dmac = 6" "length (ll_mac_addr s) = 6" "length (ll_ip6_addr s) = 16"
    using length_next_hop [OF ok(2) daddr hop] ok(2) by (simp_all add: addrs_ok_def)
  have lm: "length ?m = dlen" using data by simp
  obtain r s' where s': "udp6_send efi data off dlen daddr dport sport s = Some (r, s')"
      "drv_idle efi inflight A s'" "untouched s' = untouched s"
      "sent_as efi (dlen \<le> 1452) daddr (\<lambda>dmac. udp6_frame dmac (ll_mac_addr s) (ll_ip6_addr s) daddr
        sport dport ?m) s r (fw s')"
    using udp6_send_sent [OF ok daddr data(1)] by blast
  from s'(4) obtain p st where "Transmit efi p ?F (fw s) = (st, fw s')" "r = (if st = 0 then 0 else -1)"
    using hop s(2) data(2) by (auto simp: sent_as_def)
  moreover have "stack_ok efi inflight A s'" using drv_idle_frame(1) [OF s'(3,2) s(1)] .
  moreover have lF: "length ?F = 62 + dlen" using len daddr lm by simp
  moreover have "\<exists>d'. length d' = length (?F @ rest) \<and> take dlen (drop 62 d') = ?m \<and>
      eth_recv efi' recv (?F @ rest) (length ?F) t = recv d' 62 dlen daddr dport (ll_ip6_addr s) sport
        (t\<lparr>rx_mac_addr := ll_mac_addr s, rx_ip6_addr := ll_ip6_addr s\<rparr>)"
    if "dlen mod 2 \<le> length rest" for rest
  proof -
    have n: "length ?m \<le> 1452" "62 + length ?m \<le> length ?F" "length ?m mod 2 \<le> length rest"
      unfolding lm lF using data(2) that by simp_all
    show ?thesis
      by (rule eth_recv_udp6_frame [OF len daddr n(1,2) t refl n(3), of sport dport efi' recv])
         (metis lm)
  qed
  ultimately show ?thesis using s'(1) by blast
qed

theorem udp_datagram_delivered_witness:
  "\<exists>p frame st f s'. Transmit ex_fw p frame (fw ex_s) = (st, f) \<and>
    udp6_send ex_fw [1, 2, 3] 0 3 ex_peer 33331 33330 ex_s = Some (if st = 0 then 0 else -1, s') \<and>
    length frame = 62 + 3"
proof -
  have h: "eth_buffers ex_s \<noteq> NULL" "0 + 3 \<le> length [1 :: u8, 2, 3]" "(3 :: nat) \<le> 1452"
      "ex_peer = ll_ip6_addr ex_t \<or> ex_peer = snm_ip6_addr ex_t"
    by (simp_all add: ex_ll ex_t_addrs)
  show ?thesis
    using udp_datagram_delivered [OF ex_stack h(1) ex_hop(1) h(2,3) ex_hop(2) ex_t_addrs(1) h(4)] by blast
qed

text \<open>
  C2: What \<open>udp6_send\<close> does on every path. It always returns and every transmit buffer stays
  accounted for. A packet that is too long, that finds no free buffer or whose destination does
  not resolve is refused with \<open>-1\<close> and the interface is not touched; otherwise the interface gets a
  frame whose Ethernet, IPv6 and UDP headers describe the datagram, with a checksum that is not zero and
  makes the sum over pseudo header and packet all ones, and the result says whether it took the frame.
\<close>

theorem udp6_send_outcome:
  assumes "stack_ok efi inflight A s" and "length daddr = 16" and "off + dlen \<le> length data"
  shows "\<exists>r s'. udp6_send efi data off dlen daddr dport sport s = Some (r, s') \<and>
    stack_ok efi inflight A s' \<and> untouched s' = untouched s \<and>
    (if dlen > 1452 \<or> eth_buffers s = NULL \<or> next_hop s daddr = None then r = -1 \<and> fw s' = fw s
     else \<exists>p frame st. datagram_frame (the (next_hop s daddr)) (ll_mac_addr s) (ll_ip6_addr s) daddr
       sport dport (take dlen (drop off data)) frame \<and>
       Transmit efi p frame (fw s) = (st, fw s') \<and> r = (if st = 0 then 0 else -1))"
proof -
  have ok: "drv_idle efi inflight A s" "addrs_ok s" using assms(1) by (simp_all add: stack_ok_def)
  let ?F = "\<lambda>dmac. udp6_frame dmac (ll_mac_addr s) (ll_ip6_addr s) daddr sport dport (take dlen (drop off data))"
  obtain r s' where s': "udp6_send efi data off dlen daddr dport sport s = Some (r, s')"
      "drv_idle efi inflight A s'" "untouched s' = untouched s" "sent_as efi (dlen \<le> 1452) daddr ?F s r (fw s')"
    using udp6_send_sent [OF ok assms(2,3)] by blast
  have "datagram_frame dmac (ll_mac_addr s) (ll_ip6_addr s) daddr sport dport (take dlen (drop off data)) (?F dmac)"
    if "next_hop s daddr = Some dmac" for dmac
    using udp6_frame_datagram length_next_hop [OF ok(2) assms(2) that] ok(2) assms(2) by (simp add: addrs_ok_def)
  moreover have "stack_ok efi inflight A s'" using drv_idle_frame(1) [OF s'(3,2) assms(1)] .
  ultimately show ?thesis using s' by (auto simp: sent_as_def split: if_splits option.splits)
qed

theorem udp6_send_outcome_witness:
  "\<exists>s'. udp6_send ex_fw (replicate 2000 0) 0 1453 ex_peer 1 2 ex_s = Some (-1, s') \<and> fw s' = fw ex_s"
  using udp6_send_outcome [OF ex_stack ex_hop(2), of 0 1453 "replicate 2000 0" 1 2] by auto

text \<open>
  C3: A datagram whose data was damaged on the way, so that the one's complement sum of its data is
  another one, never reaches the client: the packet is reported and dropped.
\<close>

theorem damaged_datagram_dropped:
  assumes "length dmac = 6" and "length smac = 6" and "length src = 16" and "length dst = 16"
    and "length data \<le> 1452" and "62 + length data \<le> flen" and "addrs_ok s"
    and "dst = ll_ip6_addr s \<or> dst = snm_ip6_addr s"
    and "length data' = length data" and "wsum data' mod 65535 \<noteq> wsum data mod 65535"
    and "length data mod 2 \<le> length rest"
  shows "eth_recv efi recv (eth_ip6_header dmac smac (of_nat (length data + 8)) HDR_UDP src dst @
      udp6_segment sport dport (udp6_ck src dst sport dport data) data' @ rest) flen s =
    BAD ''Checksum Incorrect'' (s\<lparr>rx_mac_addr := smac, rx_ip6_addr := src\<rparr>)"
  using assms by (intro eth_recv_corrupt) auto

theorem damaged_datagram_dropped_witness:
  "eth_recv ex_fw (udp6_recv ex_fw) (eth_ip6_header ex_mac ex_peer_mac (of_nat (length [1 :: u8, 2] + 8)) HDR_UDP
      ex_peer (ll_addr ex_mac) @ udp6_segment 5 6 (udp6_ck ex_peer (ll_addr ex_mac) 5 6 [1, 2]) [1, 3] @ []) 64 ex_s =
    BAD ''Checksum Incorrect'' (ex_s\<lparr>rx_mac_addr := ex_peer_mac, rx_ip6_addr := ex_peer\<rparr>)"
  using damaged_datagram_dropped [of ex_mac ex_peer_mac ex_peer "ll_addr ex_mac" "[1, 2]" 64 ex_s "[1, 3]" "[]"
      ex_fw "udp6_recv ex_fw" 5 6]
  by (simp add: ex_lens ex_hop ex_addrs ex_ll)

section \<open>Any input\<close>

text \<open>
  C4: Whatever frame the interface delivers, \<open>eth_recv\<close> with the netboot client returns without
  leaving the receive buffer, every transmit buffer stays accounted for, and no file buffer is
  overrun.
\<close>

theorem eth_recv_any_frame:
  fixes s :: "('f, 'a) netboot_scheme"
  assumes "stack_ok efi inflight A s" and "files_ok s" and "length d = ETH_MTU" and "flen \<le> ETH_MTU"
  shows "\<exists>s'. eth_recv efi (udp6_recv efi) d flen s = Some s' \<and> stack_ok efi inflight A s' \<and> files_ok s'"
  using nb.eth_recv_good [of efi inflight A s d flen] assms unfolding nb.good_def by blast

theorem eth_recv_any_frame_witness:
  "\<exists>s'. eth_recv ex_fw (udp6_recv ex_fw) (replicate 1514 0x86) 1514 ex_s = Some s' \<and> files_ok s'"
  using eth_recv_any_frame [OF ex_stack ex_files, of "replicate 1514 0x86" 1514] by auto

text \<open>
  C5: Every \<open>netboot_poll\<close> returns 0 or 1 and keeps the invariant of driver, stack and files, for
  any firmware that hands back the buffers it took and delivers frames that fit.
\<close>

theorem netboot_poll_safe:
  fixes s :: "('f, 'a) netboot_scheme"
  assumes "nb_good efi inflight A s" and "rx_contract efi"
  shows "\<exists>r s'. netboot_poll efi s = Some (r, s') \<and> r \<in> {0, 1} \<and> nb_good efi inflight A s'"
  using netboot_poll_good assms .

theorem netboot_poll_safe_witness:
  "\<exists>r s'. netboot_poll ex_fw ex_s = Some (r, s') \<and> nb_good ex_fw ex_inflight {0x1000} s'"
  using netboot_poll_safe [OF _ ex_rx, of ex_inflight "{0x1000}" ex_s] ex_stack ex_files
  by (auto simp: nb_good_def)

text \<open>
  C6: Opening the interface always returns. When it succeeds, all sixteen buffers are free and
  distinct, the host has the EUI-64 link-local and the solicited-node address of its MAC address,
  and the stack's invariant holds.
\<close>

theorem netifc_open_establishes:
  assumes "open_contract efi inflight" and "tx_contract efi inflight" and "pristine inflight s"
  shows "\<exists>r s'. netifc_open efi s = Some (r, s') \<and> r \<in> {0, -1} \<and> (r = 0 \<longrightarrow> opened efi inflight s') \<and>
    inet6.more s' = inet6.more s"
  using netifc_open_ok assms .

theorem netifc_open_establishes_witness:
  "\<exists>r s'. netifc_open ex_fw (ex_s\<lparr>eth_buffers := 0, buffer_heap := Map.empty\<rparr>) = Some (r, s') \<and>
    (r = 0 \<longrightarrow> opened ex_fw ex_inflight s')"
  using netifc_open_establishes [OF ex_open ex_tx, of "ex_s\<lparr>eth_buffers := 0, buffer_heap := Map.empty\<rparr>"] ex_addrs
  by (fastforce simp: pristine_def addrs_ok_def filters_ok_def ex_s_def ex_inflight_def)

section \<open>Answering neighbours\<close>

text \<open>
  C7: A valid neighbour solicitation for this host's address is answered with an advertisement of
  its link address, sent to the solicitor (unless no transmit buffer is free).
\<close>

theorem solicitation_answered:
  assumes "stack_ok efi inflight A s"
    and "length dmac = 6" and "length smac = 6" and "length src = 16" and "length dst = 16"
    and "icmp6_valid src dst m" and "length m \<le> 1460" and "length m mod 2 \<le> length rest"
    and "54 + length m \<le> flen" and "dst = ll_ip6_addr s \<or> dst = snm_ip6_addr s"
    and "24 \<le> length m" and "m ! 0 = 135" and "m ! 1 = 0" and "take 16 (drop 8 m) = ll_ip6_addr s"
  defines "s1 \<equiv> s\<lparr>rx_mac_addr := smac, rx_ip6_addr := src\<rparr>"
  shows "\<exists>s'. eth_recv efi recv
      (eth_ip6_header dmac smac (of_nat (length m)) HDR_ICMP6 src dst @ m @ rest) flen s = Some s' \<and>
    stack_ok efi inflight A s' \<and> answered_with efi src
      ([136, 0, 0, 0, 0x60, 0, 0, 0] @ ll_ip6_addr s @ [2, 1] @ ll_mac_addr s) s1 s'"
proof -
  have ok: "drv_idle efi inflight A s" "addrs_ok s" using assms(1) by (simp_all add: stack_ok_def)
  have "stack_ok efi inflight A s1" using ok assms(3,4) by (simp add: s1_def stack_ok_def addrs_ok_def)
  with solicit_answered [OF ok assms(2-5) refl assms(6-14), of s1 recv] show ?thesis
    using drv_idle_frame(1) unfolding s1_def by blast
qed

theorem solicitation_answered_witness:
  "\<exists>s'. eth_recv ex_fw (udp6_recv ex_fw) (eth_ip6_header ex_mac ex_peer_mac (of_nat (length ex_solicit))
     HDR_ICMP6 ex_peer (ll_addr ex_mac) @ ex_solicit @ []) 78 ex_s = Some s'"
  using solicitation_answered [OF ex_stack ex_lens(1,2) ex_hop(2) ex_lens(3) ex_valid(1),
      of "[]" 78 "udp6_recv ex_fw"]
  by (auto simp: ex_ll ex_solicit_def)

text \<open>
  C8: A valid echo request is answered with an echo reply to the sender that carries the same
  identifier and data, with a fresh checksum (unless no transmit buffer is free).
\<close>

theorem echo_request_answered:
  assumes "stack_ok efi inflight A s"
    and "length dmac = 6" and "length smac = 6" and "length src = 16" and "length dst = 16"
    and "icmp6_valid src dst m" and "length m \<le> 1460" and "length m mod 2 \<le> length rest"
    and "54 + length m \<le> flen" and "dst = ll_ip6_addr s \<or> dst = snm_ip6_addr s" and "m ! 0 = 128"
  defines "s1 \<equiv> s\<lparr>rx_mac_addr := smac, rx_ip6_addr := src\<rparr>"
  shows "\<exists>s'. eth_recv efi recv
      (eth_ip6_header dmac smac (of_nat (length m)) HDR_ICMP6 src dst @ m @ rest) flen s = Some s' \<and>
    stack_ok efi inflight A s' \<and> answered_with efi src ([129, m ! 1, 0, 0] @ drop 4 m) s1 s'"
proof -
  have ok: "drv_idle efi inflight A s" "addrs_ok s" using assms(1) by (simp_all add: stack_ok_def)
  have "stack_ok efi inflight A s1" using ok assms(3,4) by (simp add: s1_def stack_ok_def addrs_ok_def)
  with echo_answered [OF ok assms(2-5) refl assms(6-11), of s1 recv] show ?thesis
    using drv_idle_frame(1) unfolding s1_def by blast
qed

theorem echo_request_answered_witness:
  "\<exists>s'. eth_recv ex_fw (udp6_recv ex_fw) (eth_ip6_header ex_mac ex_peer_mac (of_nat (length ex_echo))
     HDR_ICMP6 ex_peer (ll_addr ex_mac) @ ex_echo @ []) 62 ex_s = Some s'"
  using echo_request_answered [OF ex_stack ex_lens(1,2) ex_hop(2) ex_lens(3) ex_valid(2),
      of "[]" 62 "udp6_recv ex_fw"]
  by (auto simp: ex_ll ex_echo_def)

section \<open>Receiving files\<close>

text \<open>
  C9: A kernel sent the way the netboot client sends it (open the file, then the blocks in order,
  every message with a new cookie) is in the kernel's buffer afterwards, byte for byte, and the
  write pointer is its length. The frame around the messages may be any.
\<close>

theorem kernel_received:
  fixes s :: "('f, 'a) netboot_scheme"
  assumes ok: "stack_ok efi inflight A s" "files_ok s"
    and cap: "length (concat bs) \<le> caps s NbKernel" "caps s NbKernel < 2 ^ 32"
    and new: "k \<noteq> last_cookie s" and b: "\<forall>b\<in>set bs. length b \<le> 1436"
    and hdr: "\<And>k. length (hdr k) = 62" and src: "length src = 16"
  shows "\<exists>s'. do {
      s \<leftarrow> udp6_recv efi (nb_packet (hdr k) k NB_SEND_FILE 0 (asc ''kernel.bin'' @ [0]) (tail k)) 62 27
             dst NB_SERVER_PORT src sport s;
      deliver efi hdr tail dst src sport (k + 1) 0 bs s } = Some s' \<and>
    stack_ok efi inflight A s' \<and> files_ok s' \<and>
    unat (nb_offset (nb_files s' NbKernel)) = length (concat bs) \<and>
    take (length (concat bs)) (nb_data (nb_files s' NbKernel)) = concat bs"
proof -
  let ?n = "asc ''kernel.bin''" and ?p = "hdr k @ nbmsg k NB_SEND_FILE 0"
  let ?d = "nb_packet (hdr k) k NB_SEND_FILE 0 (?n @ [0]) (tail k)"
  have d: "?d = ?p @ (?n @ [0]) @ tail k" by (simp add: nb_packet_def)
  have f: "file_named ((?n @ [0]) @ tail k) = Some NbKernel" by (simp add: file_named_def)
  have "length ?p = 78" "\<forall>c\<in>set ?n. 0x20 \<le> c \<and> c \<le> 127" "89 \<le> length ?d" "length ?n + 1 = 11"
    using hdr by (simp_all add: nb_packet_def)
  note opn = nb_open_refines [OF ok(2) this(1) d this(2,3), of 0 efi inflight A, unfolded f this(4)]
  obtain s1 where s1: "nb_command ?d 78 11 NB_SEND_FILE 0 s = Some (Some (NB_ACK, 0), s1)"
      "view s1 = abs_open (Some NbKernel) (view s)" "files_ok s1" "caps s1 = caps s" "stack_ok efi inflight A s1"
    using opn ok(1) by auto
  let ?s = "s1\<lparr>last_cookie := k, last_cmd := NB_SEND_FILE, last_arg := 0,
      last_ack_cmd := NB_ACK, last_ack_arg := 0\<rparr>"
  obtain s2 where s2: "nb_transmit efi (nbmsg k NB_ACK 0) src sport ?s = Some s2" "stack_ok efi inflight A s2"
      "view s2 = view ?s" "caps s2 = caps ?s" "files_ok s2 = files_ok ?s" "last_cookie s2 = k"
    using nb_transmit_view [of efi inflight A ?s src k NB_ACK 0 sport] s1(5) src by auto
  have l: "length (?n @ [0]) = 11" by simp
  have r: "udp6_recv efi ?d 62 27 dst NB_SERVER_PORT src sport s = Some s2"
    using udp6_recv_fresh [OF hdr [of k] refl, where cookie = k and s = s and cmd = NB_SEND_FILE and arg = 0
        and payload = "?n @ [0]" and rest = "tail k" and efi = efi and dst = dst and src = src and sport = sport, unfolded l]
      new s1(1) s2(1) by simp
  have v: "view s2 = abs_open (Some NbKernel) (view s)" "caps s2 = caps s" "files_ok s2"
    using s2(3-5) s1(2-4) by (simp_all add: view_def caps_def fun_eq_iff)
  then have v2: "item s2 = Some NbKernel" "content (nb_files s2 NbKernel) = []"
    by (auto simp: view_def abs_open_def dest: fun_cong [of _ _ NbKernel])
  obtain s' where s': "deliver efi hdr tail dst src sport (k + 1) 0 bs s2 = Some s'"
      "stack_ok efi inflight A s'" "files_ok s'" "content (nb_files s' NbKernel) = concat bs"
    using deliver_content [OF s2(2) v(3) v2(1), of 0 bs "k + 1" hdr src tail dst sport] v2(2) v(2) cap b hdr src s2(6)
    by auto
  have "file_ok (nb_files s' NbKernel)" using s'(3) by (simp add: files_ok_def)
  then have "unat (nb_offset (nb_files s' NbKernel)) = length (concat bs)"
    using length_content s'(4) by metis
  then show ?thesis using r s' by (auto simp: content_def)
qed

theorem kernel_received_witness:
  "\<exists>s'. do {
      s \<leftarrow> udp6_recv ex_fw (nb_packet (replicate 62 0) 1 NB_SEND_FILE 0 (asc ''kernel.bin'' @ [0]) []) 62 27
             (ll_addr ex_mac) NB_SERVER_PORT ex_peer 9 ex_s;
      deliver ex_fw (\<lambda>_. replicate 62 0) (\<lambda>_. []) (ll_addr ex_mac) ex_peer 9 (1 + 1) 0 [[1, 2, 3], [4, 5]] s }
      = Some s' \<and>
    take (length (concat [[1 :: u8, 2, 3], [4, 5]])) (nb_data (nb_files s' NbKernel)) = concat [[1, 2, 3], [4, 5]]"
proof -
  have h: "length (concat [[1 :: u8, 2, 3], [4, 5]]) \<le> caps ex_s NbKernel" "caps ex_s NbKernel < 2 ^ 32"
      "1 \<noteq> last_cookie ex_s" "\<forall>b\<in>set [[1 :: u8, 2, 3], [4, 5]]. length b \<le> 1436"
    by (simp_all add: ex_caps ex_ll)
  show ?thesis
    using kernel_received [OF ex_stack ex_files h, of "\<lambda>_. replicate 62 0" ex_peer "\<lambda>_. []" "ll_addr ex_mac" 9]
      ex_hop(2) by auto
qed

text \<open>
  C10: The file buffers refine the abstract server. A data message appends its payload to what was
  received of the open file exactly when its argument is the length received so far and the buffer
  has room; it is acknowledged then, refused as too large when it does not fit, and ignored
  otherwise. Nothing else changes.
\<close>

theorem data_message_refines:
  fixes s :: "('f, 'a) netboot_scheme"
  assumes "files_ok s" and "data + length payload \<le> length d" and "length payload \<le> 1514"
    and "take (length payload) (drop data d) = payload"
  shows "\<exists>ack s'. nb_command d data (length payload) NB_DATA arg s = Some (ack, s') \<and>
    view s' = abs_data (caps s) (unat arg) payload (view s) \<and> files_ok s' \<and>
    (\<exists>fs. s' = s\<lparr>nb_files := fs\<rparr>) \<and>
    ack = (case item s of None \<Rightarrow> None | Some i \<Rightarrow>
      if unat arg \<noteq> length (content (nb_files s i)) then None
      else if unat arg + length payload > caps s i then Some (NB_ERROR_TOO_LARGE, arg)
      else Some (NB_ACK, arg))"
  using nb_data_refines [OF assms, of arg] by blast

theorem data_message_refines_witness:
  "\<exists>ack s'. nb_command [7, 8, 9] 1 (length [8 :: u8, 9]) NB_DATA 0 (ex_s\<lparr>item := Some NbCmdline\<rparr>) = Some (ack, s') \<and>
    view s' = abs_data (caps (ex_s\<lparr>item := Some NbCmdline\<rparr>)) (unat (0 :: u32)) [8, 9]
      (view (ex_s\<lparr>item := Some NbCmdline\<rparr>))"
  using data_message_refines [of "ex_s\<lparr>item := Some NbCmdline\<rparr>" 1 "[8, 9]" "[7, 8, 9]" 0] ex_files by auto

text \<open>
  C11: The test for a repeated message assigns instead of comparing. A message with the last cookie
  and command is answered with the last answer whatever its argument is, if that is not zero; with
  argument zero it is processed again. In particular a first data block that is sent again because
  its acknowledgement was lost is neither stored nor acknowledged.
\<close>

theorem repeated_first_block_ignored:
  fixes s :: "('f, 'a) netboot_scheme"
  assumes "length pre = 62" and "last_cookie s = cookie" and "last_cmd s = NB_DATA" and "item s = Some i"
    and "nb_offset (nb_files s i) \<noteq> 0"
  shows "udp6_recv efi (nb_packet pre cookie NB_DATA 0 payload rest) 62 (16 + length payload)
    dst NB_SERVER_PORT src sport s = Some (s\<lparr>last_arg := 0\<rparr>)"
  using assms by (simp add: udp6_recv_def nb_packet_reads nb_repeated_def nb_command_def Let_def)

theorem repeated_first_block_ignored_witness:
  "udp6_recv ex_fw (nb_packet (replicate 62 0) 5 NB_DATA 0 [1] []) 62 (16 + length [1 :: u8])
     (ll_addr ex_mac) NB_SERVER_PORT ex_peer 9
     (ex_s\<lparr>last_cookie := 5, last_cmd := NB_DATA, item := Some NbKernel,
        nb_files := (\<lambda>i. (ex_file 64)\<lparr>nb_offset := 1\<rparr>)\<rparr>) =
   Some (ex_s\<lparr>last_cookie := 5, last_cmd := NB_DATA, item := Some NbKernel,
        nb_files := (\<lambda>i. (ex_file 64)\<lparr>nb_offset := 1\<rparr>), last_arg := 0\<rparr>)"
  using repeated_first_block_ignored [of "replicate 62 0" "ex_s\<lparr>last_cookie := 5, last_cmd := NB_DATA,
      item := Some NbKernel, nb_files := (\<lambda>i. (ex_file 64)\<lparr>nb_offset := 1\<rparr>)\<rparr>" 5 NbKernel ex_fw "[1]" "[]"
      "ll_addr ex_mac" ex_peer 9] by simp

section \<open>Transmit buffers and checksums\<close>

text \<open>
  C12: No sequence of buffer requests and returns, in any order and by any address inside a buffer,
  loses, duplicates or invents a buffer: free and held buffers together are always the same set,
  each once.
\<close>

theorem buffers_conserved:
  fixes s :: "('f, 'a) netifc_scheme"
  assumes "pool s A as" and "distinct (as @ held)" and "set (as @ held) = A"
  shows "\<exists>held' s' as'. pool_run eth_get_buffer eth_put_buffer ops held s = Some (held', s') \<and>
    pool s' A as' \<and> distinct (as' @ held') \<and> set (as' @ held') = A"
  using eth.run_conserves assms .

theorem buffers_conserved_witness:
  "\<exists>held' s' as'. pool_run eth_get_buffer eth_put_buffer [Get 100, Get 100, Put 0 77] [] ex_s = Some (held', s') \<and>
    pool s' {0x1000} as' \<and> distinct (as' @ held') \<and> set (as' @ held') = {0x1000}"
proof -
  have "pool ex_s {0x1000} [0x1000]" by (auto simp: pool_def slots_ok_def ex_s_def)
  then show ?thesis
    using buffers_conserved [of ex_s "{0x1000}" "[0x1000]" "[]" "[Get 100, Get 100, Put 0 77]"] by simp
qed

text \<open>
  C13: \<open>checksum\<close> is the one's complement sum of the 16-bit words of a slice added to the start
  value, the last byte of an odd slice counting as a low byte; the 32-bit accumulator does not
  overflow on any slice up to 131068 bytes, and folding ends.
\<close>

theorem checksum_is_ones_complement_sum:
  assumes "off + len + len mod 2 \<le> length d" and "len \<le> 131068"
  shows "checksum d off len sm = Some (of_nat (oc16 (unat sm + wsum (take len (drop off d)))))"
  using inet.cks_slice assms .

theorem checksum_is_ones_complement_sum_witness:
  "checksum [9, 0x12, 0x34, 0xFF, 0] 1 3 0xFFFF = Some (of_nat (oc16 (unat (0xFFFF :: u16) + wsum [0x12, 0x34, 0xFF])))"
  using checksum_is_ones_complement_sum [where off = 1 and len = 3 and d = "[9, 0x12, 0x34, 0xFF, 0]" and sm = "0xFFFF"] by simp

section \<open>Formatted output\<close>

text \<open>
  C14: The text that \<open>ip6toa\<close> writes is that of the eight groups of the address with the first run
  of zero groups written as \<open>::\<close>; with its terminator it fits in 40 bytes, and nothing else of the
  buffer changes. The two bytes \<open>x\<close> behind the address, which the code may read, have no influence.
\<close>

theorem ip6toa_text:
  assumes "length ip = 16" and "2 \<le> length x" and "IP6TOAMAX \<le> length buf"
  shows "ip6toa buf (ip @ x) = Some (ip6_text (groups ip) @ 0 # drop (length (ip6_text (groups ip)) + 1) buf) \<and>
    length (ip6_text (groups ip)) < IP6TOAMAX"
proof -
  have "grp16 (ip @ x) i = grp16 ip i" if "i < 8" for i
    using that assms(1) by (simp add: grp16_def nth_append)
  then have "groups (ip @ x) = groups ip" by (simp add: groups_def)
  moreover have "length (ip6_text (groups ip)) \<le> 39" by (rule ip6_text_length) (simp add: groups_def)
  ultimately show ?thesis using ip6toa_eq [of "ip @ x" buf] assms by (simp add: written_def)
qed

theorem ip6toa_text_witness:
  "ip6toa (replicate 40 0) (ll_addr ex_mac @ [1, 2]) =
    Some (ip6_text (groups (ll_addr ex_mac)) @ 0 # drop (length (ip6_text (groups (ll_addr ex_mac))) + 1) (replicate 40 0))"
  using ip6toa_text [of "ll_addr ex_mac" "[1, 2]" "replicate 40 0"] by simp

text \<open>
  C15: What the printing engine makes of \<open>%d\<close> with any flags and field width is the field that C
  defines, sign, padding and digits, with one exception: when the field is left-justified the sign is
  not printed, not even that of a negative number.
\<close>

theorem decimal_field:
  assumes "ps_args p = PInt x # as"
  shows "conv text_out (chr8 CHR ''d'') flags w p k =
    (let n = arg_signed flags x; neg = sint n < 0; D = dec_digits (unat (if neg then - n else n));
         F = c_field flags (unat w) (if has flags LEFTFORMATFLAG then 0 else sign_char neg flags) D
     in k (p\<lparr>ps_args := as, ps_out := ps_out p @ F, ps_written := ps_written p + of_nat (length F)\<rparr>))"
  unfolding Let_def using assms by (rule conv_decimal) (rule refl)+

theorem decimal_field_witness:
  "conv text_out (chr8 CHR ''d'') LEFTFORMATFLAG 5 \<lparr>ps_out = [], ps_args = [PInt (- 42)], ps_written = 0, ps_stores = []\<rparr> engine_exit =
     engine_exit \<lparr>ps_out = asc ''42   '', ps_args = [], ps_written = 5, ps_stores = []\<rparr> \<and>
   conv text_out (chr8 CHR ''d'') LEADZEROFLAG 5 \<lparr>ps_out = [], ps_args = [PInt (- 42)], ps_written = 0, ps_stores = []\<rparr> engine_exit =
     engine_exit \<lparr>ps_out = asc ''-0042'', ps_args = [], ps_written = 5, ps_stores = []\<rparr>"
proof -
  have a: "arg_signed f (- 42) = - 42" if "f = LEFTFORMATFLAG \<or> f = LEADZEROFLAG" for f
    using that by (auto simp: arg_signed_def has_def)
  have d: "dec_digits 42 = asc ''42''" by (simp add: dec_digits.simps)
  have r: "replicate 3 c = [c, c, c]" "replicate 2 c = [c, c]" for c :: u8 by (simp_all add: numeral_eq_Suc)
  show ?thesis
    using decimal_field [of "\<lparr>ps_out = [], ps_args = [PInt (- 42)], ps_written = 0, ps_stores = []\<rparr>" "- 42" "[]" LEFTFORMATFLAG 5 engine_exit]
      decimal_field [of "\<lparr>ps_out = [], ps_args = [PInt (- 42)], ps_written = 0, ps_stores = []\<rparr>" "- 42" "[]" LEADZEROFLAG 5 engine_exit]
    by (simp add: a d r c_field_def has_def sign_char_def Let_def)
qed

text \<open>
  C16: \<open>vsnprintf\<close> writes the text of the format, cut to \<open>len - 1\<close> characters and terminated, and
  touches nothing else of the object; its result is the length of the whole text. The text is that
  of the engine with an output function that only appends.
\<close>

theorem vsnprintf_writes_text:
  assumes "format fmt args = Some (n, p)" and "length (ps_out p) < 2147483648" and "0 < len"
    and "base + min len (length (ps_out p) + 1) \<le> length str"
  shows "vsnprintf str base len fmt args = Some (int (length (ps_out p)),
    take base str @ take (len - 1) (ps_out p) @ 0 # drop (base + min len (length (ps_out p) + 1)) str,
    ps_stores p)"
  using vsnprintf_eq [OF assms(1) refl assms(2-4)] .

theorem vsnprintf_writes_text_witness:
  "\<exists>p. format (asc '':'' @ [0]) [] = Some (1, p) \<and> vsnprintf (replicate 4 7) 1 1 (asc '':'' @ [0]) [] =
    Some (int (length (ps_out p)),
      take 1 (replicate 4 7) @ take (1 - 1) (ps_out p) @ 0 # drop (1 + min 1 (length (ps_out p) + 1)) (replicate 4 7),
      ps_stores p)"
proof -
  obtain p where p: "format (asc '':'' @ [0]) [] = Some (1, p)" "ps_out p = asc '':''"
    by (simp add: format_def printf_engine_def engine.simps text_out_step engine_exit_def)
  with vsnprintf_writes_text [OF p(1), of 1 1 "replicate 4 7"] show ?thesis by auto
qed

text \<open>
  C17: Integers come out as their decimal digits, with a sign character and the magnitude of
  negative ones (the most negative one included), and the conversion stays inside its 32-byte
  buffer.
\<close>

theorem decimal_conversion:
  assumes "21 \<le> len" and "len \<le> length buf"
  shows "longlong_to_string buf n len flag =
    (let neg = has flag SIGNEDFLAG \<and> sint n < 0; D = dec_digits (unat (if neg then - n else n)) in
     Some (take (len - 1 - length D) buf @ D @ 0 # drop len buf, len - 1 - length D, sign_char neg flag)) \<and>
    length (dec_digits (unat n)) \<le> 20"
  using longlong_to_string_eq [OF assms refl refl] dec_digits_u64 [of n] by (simp add: Let_def)

theorem decimal_conversion_witness:
  "longlong_to_string (replicate 32 0) (-1) 32 SIGNEDFLAG =
    (let neg = has SIGNEDFLAG SIGNEDFLAG \<and> sint (-1 :: u64) < 0; D = dec_digits (unat (if neg then - (-1 :: u64) else -1)) in
     Some (take (32 - 1 - length D) (replicate 32 0) @ D @ 0 # drop 32 (replicate 32 0), 32 - 1 - length D,
       sign_char neg SIGNEDFLAG))"
  using decimal_conversion [of 32 "replicate 32 0" "-1" SIGNEDFLAG] by (simp only: length_replicate)

section \<open>Both ends of the netboot protocol\<close>



section \<open>The client program\<close>



text \<open>
  C38: That condition is needed. When the one acknowledgement of the first block is lost, every
  repetition of the block is ignored, the client gives the transfer up with an error message (and status 0),
  and the machine is left running with the first block as its kernel.
\<close>

theorem lost_first_acknowledgement:
  fixes s :: "ex_st osboot" and c :: "link nbs"
  assumes ok: "unstarted s"
    and net: "length (fs (nbs_cookie c)) \<le> 4" "fs (nbs_cookie c + 1) = Lost_Answer # gs"
    and kern: "kern \<noteq> []"
    and fn: "fn = [] \<or> hd fn \<noteq> CHR ''-''" and m: "length msgbuf = 2048"
  shows "\<exists>w c' s'. switched_on t img cmd s kern fs = Some w \<and>
    nbserver_main (link_os t img) argv0 [''-1'', fn] msgbuf (c\<lparr>world := w\<rparr>) = Some (0, c') \<and>
    last (errs c') = (''\<newline>%s: error: sending '' @ quoted ''%s'' @ ''\<newline>'',
      [PStr (Some (asc argv0 @ [0])), PStr (Some (asc fn @ [0]))]) \<and>
    target (world c') = Running s' \<and> content (nb_files s' NbKernel) = take 1024 kern"
proof -
  obtain w A s' s1 ds where w: "switched_on t img cmd s kern fs = Some w" "target w = Running s'" "ready t A (unat KBUFSIZE) s'"
      "unread w = kern" "faults w = fs" "inbound w = []" "late w = []" "sockets w = 0"
      "beacons w = beacon_frame s1 # ds" "up t A s1" "take 2 (ll_ip6_addr s1) = [0xFE, 0x80]"
    using switched_on_ready [OF ok, of t img cmd kern fs] by blast
  let ?w = "w\<lparr>beacons := ds, sockets := 2\<rparr>" and ?cap = "unat KBUFSIZE" and ?k = "nbs_cookie c" and ?os = "link_os t img"
  let ?c = "\<lambda>es. c\<lparr>world := ?w, appname := asc argv0 @ [0], errs := es\<rparr>" and ?blk = "take 1024 kern"
  obtain es where n: "nbserver_main ?os argv0 [''-1'', fn] msgbuf (c\<lparr>world := w\<rparr>) =
      map_option (Pair 0) (xfer_socket ?os 4 1 fn msgbuf (?c es))"
    using client_session [OF w(9-11,8) fn] by blast
  obtain w1 where w1: "talk ?os 4 (nbmsg ?k NB_SEND_FILE 0 @ asc ''kernel.bin'' @ [0]) ?k 0 5 False ?w True w1"
      "kernel_opened t A ?cap ?k (target w1)" "unread w1 = kern" "faults w1 (?k + 1) = Lost_Answer # gs"
      "set (inbound w1 @ late w1) \<subseteq> {nbmsg ?k NB_ACK 0}"
    using first_message [of ?w s' t A ?cap ?k 4 img] w(2-7) net by auto
  let ?w2 = "w1\<lparr>unread := drop 1024 kern\<rparr>"
  have blk: "length ?blk \<le> 1024" "length ?blk \<le> ?cap" by (simp_all add: min_le_iff_disj)
  obtain w3 where w3: "talk ?os 4 (nbmsg (?k + 1) NB_DATA 0 @ ?blk) (?k + 1) 0 5 False ?w2 False w3"
      "stored t A ?cap (?k + 1) 0 ?blk (target w3)"
    using first_block_lost [of t A ?cap ?k ?w2 ?blk gs 4 img] w1 kern blk by auto
  have rd: "p_fread ?os 1 1024 w1 = (?blk, ?w2)" using w1(3) by (simp add: link_os_def)
  obtain c' where c': "xfer_socket ?os 4 1 fn msgbuf (?c es) = Some c'" "world c' = w3"
      "last (errs c') = (''\<newline>%s: error: sending '' @ quoted ''%s'' @ ''\<newline>'',
        [PStr (Some (asc argv0 @ [0])), PStr (Some (asc fn @ [0]))])"
    using xfer_socket_stops [of ?os 4 "?c es" w1 1 ?blk ?w2 w3 msgbuf fn] w1(1) rd kern w3(1) m by auto
  then show ?thesis using w(1) n w3(2) by (auto simp: stored_def has_kernel_def)
qed

theorem lost_first_acknowledgement_witness:
  "\<exists>w c' s'. switched_on (\<lambda>_. False) 0x8800 0x500000 ex_off ex_kernel ((\<lambda>_. [])(2 := [Lost_Answer])) = Some w \<and>
    nbserver_main (link_os (\<lambda>_. False) 0x8800) ''nbserver'' [''-1'', ''magenta.bin''] (replicate 2048 0) (ex_client w) = Some (0, c') \<and>
    target (world c') = Running s' \<and> content (nb_files s' NbKernel) = take 1024 ex_kernel"
proof -
  have "ex_kernel \<noteq> []" using length_ex_kernel by auto
  then show ?thesis
    using lost_first_acknowledgement [OF ex_unstarted(1), of "(\<lambda>_. [])(2 := [Lost_Answer])" "ex_client ex_idle_link" "[]" ex_kernel
      "''magenta.bin''" "replicate 2048 0" "\<lambda>_. False" "0x8800" "0x500000" "''nbserver''"]
    by (auto simp: ex_unstarted length_ex_kernel ex_client_def)
qed



end
